(* ===== verification/Utix_Prelude.thy ===== *)
theory Utix_Prelude
  imports Main "HOL-Library.AList" "HOL-Library.Char_ord" "HOL-Library.List_Lexorder"
begin

text \<open>
  Shared vocabulary of the development: the \<open>Result\<close> type of \<open>core/result/result.ts\<close>,
  the parts of the JavaScript standard library the modelled modules use (ordered
  \<open>Map\<close>, string tests, \<open>Number.isInteger\<close>, \<open>Array.slice\<close>), the interfaces several
  components rely on as locales (a keyed store, a step system with an invariant), and
  the generic lemmas the component proofs share.

  Strings are Isabelle strings: sequences of code units below 256. Timestamps that
  the code only compares are the instants (milliseconds) they denote; where the code
  works on the text of a timestamp the model keeps the text.
\<close>

section \<open>Results\<close>

text \<open>
  \<open>Ok\<close> and \<open>Err\<close> are the two shapes of \<open>Result\<close>. Where an error carries a detail
  the error type of the component carries it.
\<close>

datatype ('a, 'c) result = Ok (ok_value: 'a) | Err (err_code: 'c)

fun isOk :: "('a, 'c) result \<Rightarrow> bool" where
  "isOk (Ok _) = True"
| "isOk (Err _) = False"

definition isErr :: "('a, 'c) result \<Rightarrow> bool" where
  "isErr r = (\<not> isOk r)"

fun unwrapOr :: "('a, 'c) result \<Rightarrow> 'a \<Rightarrow> 'a" where
  "unwrapOr (Ok v) _ = v"
| "unwrapOr (Err _) fallback = fallback"

fun mapOk :: "('a, 'c) result \<Rightarrow> ('a \<Rightarrow> 'b) \<Rightarrow> ('b, 'c) result" where
  "mapOk (Ok v) f = Ok (f v)"
| "mapOk (Err c) _ = Err c"

lemma isOk_iff: "isOk r \<longleftrightarrow> (\<exists>v. r = Ok v)"
  by (cases r) auto

lemma isErr_iff: "isErr r \<longleftrightarrow> (\<exists>c. r = Err c)"
  by (cases r) (auto simp: isErr_def)

lemma mapOk_eq_Ok: "mapOk r f = Ok w \<longleftrightarrow> (\<exists>v. r = Ok v \<and> w = f v)"
  by (cases r) auto

section \<open>Numbers\<close>

text \<open>
  A \<open>number\<close> argument the code guards with \<open>Number.isInteger\<close> is either an integer
  or one of the values that guard refuses (a fraction, a NaN, an infinity).
\<close>

datatype js_number = JInt int | JNonInt

fun isInteger :: "js_number \<Rightarrow> bool" where
  "isInteger (JInt _) = True"
| "isInteger JNonInt = False"

section \<open>Ordered maps\<close>

text \<open>
  A JavaScript \<open>Map\<close> iterates in insertion order and \<open>set\<close> on a present key keeps its
  place: an association list with \<open>AList.update\<close> and \<open>AList.delete\<close>.
\<close>

type_synonym ('k, 'v) js_map = "('k \<times> 'v) list"

definition map_get :: "('k, 'v) js_map \<Rightarrow> 'k \<Rightarrow> 'v option" where
  "map_get m k = map_of m k"

definition map_set :: "'k \<Rightarrow> 'v \<Rightarrow> ('k, 'v) js_map \<Rightarrow> ('k, 'v) js_map" where
  "map_set k v m = AList.update k v m"

definition map_remove :: "'k \<Rightarrow> ('k, 'v) js_map \<Rightarrow> ('k, 'v) js_map" where
  "map_remove k m = AList.delete k m"

definition map_values :: "('k, 'v) js_map \<Rightarrow> 'v list" where
  "map_values m = map snd m"

definition map_keys :: "('k, 'v) js_map \<Rightarrow> 'k list" where
  "map_keys m = map fst m"

definition map_wf :: "('k, 'v) js_map \<Rightarrow> bool" where
  "map_wf m = distinct (map fst m)"

lemma map_get_empty [simp]: "map_get [] k = None"
  by (simp add: map_get_def)

lemma map_get_set: "map_get (map_set k v m) = (map_get m)(k := Some v)"
  by (auto simp: map_get_def map_set_def update_conv')

lemma map_get_set_same [simp]: "map_get (map_set k v m) k = Some v"
  by (simp add: map_get_set)

lemma map_get_set_other [simp]: "k \<noteq> k' \<Longrightarrow> map_get (map_set k v m) k' = map_get m k'"
  by (simp add: map_get_set)

lemma map_get_remove: "map_get (map_remove k m) = (map_get m)(k := None)"
  by (auto simp: map_get_def map_remove_def delete_conv')

lemma map_get_remove_same [simp]: "map_get (map_remove k m) k = None"
  by (simp add: map_get_remove)

lemma map_get_remove_other [simp]: "k \<noteq> k' \<Longrightarrow> map_get (map_remove k m) k' = map_get m k'"
  by (simp add: map_get_remove)

lemma map_wf_empty [simp, intro]: "map_wf []"
  by (simp add: map_wf_def)

lemma map_wf_set [simp, intro]: "map_wf m \<Longrightarrow> map_wf (map_set k v m)"
  by (simp add: map_wf_def map_set_def distinct_update)

lemma map_wf_remove [simp, intro]: "map_wf m \<Longrightarrow> map_wf (map_remove k m)"
  by (simp add: map_wf_def map_remove_def distinct_delete)

lemma map_keys_set:
  "map_keys (map_set k v m) = (if k \<in> set (map_keys m) then map_keys m else map_keys m @ [k])"
  by (simp add: map_keys_def map_set_def update_keys)

lemma map_get_in_set: "map_get m k = Some v \<Longrightarrow> (k, v) \<in> set m"
  by (simp add: map_get_def map_of_SomeD)

lemma map_wf_get_iff: "map_wf m \<Longrightarrow> map_get m k = Some v \<longleftrightarrow> (k, v) \<in> set m"
  by (simp add: map_wf_def map_get_def)

lemma map_values_mem_iff: "map_wf m \<Longrightarrow> v \<in> set (map_values m) \<longleftrightarrow> (\<exists>k. map_get m k = Some v)"
  by (auto simp: map_values_def map_wf_get_iff image_iff intro: bexI [rotated])

lemma map_get_None_iff: "map_get m k = None \<longleftrightarrow> k \<notin> set (map_keys m)"
  by (simp add: map_get_def map_keys_def map_of_eq_None_iff)

text \<open>A JavaScript \<open>Set\<close> iterates in insertion order.\<close>

definition set_add :: "'a \<Rightarrow> 'a list \<Rightarrow> 'a list" where
  "set_add x xs = (if x \<in> set xs then xs else xs @ [x])"

lemma set_set_add [simp]: "set (set_add x xs) = insert x (set xs)"
  by (auto simp: set_add_def)

section \<open>Property lookup on object literals\<close>

text \<open>
  \<open>obj[k]\<close> on an object literal finds an own property, or one \<open>Object.prototype\<close>
  provides, or nothing. Code that indexes a literal with an untrusted key and only
  tests the answer for truthiness cannot tell the first two apart.
\<close>

definition object_prototype_keys :: "string list" where
  "object_prototype_keys =
     [''constructor'', ''__defineGetter__'', ''__defineSetter__'', ''hasOwnProperty'',
      ''__lookupGetter__'', ''__lookupSetter__'', ''isPrototypeOf'',
      ''propertyIsEnumerable'', ''toString'', ''valueOf'', ''__proto__'', ''toLocaleString'']"

datatype 'a property = Own_Property 'a | Inherited_Property string | No_Property

definition obj_get :: "(string \<times> 'a) list \<Rightarrow> string \<Rightarrow> 'a property" where
  "obj_get literal k =
     (case map_of literal k of
        Some v \<Rightarrow> Own_Property v
      | None \<Rightarrow> if k \<in> set object_prototype_keys then Inherited_Property k else No_Property)"

text \<open>A call that returns, or that throws a \<open>TypeError\<close>.\<close>

datatype 'a js_call = Returns 'a | Throws_TypeError

section \<open>Keyed stores as an interface\<close>

text \<open>
  What the stores of the program (idempotency records, quota counters, operation
  records, worker jobs) rely on of the storage adapter they were given:
  \<open>getItem\<close>, \<open>setItem\<close> and \<open>removeItem\<close> behave like a finite map.
\<close>

locale keyed_store =
  fixes get :: "'s \<Rightarrow> 'k \<Rightarrow> 'v option"
    and put :: "'k \<Rightarrow> 'v \<Rightarrow> 's \<Rightarrow> 's"
    and del :: "'k \<Rightarrow> 's \<Rightarrow> 's"
    and fresh :: 's
  assumes get_fresh: "get fresh k = None"
    and get_put: "get (put k v s) k' = (if k' = k then Some v else get s k')"
    and get_del: "get (del k s) k' = (if k' = k then None else get s k')"
begin

lemma put_put_get: "get (put k v (put k w s)) k' = get (put k v s) k'"
  by (simp add: get_put)

lemma del_put_get: "get (del k (put k v s)) k' = get (del k s) k'"
  by (simp add: get_put get_del)

lemma fold_put_other: "k \<notin> set (map f xs) \<Longrightarrow> get (fold (\<lambda>x. put (f x) (g x)) xs s) k = get s k"
  by (induction xs arbitrary: s) (auto simp: get_put)

lemma fold_del_get: "get (fold del ks s) k = (if k \<in> set ks then None else get s k)"
  by (induction ks arbitrary: s) (auto simp: get_del)

end

interpretation js_store: keyed_store map_get map_set map_remove "[]"
  by unfold_locales (auto simp: map_get_set map_get_remove)

section \<open>Step systems\<close>

text \<open>
  A component with state: a total step function on events and an invariant every
  step keeps. The client lemma is that every run keeps it.
\<close>

locale step_system =
  fixes step :: "'s \<Rightarrow> 'e \<Rightarrow> 's"
    and inv :: "'s \<Rightarrow> bool"
  assumes step_keeps: "inv s \<Longrightarrow> inv (step s e)"
begin

lemma run_keeps: "inv s \<Longrightarrow> inv (foldl step s es)"
  by (induction es arbitrary: s) (auto intro: step_keeps)

end

text \<open>The same for the runs whose events all satisfy a condition.\<close>

locale guarded_system =
  fixes step :: "'s \<Rightarrow> 'e \<Rightarrow> 's"
    and allowed :: "'e \<Rightarrow> bool"
    and inv :: "'s \<Rightarrow> bool"
  assumes guarded_keeps: "inv s \<Longrightarrow> allowed e \<Longrightarrow> inv (step s e)"
begin

lemma guarded_run: "inv s \<Longrightarrow> list_all allowed es \<Longrightarrow> inv (foldl step s es)"
  by (induction es arbitrary: s) (auto intro: guarded_keeps)

end

sublocale step_system \<subseteq> unguarded: guarded_system step "\<lambda>_. True" inv
  by unfold_locales (rule step_keeps)

text \<open>
  A step system whose steps also respect a preorder between a state and its
  successors (nothing is lost, a counter never decreases, a terminal state stays).
\<close>

locale monotone_system = step_system step inv
  for step :: "'s \<Rightarrow> 'e \<Rightarrow> 's" and inv :: "'s \<Rightarrow> bool" +
  fixes leq :: "'s \<Rightarrow> 's \<Rightarrow> bool"
  assumes leq_refl: "leq s s"
    and leq_trans: "leq s t \<Longrightarrow> leq t u \<Longrightarrow> leq s u"
    and step_leq: "inv s \<Longrightarrow> leq s (step s e)"
begin

lemma run_leq: "inv s \<Longrightarrow> leq s (foldl step s es)"
proof (induction es arbitrary: s)
  case Nil
  then show ?case by (simp add: leq_refl)
next
  case (Cons e es)
  then have "leq (step s e) (foldl step (step s e) es)"
    by (simp add: step_keeps)
  with Cons.prems show ?case
    by (auto intro: leq_trans step_leq)
qed

end

section \<open>Strings and lists\<close>

definition startsWith :: "string \<Rightarrow> string \<Rightarrow> bool" where
  "startsWith s p = (take (length p) s = p)"

lemma startsWith_append [simp]: "startsWith (p @ s) p"
  by (simp add: startsWith_def)

lemma startsWith_iff: "startsWith s p \<longleftrightarrow> (\<exists>t. s = p @ t)"
  by (auto simp: startsWith_def) (metis append_take_drop_id)

definition code_of :: "char \<Rightarrow> nat" where
  "code_of c = of_char c"

definition is_digit :: "char \<Rightarrow> bool" where
  "is_digit c = (48 \<le> code_of c \<and> code_of c \<le> 57)"

definition is_lower :: "char \<Rightarrow> bool" where
  "is_lower c = (97 \<le> code_of c \<and> code_of c \<le> 122)"

definition is_upper :: "char \<Rightarrow> bool" where
  "is_upper c = (65 \<le> code_of c \<and> code_of c \<le> 90)"

text \<open>The white space \<open>String.prototype.trim\<close> and \<open>\s\<close> strip, below code unit 256.\<close>

definition is_space :: "char \<Rightarrow> bool" where
  "is_space c = (code_of c \<in> {9, 10, 11, 12, 13, 32, 160})"

definition trim :: "string \<Rightarrow> string" where
  "trim s = rev (dropWhile is_space (rev (dropWhile is_space s)))"

text \<open>\<open>xs.slice(-n)\<close> for a positive \<open>n\<close>: the last \<open>n\<close> elements.\<close>

definition slice_last :: "nat \<Rightarrow> 'a list \<Rightarrow> 'a list" where
  "slice_last n xs = drop (length xs - n) xs"

lemma length_slice_last [simp]: "length (slice_last n xs) = min n (length xs)"
  by (auto simp: slice_last_def)

lemma set_slice_last: "set (slice_last n xs) \<subseteq> set xs"
  by (simp add: slice_last_def set_drop_subset)

text \<open>Left padding, \<open>padStart(n, c)\<close>, and right padding, \<open>padEnd(n, c)\<close>.\<close>

definition padStart :: "nat \<Rightarrow> char \<Rightarrow> string \<Rightarrow> string" where
  "padStart n c s = replicate (n - length s) c @ s"

definition padEnd :: "nat \<Rightarrow> char \<Rightarrow> string \<Rightarrow> string" where
  "padEnd n c s = s @ replicate (n - length s) c"

lemma length_padStart [simp]: "length (padStart n c s) = max n (length s)"
  by (simp add: padStart_def)

lemma length_padEnd [simp]: "length (padEnd n c s) = max n (length s)"
  by (simp add: padEnd_def)

lemma find_SomeD: "find P xs = Some x \<Longrightarrow> P x \<and> x \<in> set xs"
  by (induction xs) (auto split: if_splits)

lemma find_None_all: "find P xs = None \<longleftrightarrow> (\<forall>x \<in> set xs. \<not> P x)"
  by (induction xs) auto

end
