(* ===== verification/Json.thy ===== *)
theory Json
  imports Utix_Prelude "HOL-Library.Multiset"
begin

text \<open>
  JSON-like values as trees, and their canonical text: \<open>canonicalize\<close> of
  \<open>core/idempotency/idempotency.ts\<close> and \<open>canonicalJson\<close> of \<open>core/ledger/ledger.ts\<close>.
  Numbers are integers; an object is its list of own entries in \<open>Object.entries\<close>
  order, with distinct keys (\<open>json_wf\<close>). A tree has no cycles and no sharing, so the
  cycle branch of \<open>canonicalize\<close> is never taken.
\<close>

section \<open>Values\<close>

datatype json =
    JNull
  | JBool bool
  | JNum int
  | JBig int
  | JStr string
  | JUndef
  | JArr "json list"
  | JObj "(string \<times> json) list"

fun json_wf :: "json \<Rightarrow> bool" where
  "json_wf (JArr xs) = list_all json_wf xs"
| "json_wf (JObj es) = (distinct (map fst es) \<and> list_all (\<lambda>(k, v). json_wf v) es)"
| "json_wf _ = True"

section \<open>Text of the leaves\<close>

fun digit_char :: "nat \<Rightarrow> char" where
  "digit_char n = char_of (48 + n)"

fun nat_text :: "nat \<Rightarrow> string" where
  "nat_text n = (if n < 10 then [digit_char n] else nat_text (n div 10) @ [digit_char (n mod 10)])"

declare nat_text.simps [simp del]

definition int_text :: "int \<Rightarrow> string" where
  "int_text i = (if i < 0 then ''-'' @ nat_text (nat (- i)) else nat_text (nat i))"

definition hex_char :: "nat \<Rightarrow> char" where
  "hex_char n = (if n < 10 then char_of (48 + n) else char_of (87 + n))"

text \<open>\<open>n.toString(16)\<close> for a natural number.\<close>

fun hex_text :: "nat \<Rightarrow> string" where
  "hex_text n = (if n < 16 then [hex_char n] else hex_text (n div 16) @ [hex_char (n mod 16)])"

declare hex_text.simps [simp del]

text \<open>\<open>JSON.stringify\<close> of a string: quotes, backslashes and control characters are escaped.\<close>

definition escape_char :: "char \<Rightarrow> string" where
  "escape_char c =
     (if c = CHR 0x22 then [CHR 0x5C, CHR 0x22]
      else if c = CHR 0x5C then [CHR 0x5C, CHR 0x5C]
      else if c = CHR 0x08 then [CHR 0x5C, CHR ''b'']
      else if c = CHR 0x09 then [CHR 0x5C, CHR ''t'']
      else if c = CHR 0x0A then [CHR 0x5C, CHR ''n'']
      else if c = CHR 0x0C then [CHR 0x5C, CHR ''f'']
      else if c = CHR 0x0D then [CHR 0x5C, CHR ''r'']
      else if code_of c < 32
        then [CHR 0x5C, CHR ''u'', CHR ''0'', CHR ''0'',
              hex_char (code_of c div 16), hex_char (code_of c mod 16)]
      else [c])"

definition json_quote :: "string \<Rightarrow> string" where
  "json_quote s = CHR 0x22 # concat (map escape_char s) @ [CHR 0x22]"

fun join :: "string \<Rightarrow> string list \<Rightarrow> string" where
  "join sep [] = []"
| "join sep [s] = s"
| "join sep (s # t # ts) = s @ sep @ join sep (t # ts)"

section \<open>Canonical text\<close>

definition entry_text :: "string \<times> string \<Rightarrow> string" where
  "entry_text = (\<lambda>(k, t). json_quote k @ '':'' @ t)"

definition defined :: "string \<times> json \<Rightarrow> bool" where
  "defined e = (snd e \<noteq> JUndef)"

fun canonicalize :: "json \<Rightarrow> string" where
  "canonicalize (JBig n) = int_text n @ ''n''"
| "canonicalize JNull = ''null''"
| "canonicalize (JBool b) = (if b then ''true'' else ''false'')"
| "canonicalize (JNum n) = int_text n"
| "canonicalize (JStr s) = json_quote s"
| "canonicalize JUndef = ''null''"
| "canonicalize (JArr xs) = ''['' @ join '','' (map canonicalize xs) @ '']''"
| "canonicalize (JObj es) =
     ''{'' @ join '','' (map entry_text
        (sort_key fst (map (\<lambda>(k, v). (k, canonicalize v)) (filter defined es)))) @ ''}''"

text \<open>\<open>canonicalJson\<close>; \<open>None\<close> is the \<open>TypeError\<close> \<open>JSON.stringify\<close> throws on a BigInt.\<close>

fun those :: "'a option list \<Rightarrow> 'a list option" where
  "those [] = Some []"
| "those (None # xs) = None"
| "those (Some x # xs) = map_option (Cons x) (those xs)"

fun canonicalJson :: "json \<Rightarrow> string option" where
  "canonicalJson JNull = Some ''null''"
| "canonicalJson (JBool b) = Some (if b then ''true'' else ''false'')"
| "canonicalJson (JNum n) = Some (int_text n)"
| "canonicalJson (JBig n) = None"
| "canonicalJson (JStr s) = Some (json_quote s)"
| "canonicalJson JUndef = Some ''null''"
| "canonicalJson (JArr xs) =
     map_option (\<lambda>ts. ''['' @ join '','' ts @ '']'') (those (map canonicalJson xs))"
| "canonicalJson (JObj es) =
     map_option
       (\<lambda>ts. ''{'' @ join '','' (map entry_text
          (sort_key fst (zip (map fst (filter defined es)) ts))) @ ''}'')
       (those (map (\<lambda>(k, v). canonicalJson v) (filter defined es)))"

section \<open>Storage round trip\<close>

text \<open>
  \<open>JSON.parse(JSON.stringify(v))\<close> for a value that holds no BigInt (\<open>JSON.stringify\<close>
  throws on one): entries whose value is \<open>undefined\<close> disappear, an \<open>undefined\<close>
  element of an array becomes \<open>null\<close>.
\<close>

fun json_clone :: "json \<Rightarrow> json" where
  "json_clone (JArr xs) = JArr (map (\<lambda>x. if x = JUndef then JNull else json_clone x) xs)"
| "json_clone (JObj es) = JObj (map (\<lambda>(k, v). (k, json_clone v)) (filter defined es))"
| "json_clone v = v"

section \<open>Normal form\<close>

text \<open>
  What the canonical text forgets: the order of object entries, entries whose value is
  \<open>undefined\<close>, and the difference between \<open>undefined\<close> and \<open>null\<close> elsewhere.
\<close>

fun json_norm :: "json \<Rightarrow> json" where
  "json_norm JUndef = JNull"
| "json_norm (JArr xs) = JArr (map json_norm xs)"
| "json_norm (JObj es) =
     JObj (sort_key fst (map (\<lambda>(k, v). (k, json_norm v)) (filter defined es)))"
| "json_norm JNull = JNull"
| "json_norm (JBool b) = JBool b"
| "json_norm (JNum n) = JNum n"
| "json_norm (JBig n) = JBig n"
| "json_norm (JStr s) = JStr s"

text \<open>The text of a tree as it stands, entries in the order they have.\<close>

fun plain_text :: "json \<Rightarrow> string" where
  "plain_text (JBig n) = int_text n @ ''n''"
| "plain_text JNull = ''null''"
| "plain_text (JBool b) = (if b then ''true'' else ''false'')"
| "plain_text (JNum n) = int_text n"
| "plain_text (JStr s) = json_quote s"
| "plain_text JUndef = ''null''"
| "plain_text (JArr xs) = ''['' @ join '','' (map plain_text xs) @ '']''"
| "plain_text (JObj es) =
     ''{'' @ join '','' (map (\<lambda>(k, v). json_quote k @ '':'' @ plain_text v) es) @ ''}''"

fun no_undef :: "json \<Rightarrow> bool" where
  "no_undef JUndef = False"
| "no_undef (JArr xs) = list_all no_undef xs"
| "no_undef (JObj es) = list_all (\<lambda>(k, v). no_undef v) es"
| "no_undef _ = True"

fun no_big :: "json \<Rightarrow> bool" where
  "no_big (JBig _) = False"
| "no_big (JArr xs) = list_all no_big xs"
| "no_big (JObj es) = list_all (\<lambda>(k, v). v = JUndef \<or> no_big v) es"
| "no_big _ = True"

definition json_truthy :: "json \<Rightarrow> bool" where
  "json_truthy v = (v \<notin> {JUndef, JNull, JBool False, JNum 0, JStr []})"

fun is_object :: "json \<Rightarrow> bool" where
  "is_object (JObj _) = True"
| "is_object _ = False"

text \<open>\<open>JSON.stringify\<close> of an object; \<open>None\<close> is the exception on a BigInt.\<close>

definition stringify :: "json \<Rightarrow> string option" where
  "stringify v = (if no_big v then Some (plain_text (json_clone v)) else None)"

lemma insort_key_map_values:
  "insort_key fst (k, f v) (map (\<lambda>(k, v). (k, f v)) es) =
     map (\<lambda>(k, v). (k, f v)) (insort_key fst (k, v) es)"
  by (induction es) (auto split: prod.splits)

lemma sort_key_map_values:
  "sort_key fst (map (\<lambda>(k, v). (k, f v)) es) = map (\<lambda>(k, v). (k, f v)) (sort_key fst es)"
  by (induction es) (auto simp: insort_key_map_values split: prod.splits)

lemma no_undef_norm: "no_undef (json_norm v)"
  by (induction v rule: json_norm.induct) (auto simp: list_all_iff)

lemma canonicalize_norm: "canonicalize v = plain_text (json_norm v)"
proof (induction v rule: json_norm.induct)
  case (3 es)
  have "map (\<lambda>(k, v). (k, canonicalize v)) (filter defined es) =
      map (\<lambda>(k, v). (k, plain_text (json_norm v))) (filter defined es)"
    using 3 by (auto intro!: map_cong)
  also have "\<dots> = map (\<lambda>(k, v). (k, plain_text v))
      (map (\<lambda>(k, v). (k, json_norm v)) (filter defined es))"
    by simp
  finally show ?case
    by (simp only: canonicalize.simps json_norm.simps plain_text.simps sort_key_map_values)
      (simp add: entry_text_def comp_def case_prod_beta)
qed (auto intro: arg_cong [of _ _ "join '',''"])

section \<open>Reading texts back\<close>

lemma code_of_char_of [simp]: "n < 256 \<Longrightarrow> code_of (char_of n) = n"
  by (simp add: code_of_def)

lemma char_of_code_of [simp]: "char_of (code_of c) = c"
  by (simp add: code_of_def)

lemma code_of_less: "code_of c < 256"
  using nat_of_char_less_256 [of c] by (simp add: code_of_def)

lemma code_of_inject: "code_of c = code_of d \<longleftrightarrow> c = d"
  by (simp add: code_of_def)

lemma is_digit_digit_char: "n < 10 \<Longrightarrow> is_digit (digit_char n)"
  by (simp add: is_digit_def)

lemma nat_text_digits: "c \<in> set (nat_text n) \<Longrightarrow> is_digit c"
proof (induction n rule: nat_text.induct)
  case (1 n)
  then show ?case
    by (auto simp: nat_text.simps [of n] is_digit_digit_char simp del: digit_char.simps
        split: if_splits)
qed

lemma nat_text_nonempty [simp]: "nat_text n \<noteq> []"
  by (subst nat_text.simps) simp

definition digits_value :: "string \<Rightarrow> nat" where
  "digits_value s = foldl (\<lambda>a c. 10 * a + (code_of c - 48)) 0 s"

lemma digits_value_snoc: "digits_value (s @ [c]) = 10 * digits_value s + (code_of c - 48)"
  by (simp add: digits_value_def)

lemma digits_value_nat_text [simp]: "digits_value (nat_text n) = n"
proof (induction n rule: nat_text.induct)
  case (1 n)
  show ?case
  proof (cases "n < 10")
    case True
    then show ?thesis by (simp add: nat_text.simps [of n] digits_value_def)
  next
    case False
    then have "digits_value (nat_text n) =
        10 * digits_value (nat_text (n div 10)) + (code_of (digit_char (n mod 10)) - 48)"
      by (simp add: nat_text.simps [of n] digits_value_snoc del: digit_char.simps)
    also have "\<dots> = 10 * (n div 10) + n mod 10"
      using False 1 by simp
    finally show ?thesis by simp
  qed
qed

definition starts_digit :: "string \<Rightarrow> bool" where
  "starts_digit s = (s \<noteq> [] \<and> is_digit (hd s))"

lemma takeWhile_nat_text:
  "\<not> starts_digit r \<Longrightarrow> takeWhile is_digit (nat_text n @ r) = nat_text n"
  using nat_text_digits by (cases r) (auto simp: starts_digit_def takeWhile_append2)

lemma nat_text_read:
  assumes "nat_text n @ r = nat_text m @ s" "\<not> starts_digit r" "\<not> starts_digit s"
  shows "n = m \<and> r = s"
proof -
  have "nat_text n = nat_text m"
    using takeWhile_nat_text [OF assms(2), of n] takeWhile_nat_text [OF assms(3), of m] assms(1)
    by simp
  then have "n = m" by (metis digits_value_nat_text)
  with assms(1) show ?thesis by simp
qed

lemma nat_text_hd: "is_digit (hd (nat_text n @ r))"
  by (cases "nat_text n") (use nat_text_digits [of _ n] in auto)

lemma nat_text_not_dash: "nat_text n @ r \<noteq> CHR ''-'' # s"
proof
  assume "nat_text n @ r = CHR ''-'' # s"
  then have "is_digit CHR ''-''"
    using nat_text_hd [of n r] by simp
  then show False by (simp add: is_digit_def code_of_def)
qed

lemma int_text_read:
  assumes "int_text n @ r = int_text m @ s" "\<not> starts_digit r" "\<not> starts_digit s"
  shows "n = m \<and> r = s"
proof (cases "n < 0"; cases "m < 0")
  assume neg: "n < 0" "m < 0"
  then have "nat_text (nat (- n)) @ r = nat_text (nat (- m)) @ s"
    using assms(1) by (simp add: int_text_def)
  from nat_text_read [OF this assms(2,3)] neg show ?thesis by (simp add: eq_nat_nat_iff)
next
  assume "n < 0" "\<not> m < 0"
  then show ?thesis
    using assms(1) nat_text_not_dash [of "nat m" s] by (simp add: int_text_def) metis
next
  assume "\<not> n < 0" "m < 0"
  then show ?thesis
    using assms(1) nat_text_not_dash [of "nat n" r] by (simp add: int_text_def)
next
  assume pos: "\<not> n < 0" "\<not> m < 0"
  then have "nat_text (nat n) @ r = nat_text (nat m) @ s"
    using assms(1) by (simp add: int_text_def)
  from nat_text_read [OF this assms(2,3)] pos show ?thesis by (simp add: eq_nat_nat_iff)
qed

lemma hex_char_less: "n < 16 \<Longrightarrow> code_of (hex_char n) = (if n < 10 then 48 + n else 87 + n)"
  by (simp add: hex_char_def)

definition unhex :: "char \<Rightarrow> nat" where
  "unhex c = (if code_of c < 58 then code_of c - 48 else code_of c - 87)"

lemma unhex_hex [simp]: "n < 16 \<Longrightarrow> unhex (hex_char n) = n"
  by (simp add: unhex_def hex_char_less)

definition unescape :: "string \<Rightarrow> char \<times> string" where
  "unescape s =
     (case s of
        a # c # r \<Rightarrow>
          if a \<noteq> CHR 0x5C then (a, c # r)
          else if c = CHR ''b'' then (CHR 0x08, r)
          else if c = CHR ''t'' then (CHR 0x09, r)
          else if c = CHR ''n'' then (CHR 0x0A, r)
          else if c = CHR ''f'' then (CHR 0x0C, r)
          else if c = CHR ''r'' then (CHR 0x0D, r)
          else if c = CHR ''u'' then (char_of (16 * unhex (r ! 2) + unhex (r ! 3)), drop 4 r)
          else (c, r)
      | _ \<Rightarrow> (hd s, tl s))"

lemma hex_of_code:
  assumes "code_of c < 32"
  shows "char_of (16 * unhex (hex_char (code_of c div 16)) + unhex (hex_char (code_of c mod 16))) = c"
proof -
  have "unhex (hex_char (code_of c div 16)) = code_of c div 16"
    "unhex (hex_char (code_of c mod 16)) = code_of c mod 16"
    using assms by (auto intro!: unhex_hex)
  then show ?thesis by simp
qed

lemma unescape_hex:
  "code_of c < 32 \<Longrightarrow>
     unescape (CHR 0x5C # CHR ''u'' # CHR ''0'' # CHR ''0'' # hex_char (code_of c div 16) #
       hex_char (code_of c mod 16) # r) = (c, r)"
  unfolding unescape_def using hex_of_code [of c]
  by (simp del: unhex_hex char_of_code_of)

lemma unescape_plain: "c \<noteq> CHR 0x5C \<Longrightarrow> unescape (c # r) = (c, r)"
  by (simp add: unescape_def split: list.split)

definition short_escapes :: "char list" where
  "short_escapes = [CHR 0x22, CHR 0x5C, CHR 0x08, CHR 0x09, CHR 0x0A, CHR 0x0C, CHR 0x0D]"

lemma unescape_short: "list_all (\<lambda>c. unescape (escape_char c @ r) = (c, r)) short_escapes"
  by (simp add: short_escapes_def unescape_def escape_char_def)

lemma escape_long:
  assumes "c \<notin> set short_escapes"
  shows "escape_char c =
     (if code_of c < 32
      then [CHR 0x5C, CHR ''u'', CHR ''0'', CHR ''0'',
              hex_char (code_of c div 16), hex_char (code_of c mod 16)]
      else [c])"
proof -
  have "c \<noteq> CHR 0x22" "c \<noteq> CHR 0x5C" "c \<noteq> CHR 0x08" "c \<noteq> CHR 0x09" "c \<noteq> CHR 0x0A"
    "c \<noteq> CHR 0x0C" "c \<noteq> CHR 0x0D"
    using assms unfolding short_escapes_def set_simps by blast+
  then show ?thesis unfolding escape_char_def by (simp only: if_False)
qed

lemma unescape_escape: "unescape (escape_char c @ r) = (c, r)"
proof (cases "c \<in> set short_escapes")
  case True
  then show ?thesis using unescape_short [of r] by (simp add: list_all_iff)
next
  case False
  then have "c \<noteq> CHR 0x5C" by (auto simp: short_escapes_def)
  with False show ?thesis by (simp add: escape_long unescape_hex unescape_plain)
qed

lemma escape_char_head: "hd (escape_char c @ r) \<noteq> CHR 0x22"
  by (auto simp: escape_char_def)

lemma escape_char_nonempty [simp]: "escape_char c \<noteq> []"
  by (auto simp: escape_char_def)

lemma escaped_read:
  "concat (map escape_char s) @ CHR 0x22 # r = concat (map escape_char t) @ CHR 0x22 # q \<Longrightarrow>
     s = t \<and> r = q"
proof (induction s arbitrary: t)
  case Nil
  then show ?case
    by (cases t) (simp_all, metis escape_char_head list.sel(1))
next
  case (Cons c s)
  show ?case
  proof (cases t)
    case Nil
    then show ?thesis
      using Cons.prems escape_char_head [of c "concat (map escape_char s) @ CHR 0x22 # r"] by simp
  next
    case t: (Cons d u)
    have eq: "escape_char c @ concat (map escape_char s) @ CHR 0x22 # r =
        escape_char d @ concat (map escape_char u) @ CHR 0x22 # q"
      using Cons.prems t by simp
    then have "c = d" "concat (map escape_char s) @ CHR 0x22 # r =
        concat (map escape_char u) @ CHR 0x22 # q"
      by (metis unescape_escape prod.inject)+
    with Cons.IH t show ?thesis by blast
  qed
qed

lemma json_quote_read: "json_quote s @ r = json_quote t @ q \<Longrightarrow> s = t \<and> r = q"
  using escaped_read [of s r t q] by (simp add: json_quote_def)

text \<open>A text is followed by nothing or by one of the closing characters.\<close>

definition closes :: "string \<Rightarrow> bool" where
  "closes r = (r = [] \<or> hd r \<in> {CHR '','', CHR '']'', CHR ''}''})"

lemma closes_simps [simp]:
  "closes []" "closes (CHR '','' # r)" "closes (CHR '']'' # r)" "closes (CHR ''}'' # r)"
  "\<not> closes (CHR ''n'' # r)"
  by (simp_all add: closes_def)

lemma closes_not_digit: "closes r \<Longrightarrow> \<not> starts_digit r"
  by (auto simp: closes_def starts_digit_def is_digit_def code_of_def)

text \<open>The texts of a list are read back when the text of each element is.\<close>

definition reads :: "('a \<Rightarrow> string) \<Rightarrow> 'a \<Rightarrow> 'a \<Rightarrow> bool" where
  "reads f x y = (\<forall>r s. f x @ r = f y @ s \<longrightarrow> closes r \<longrightarrow> closes s \<longrightarrow> x = y \<and> r = s)"

lemma readsD: "reads f x y \<Longrightarrow> f x @ r = f y @ s \<Longrightarrow> closes r \<Longrightarrow> closes s \<Longrightarrow> x = y \<and> r = s"
  by (simp add: reads_def)

lemma join_Cons: "join sep (s # ts) = s @ (if ts = [] then [] else sep @ join sep ts)"
  by (cases ts) auto

lemma join_reads:
  assumes c: "c \<in> {CHR '']'', CHR ''}''}"
    and start: "\<And>x. \<not> closes (f x)"
  shows "join '','' (map f xs) @ c # r = join '','' (map f ys) @ c # s \<Longrightarrow>
    \<forall>x \<in> set xs. \<forall>y \<in> set ys. reads f x y \<Longrightarrow> xs = ys \<and> r = s"
proof (induction xs arbitrary: ys)
  case Nil
  show ?case
  proof (cases ys)
    case (Cons y ys')
    then show ?thesis
      using Nil start [of y] c by (cases "f y") (auto simp: join_Cons closes_def)
  qed (use Nil in simp)
next
  case (Cons x xs)
  show ?case
  proof (cases ys)
    case Nil
    then show ?thesis
      using Cons.prems(1) start [of x] c by (cases "f x") (auto simp: join_Cons closes_def)
  next
    case ys: (Cons y ys')
    let ?rest = "\<lambda>zs r. (if zs = [] then [] else '','' @ join '','' (map f zs)) @ c # r"
    have "f x @ ?rest xs r = f y @ ?rest ys' s"
      using Cons.prems(1) ys by (simp add: join_Cons)
    moreover have "closes (?rest zs q)" for zs q
      using c by auto
    moreover have "reads f x y" using Cons.prems(2) ys by simp
    ultimately have xy: "x = y" "?rest xs r = ?rest ys' s"
      by (metis (no_types, lifting) readsD)+
    have comma: "c \<noteq> CHR '',''" using c by auto
    show ?thesis
    proof (cases "xs = []")
      case True
      then show ?thesis using xy ys comma by (auto split: if_splits)
    next
      case False
      then have "ys' \<noteq> []" using xy comma by (auto split: if_splits)
      with False xy have "join '','' (map f xs) @ c # r = join '','' (map f ys') @ c # s" by simp
      with Cons.IH Cons.prems(2) ys xy(1) show ?thesis by auto
    qed
  qed
qed

section \<open>Unique readability\<close>

text \<open>The first character of a text gives the kind of the tree.\<close>

fun json_kind :: "json \<Rightarrow> nat" where
  "json_kind JNull = 0"
| "json_kind (JBool b) = (if b then 1 else 2)"
| "json_kind (JNum _) = 3"
| "json_kind (JBig _) = 3"
| "json_kind (JStr _) = 4"
| "json_kind (JArr _) = 5"
| "json_kind (JObj _) = 6"
| "json_kind JUndef = 0"

definition char_kind :: "char \<Rightarrow> nat" where
  "char_kind c =
     (if c = CHR ''n'' then 0 else if c = CHR ''t'' then 1 else if c = CHR ''f'' then 2
      else if c = CHR 0x22 then 4 else if c = CHR ''['' then 5
      else if c = CHR ''{'' then 6 else 3)"

lemma digit_kind: "is_digit c \<Longrightarrow> char_kind c = 3"
  by (auto simp: char_kind_def is_digit_def code_of_def)

lemma int_text_kind: "char_kind (hd (int_text n @ r)) = 3"
  using nat_text_hd [of "nat n" "[]"]
  by (auto simp: int_text_def digit_kind) (simp add: char_kind_def)

lemma kind_of_text: "char_kind (hd (plain_text v @ r)) = json_kind v"
  by (cases v) (auto simp: int_text_kind json_quote_def, auto simp: char_kind_def)

lemma plain_text_opens: "\<not> closes (plain_text v)"
proof
  assume "closes (plain_text v)"
  moreover have "plain_text v \<noteq> []"
    by (cases v) (auto simp: int_text_def json_quote_def)
  moreover have "json_kind v = char_kind (hd (plain_text v))"
    using kind_of_text [of v "[]"] by simp
  ultimately have "json_kind v = 3"
    by (auto simp: closes_def char_kind_def)
  then obtain n t where "plain_text v = int_text n @ t"
    by (cases v) (auto split: if_splits)
  moreover have "\<not> closes (int_text n @ t)" for n t
    using nat_text_hd [of "nat n" t] closes_not_digit [of "nat_text (nat n) @ t"]
    by (auto simp: int_text_def starts_digit_def) (simp add: closes_def)
  ultimately show False using \<open>closes (plain_text v)\<close> by simp
qed

lemma number_reads:
  assumes "json_kind v = 3" "json_kind w = 3"
    "plain_text v @ r = plain_text w @ s" "closes r" "closes s"
  shows "v = w \<and> r = s"
proof -
  have n: "\<not> starts_digit (CHR ''n'' # t)" for t
    by (simp add: starts_digit_def is_digit_def code_of_def)
  show ?thesis
    using assms int_text_read [of _ r _ s] int_text_read [of _ "CHR ''n'' # r" _ s]
      int_text_read [of _ r _ "CHR ''n'' # s"] int_text_read [of _ "CHR ''n'' # r" _ "CHR ''n'' # s"]
      closes_not_digit [of r] closes_not_digit [of s] n
    by (cases v; cases w) (auto split: if_splits, (metis closes_simps(5))+)
qed

lemma same_kind: "plain_text v @ r = plain_text w @ s \<Longrightarrow> json_kind v = json_kind w"
  by (metis kind_of_text)

definition plain_entry :: "string \<times> json \<Rightarrow> string" where
  "plain_entry = (\<lambda>(k, v). json_quote k @ '':'' @ plain_text v)"

lemma plain_entry_opens: "\<not> closes (plain_entry e)"
  by (cases e) (simp add: plain_entry_def json_quote_def closes_def)

lemma plain_entry_reads: "reads plain_text v w \<Longrightarrow> reads plain_entry (k, v) (l, w)"
  by (auto simp: reads_def plain_entry_def dest!: json_quote_read)

lemma array_reads:
  assumes "plain_text (JArr xs) @ r = plain_text (JArr ys) @ s"
    and "\<And>x y. x \<in> set xs \<Longrightarrow> y \<in> set ys \<Longrightarrow> reads plain_text x y"
  shows "xs = ys \<and> r = s"
  using assms by (intro join_reads [where c = "CHR '']''" and f = plain_text])
    (auto simp: plain_text_opens)

lemma plain_text_obj: "plain_text (JObj es) = ''{'' @ join '','' (map plain_entry es) @ ''}''"
  by (simp add: plain_entry_def)

lemma object_reads:
  assumes "plain_text (JObj xs) @ r = plain_text (JObj ys) @ s"
    and "\<And>k v l w. (k, v) \<in> set xs \<Longrightarrow> (l, w) \<in> set ys \<Longrightarrow> reads plain_text v w"
  shows "xs = ys \<and> r = s"
  using assms unfolding plain_text_obj
  by (intro join_reads [where c = "CHR ''}''" and f = plain_entry])
    (auto simp: plain_entry_opens intro: plain_entry_reads)

lemma constant_kind:
  assumes "json_kind v \<le> 2" "no_undef v" "no_undef w" "json_kind v = json_kind w"
  shows "v = w"
proof -
  have c: "v = JNull \<and> json_kind v = 0 \<or> v = JBool True \<and> json_kind v = 1 \<or>
      v = JBool False \<and> json_kind v = 2"
    if "json_kind v \<le> 2" "no_undef v" for v
    using that by (cases v) simp_all
  from c [of v] c [of w] assms show ?thesis by auto
qed

lemma string_kind: "json_kind v = 4 \<Longrightarrow> \<exists>t. v = JStr t"
  by (cases v) (simp_all split: if_splits)

lemma leaf_reads:
  assumes "json_kind v \<le> 4" "no_undef v" "no_undef w"
  shows "reads plain_text v w"
  unfolding reads_def
proof (intro allI impI)
  fix r s assume eq: "plain_text v @ r = plain_text w @ s" and closed: "closes r" "closes s"
  note kinds = same_kind [OF eq]
  consider "json_kind v \<le> 2" | "json_kind v = 3" | "json_kind v = 4"
    using assms(1) by linarith
  then show "v = w \<and> r = s"
  proof cases
    case 1
    with constant_kind [OF _ assms(2,3)] kinds have "v = w" by simp
    with eq show ?thesis by simp
  next
    case 2
    then show ?thesis using number_reads [OF _ _ eq closed] kinds by simp
  next
    case 3
    with kinds obtain t u where "v = JStr t" "w = JStr u" by (metis string_kind)
    with eq show ?thesis using json_quote_read [of t r u s] by simp
  qed
qed

lemma plain_text_reads: "no_undef v \<Longrightarrow> no_undef w \<Longrightarrow> reads plain_text v w"
proof (induction v arbitrary: w rule: plain_text.induct)
  case (7 xs)
  show ?case unfolding reads_def
  proof (intro allI impI)
    fix r s assume eq: "plain_text (JArr xs) @ r = plain_text w @ s"
    from same_kind [OF eq] obtain ys where w: "w = JArr ys" by (cases w) (auto split: if_splits)
    have "reads plain_text x y" if "x \<in> set xs" "y \<in> set ys" for x y
      using 7 that w by (auto simp: list_all_iff)
    from array_reads [OF eq [unfolded w] this] show "JArr xs = w \<and> r = s" using w by simp
  qed
next
  case (8 es)
  show ?case unfolding reads_def
  proof (intro allI impI)
    fix r s assume eq: "plain_text (JObj es) @ r = plain_text w @ s"
    from same_kind [OF eq] obtain fs where w: "w = JObj fs" by (cases w) (auto split: if_splits)
    have "reads plain_text u v" if "(k, u) \<in> set es" "(l, v) \<in> set fs" for k u l v
      using 8 that w by (fastforce simp: list_all_iff)
    from object_reads [OF eq [unfolded w] this] show "JObj es = w \<and> r = s" using w by simp
  qed
qed (simp_all add: leaf_reads)

lemma canonicalize_inj: "canonicalize v = canonicalize w \<Longrightarrow> json_norm v = json_norm w"
  using readsD [OF plain_text_reads [OF no_undef_norm no_undef_norm], of v "[]" w "[]"]
  by (simp add: canonicalize_norm)

text \<open>
  C25. Two JSON trees have the same canonical text exactly when they have the same
  normal form: equal up to the order of object entries, entries whose value is
  \<open>undefined\<close>, and \<open>undefined\<close> read as \<open>null\<close>. No two different requests are
  conflated by their canonical text, whatever quotes, separators or digits their
  strings hold.
\<close>

theorem canonicalize_eq_iff: "canonicalize v = canonicalize w \<longleftrightarrow> json_norm v = json_norm w"
  using canonicalize_inj [of v w] by (auto simp: canonicalize_norm)

lemma json_norm_reorder:
  assumes "distinct (map fst es)" "mset es = mset fs"
  shows "json_norm (JObj es) = json_norm (JObj fs)"
proof -
  let ?n = "\<lambda>es. map (\<lambda>(k, v). (k, json_norm v)) (filter defined es)"
  have "mset (?n es) = mset (?n fs)"
    using assms(2) by (simp add: mset_map mset_filter)
  moreover have "distinct (map fst (?n es))"
    using assms(1) by (simp add: comp_def case_prod_beta distinct_map_filter)
  then have "inj_on fst (set (?n es))" by (simp only: distinct_map)
  ultimately have "sort_key fst (?n es) = sort_key fst (?n fs)"
    by (intro sort_key_inj_key_eq) simp_all
  then show ?thesis by simp
qed

lemma those_guarded:
  "(\<And>x. x \<in> set xs \<Longrightarrow> f x = (if P x then Some (g x) else None)) \<Longrightarrow>
     those (map f xs) = (if list_all P xs then Some (map g xs) else None)"
  by (induction xs) auto

lemma no_big_object: "no_big (JObj es) = list_all (\<lambda>(k, v). no_big v) (filter defined es)"
  by (auto simp: list_all_iff defined_def)

lemma zip_fst_map: "zip (map fst es) (map (\<lambda>(k, v). f v) es) = map (\<lambda>(k, v). (k, f v)) es"
  by (induction es) auto

lemma canonicalJson_guarded:
  "canonicalJson v = (if no_big v then Some (canonicalize v) else None)"
proof (induction v rule: canonicalJson.induct)
  case (7 xs)
  then show ?case using those_guarded [of xs canonicalJson no_big canonicalize] by simp
next
  case (8 es)
  have "those (map (\<lambda>(k, v). canonicalJson v) (filter defined es)) =
      (if list_all (\<lambda>(k, v). no_big v) (filter defined es)
       then Some (map (\<lambda>(k, v). canonicalize v) (filter defined es)) else None)"
    using 8 by (intro those_guarded) auto
  then show ?case
    by (simp del: no_big.simps add: no_big_object zip_fst_map)
qed auto

text \<open>
  The two canonical printers agree: \<open>canonicalJson\<close> of the ledger returns exactly
  the text \<open>canonicalize\<close> of the idempotency store returns, unless the value holds a
  BigInt, where it throws.
\<close>

lemma canonicalJson_iff: "canonicalJson v = Some t \<longleftrightarrow> no_big v \<and> t = canonicalize v"
  by (auto simp: canonicalJson_guarded)

end
