(* ===== verification/Iso_Time.thy ===== *)
theory Iso_Time
  imports Json
begin

text \<open>
  \<open>new Date(ms).toISOString()\<close>: the text of an instant given in milliseconds since the
  epoch, by the proleptic Gregorian calendar. Years outside 0 to 9999 print with a
  sign and six digits, as ECMAScript does. An instant is a mathematical integer; the
  range check of \<open>Date\<close> (\<open>8.64e15\<close> milliseconds) is a predicate.
\<close>

text \<open>Days since the epoch to year, month and day, by cycles of 400 years.\<close>

definition civil_of_days :: "int \<Rightarrow> int \<times> int \<times> int" where
  "civil_of_days z =
     (let z' = z + 719468;
          era = z' div 146097;
          doe = z' mod 146097;
          yoe = (doe - doe div 1460 + doe div 36524 - doe div 146096) div 365;
          doy = doe - (365 * yoe + yoe div 4 - yoe div 100);
          mp = (5 * doy + 2) div 153;
          d = doy - (153 * mp + 2) div 5 + 1;
          m = (if mp < 10 then mp + 3 else mp - 9);
          y = yoe + era * 400 + (if m \<le> 2 then 1 else 0)
      in (y, m, d))"

definition digits :: "nat \<Rightarrow> int \<Rightarrow> string" where
  "digits n i = padStart n CHR ''0'' (nat_text (nat i))"

definition year_text :: "int \<Rightarrow> string" where
  "year_text y =
     (if 0 \<le> y \<and> y \<le> 9999 then digits 4 y
      else if y < 0 then ''-'' @ digits 6 (- y) else ''+'' @ digits 6 y)"

definition toISOString :: "int \<Rightarrow> string" where
  "toISOString t =
     (let days = t div 86400000; ms = t mod 86400000; (y, m, d) = civil_of_days days
      in year_text y @ ''-'' @ digits 2 m @ ''-'' @ digits 2 d @ ''T'' @
         digits 2 (ms div 3600000) @ '':'' @ digits 2 (ms div 60000 mod 60) @ '':'' @
         digits 2 (ms div 1000 mod 60) @ ''.'' @ digits 3 (ms mod 1000) @ ''Z'')"

definition valid_date :: "int \<Rightarrow> bool" where
  "valid_date t = (\<bar>t\<bar> \<le> 8640000000000000)"

lemma toISOString_epoch: "toISOString 0 = ''1970-01-01T00:00:00.000Z''"
  by code_simp

lemma toISOString_leap_day: "toISOString 1709210096789 = ''2024-02-29T12:34:56.789Z''"
  by code_simp

end
