(* ===== verification/Amounts.thy ===== *)
theory Amounts
  imports Iso_Time "HOL-Library.Word"
begin

text \<open>
  \<open>core/format/amount.ts\<close>: reading and writing Stellar amounts. An amount is a number of
  stroops, ten million to the unit, kept as an unbounded integer (\<open>BigInt\<close>). The number
  formats of \<open>Intl\<close> are data of the runtime: the calls the module makes are the fields of
  \<open>intl\<close>.
\<close>

section \<open>Reading\<close>

definition AMOUNT_DECIMALS :: nat where
  "AMOUNT_DECIMALS = 7"

definition STROOPS_PER_UNIT :: int where
  "STROOPS_PER_UNIT = 10000000"

definition INT64_MAX :: int where
  "INT64_MAX = 9223372036854775807"

definition INT64_MIN :: int where
  "INT64_MIN = - 9223372036854775808"

text \<open>\<open>CANONICAL_AMOUNT\<close>: sign, whole digits and fraction digits; no fraction is an empty one.\<close>

definition canonical_amount :: "string \<Rightarrow> (bool \<times> string \<times> string) option" where
  "canonical_amount s =
     (let sign = (s \<noteq> [] \<and> hd s = CHR ''-'');
          r = (if sign then tl s else s);
          whole = takeWhile is_digit r
      in if whole = [] then None
         else case dropWhile is_digit r of
           [] \<Rightarrow> Some (sign, whole, [])
         | c # fraction \<Rightarrow>
             if c = CHR ''.'' \<and> fraction \<noteq> [] \<and> list_all is_digit fraction then Some (sign, whole, fraction) else None)"

text \<open>The grouping characters below code 256.\<close>

definition grouping_character :: "char \<Rightarrow> bool" where
  "grouping_character c = (c = CHR '','' \<or> c = CHR 0x27 \<or> c = CHR ''_'' \<or> is_space c)"

datatype amount_error =
    Amount_Empty | Grouping_Separator | Invalid_Format | Too_Many_Decimals | Amount_Negative | Out_Of_Range

definition magnitude_of :: "string \<Rightarrow> string \<Rightarrow> int" where
  "magnitude_of whole fraction =
     int (digits_value whole) * STROOPS_PER_UNIT + int (digits_value (padEnd AMOUNT_DECIMALS CHR ''0'' fraction))"

definition parseAmount :: "bool \<Rightarrow> string \<Rightarrow> (int, amount_error) result" where
  "parseAmount allowNegative raw =
     (let value = trim raw in
      if value = [] then Err Amount_Empty
      else if list_ex grouping_character value then Err Grouping_Separator
      else case canonical_amount value of
        None \<Rightarrow> Err Invalid_Format
      | Some (sign, whole, fraction) \<Rightarrow>
          if length fraction > AMOUNT_DECIMALS then Err Too_Many_Decimals
          else if sign \<and> \<not> allowNegative then Err Amount_Negative
          else
            let magnitude = magnitude_of whole fraction;
                stroops = (if sign then - magnitude else magnitude)
            in if stroops > INT64_MAX \<or> stroops < INT64_MIN then Err Out_Of_Range else Ok stroops)"

definition amountToStroops :: "string \<Rightarrow> int option" where
  "amountToStroops value =
     (case canonical_amount value of
        None \<Rightarrow> None
      | Some (sign, whole, fraction) \<Rightarrow>
          if length fraction > AMOUNT_DECIMALS then None
          else let magnitude = magnitude_of whole fraction in Some (if sign then - magnitude else magnitude))"

section \<open>Writing\<close>

definition fraction_text :: "int \<Rightarrow> string" where
  "fraction_text magnitude = padStart AMOUNT_DECIMALS CHR ''0'' (int_text (magnitude mod STROOPS_PER_UNIT))"

definition stroopsToAmount :: "int \<Rightarrow> string" where
  "stroopsToAmount stroops =
     (let magnitude = (if stroops < 0 then - stroops else stroops) in
      (if stroops < 0 then ''-'' else []) @ int_text (magnitude div STROOPS_PER_UNIT) @ ''.'' @ fraction_text magnitude)"

text \<open>The locales argument, and what \<open>Intl\<close> answers for a canonical list or the default.\<close>

datatype locales = Locale_Default | Locale_Tag string | Locale_List "string list"

datatype part_type = Part_Integer | Part_Decimal | Part_Fraction | Part_Other

record intl =
  getCanonicalLocales :: "locales \<Rightarrow> string list option"
  intl_integer :: "string list option \<Rightarrow> int \<Rightarrow> string"
  minus_one_parts :: "string list option \<Rightarrow> (part_type \<times> string) list"

record locale_symbols =
  ls_integer :: "int \<Rightarrow> string"
  ls_decimal :: string
  ls_digits :: "string list"
  ls_negativePrefix :: string
  ls_negativeSuffix :: string

text \<open>\<open>None\<close> is \<open>undefined\<close>; a malformed tag makes \<open>Intl\<close> throw and is dropped.\<close>

definition safeLocales :: "intl \<Rightarrow> locales \<Rightarrow> string list option" where
  "safeLocales env l = (if l = Locale_Default then None else getCanonicalLocales env l)"

definition cache_key :: "locales \<Rightarrow> string" where
  "cache_key l = (case l of Locale_Default \<Rightarrow> [] | Locale_Tag t \<Rightarrow> t | Locale_List ts \<Rightarrow> join '','' ts)"

text \<open>\<open>slice(0, -1)\<close> when there is no integer part, \<open>slice(0)\<close> when there is no fraction.\<close>

definition build_symbols :: "intl \<Rightarrow> locales \<Rightarrow> locale_symbols" where
  "build_symbols env l =
     (let requested = safeLocales env l;
          parts = minus_one_parts env requested;
          before = (if Part_Integer \<in> set (map fst parts)
            then takeWhile (\<lambda>(t, _). t \<noteq> Part_Integer) parts else butlast parts);
          after = (if Part_Fraction \<in> set (map fst parts)
            then tl (dropWhile (\<lambda>(t, _). t \<noteq> Part_Fraction) parts) else parts)
      in \<lparr>ls_integer = intl_integer env requested,
          ls_decimal = (case map_of parts Part_Decimal of Some d \<Rightarrow> d | None \<Rightarrow> ''.''),
          ls_digits = map (\<lambda>d. intl_integer env requested (int d)) [0..<10],
          ls_negativePrefix = concat (map snd before), ls_negativeSuffix = concat (map snd after)\<rparr>)"

type_synonym symbols_cache = "(string, locale_symbols) js_map"

definition localeSymbols :: "intl \<Rightarrow> symbols_cache \<Rightarrow> locales \<Rightarrow> locale_symbols \<times> symbols_cache" where
  "localeSymbols env cache l =
     (case map_get cache (cache_key l) of
        Some symbols \<Rightarrow> (symbols, cache)
      | None \<Rightarrow> let symbols = build_symbols env l in (symbols, map_set (cache_key l) symbols cache))"

definition trim_zeros :: "string \<Rightarrow> string" where
  "trim_zeros s = rev (dropWhile (\<lambda>c. c = CHR ''0'') (rev s))"

definition render_amount :: "locale_symbols \<Rightarrow> bool \<Rightarrow> bool \<Rightarrow> int \<Rightarrow> string" where
  "render_amount symbols trimZeros plusSign stroops =
     (let magnitude = (if stroops < 0 then - stroops else stroops);
          fraction = (if trimZeros then trim_zeros (fraction_text magnitude) else fraction_text magnitude);
          localized = concat (map (\<lambda>c. ls_digits symbols ! (code_of c - 48)) fraction);
          body = ls_integer symbols (magnitude div STROOPS_PER_UNIT) @
            (if localized = [] then [] else ls_decimal symbols @ localized)
      in if stroops < 0 then ls_negativePrefix symbols @ body @ ls_negativeSuffix symbols
         else if plusSign \<and> stroops > 0 then ''+'' @ body else body)"

datatype amount_value = Amount_Text string | Amount_Stroops int

definition formatAmount ::
  "intl \<Rightarrow> symbols_cache \<Rightarrow> locales \<Rightarrow> bool \<Rightarrow> bool \<Rightarrow> amount_value \<Rightarrow> string \<times> symbols_cache" where
  "formatAmount env cache l trimZeros plusSign value =
     (case (case value of Amount_Stroops n \<Rightarrow> Some n | Amount_Text s \<Rightarrow> amountToStroops s) of
        None \<Rightarrow> (case value of Amount_Text s \<Rightarrow> s | Amount_Stroops _ \<Rightarrow> [], cache)
      | Some stroops \<Rightarrow>
          let (symbols, cache') = localeSymbols env cache l in
          (render_amount symbols trimZeros plusSign stroops, cache'))"

definition formatInteger :: "intl \<Rightarrow> symbols_cache \<Rightarrow> locales \<Rightarrow> int \<Rightarrow> string \<times> symbols_cache" where
  "formatInteger env cache l value =
     (let (symbols, cache') = localeSymbols env cache l in (ls_integer symbols value, cache'))"

section \<open>Digits\<close>

lemma digits_value_append: "digits_value (s @ t) = digits_value s * 10 ^ length t + digits_value t"
  by (induction t rule: rev_induct)
    (simp_all add: digits_value_snoc [of "_ @ _", simplified] digits_value_snoc digits_value_def [of "[]"] algebra_simps)

lemma digits_value_zeros [simp]: "digits_value (replicate n CHR ''0'') = 0"
  by (induction n) (simp_all add: digits_value_append [of "[_]", simplified] digits_value_def code_of_def)

lemma digits_value_padEnd:
  "length s \<le> n \<Longrightarrow> digits_value (padEnd n CHR ''0'' s) = digits_value s * 10 ^ (n - length s)"
  by (simp add: padEnd_def digits_value_append)

lemma digits_value_padStart [simp]: "digits_value (padStart n CHR ''0'' s) = digits_value s"
  by (simp add: padStart_def digits_value_append)

lemma digit_not: "is_digit c \<Longrightarrow> c \<noteq> CHR ''-'' \<and> c \<noteq> CHR ''.'' \<and> c \<noteq> CHR ''+'' \<and> \<not> grouping_character c"
  by (auto simp: is_digit_def code_of_def grouping_character_def is_space_def)

lemma canonical_written:
  assumes "whole \<noteq> []" "list_all is_digit whole" "list_all is_digit fraction"
  shows "canonical_amount ((if sign then ''-'' else []) @ whole @ (if fraction = [] then [] else ''.'' @ fraction)) =
    Some (sign, whole, fraction)"
proof -
  let ?rest = "if fraction = [] then [] else ''.'' @ fraction"
  have d: "\<And>c. c \<in> set whole \<Longrightarrow> is_digit c" using assms(2) by (simp add: list_all_iff)
  have "\<not> is_digit CHR ''.''" by (simp add: is_digit_def code_of_def)
  then have split: "takeWhile is_digit (whole @ ?rest) = whole" "dropWhile is_digit (whole @ ?rest) = ?rest"
    using d by (simp_all add: takeWhile_append2 dropWhile_append2)
  have "hd (whole @ ?rest) \<noteq> CHR ''-''" using assms(1) d digit_not by (cases whole) auto
  then show ?thesis
    using assms(1,3) split by (cases sign) (auto simp: canonical_amount_def Let_def)
qed

lemma nat_text_all_digits [simp]: "list_all is_digit (nat_text n)"
  using nat_text_digits by (simp add: list_all_iff)

lemma nat_text_len: "n < 10 ^ k \<Longrightarrow> 0 < k \<Longrightarrow> length (nat_text n) \<le> k"
proof (induction k arbitrary: n)
  case (Suc k)
  show ?case
  proof (cases "n < 10")
    case True
    then show ?thesis by (simp add: nat_text.simps [of n])
  next
    case False
    then have "k \<noteq> 0" using Suc.prems by (cases k) simp_all
    moreover have "n div 10 < 10 ^ k" using Suc.prems(1) by (simp add: div_less_iff_less_mult mult.commute)
    ultimately show ?thesis using Suc.IH [of "n div 10"] False by (simp add: nat_text.simps [of n])
  qed
qed simp

lemma fraction_written:
  "list_all is_digit (fraction_text m)" "length (fraction_text m) = AMOUNT_DECIMALS"
  "int (digits_value (fraction_text m)) = m mod STROOPS_PER_UNIT"
proof -
  have m: "0 \<le> m mod STROOPS_PER_UNIT" "m mod STROOPS_PER_UNIT < STROOPS_PER_UNIT" by (simp_all add: STROOPS_PER_UNIT_def)
  then have t: "int_text (m mod STROOPS_PER_UNIT) = nat_text (nat (m mod STROOPS_PER_UNIT))" by (simp add: int_text_def)
  have "nat (m mod STROOPS_PER_UNIT) < 10 ^ 7" using m by (simp add: STROOPS_PER_UNIT_def nat_less_iff)
  then have "length (nat_text (nat (m mod STROOPS_PER_UNIT))) \<le> 7" by (intro nat_text_len) simp_all
  then show "length (fraction_text m) = AMOUNT_DECIMALS" by (simp add: fraction_text_def t padStart_def AMOUNT_DECIMALS_def)
  show "list_all is_digit (fraction_text m)"
    by (simp add: fraction_text_def t padStart_def list_all_append list_all_iff [of _ "replicate _ _"] is_digit_def code_of_def)
  show "int (digits_value (fraction_text m)) = m mod STROOPS_PER_UNIT"
    using m by (simp add: fraction_text_def t)
qed

text \<open>A whole part and leading digits of a full fraction, zeros apart, read as the magnitude.\<close>

lemma magnitude_read:
  assumes "0 \<le> m" "fraction_text m = fraction @ replicate k CHR ''0''"
  shows "magnitude_of (int_text (m div STROOPS_PER_UNIT)) fraction = m"
proof -
  have len: "length fraction + k = AMOUNT_DECIMALS" using fraction_written(2) [of m] assms(2) by simp
  then have "padEnd AMOUNT_DECIMALS CHR ''0'' fraction = fraction_text m" by (simp add: padEnd_def assms(2) flip: len)
  moreover have "0 \<le> m div STROOPS_PER_UNIT" using assms(1) by (simp add: STROOPS_PER_UNIT_def)
  ultimately show ?thesis
    by (simp add: magnitude_of_def fraction_written(3) int_text_def)
qed

lemma written_read:
  assumes "0 \<le> m" "fraction_text m = fraction @ replicate k CHR ''0''"
  shows "amountToStroops ((if sign then ''-'' else []) @ int_text (m div STROOPS_PER_UNIT) @
    (if fraction = [] then [] else ''.'' @ fraction)) = Some (if sign then - m else m)"
proof -
  have "0 \<le> m div STROOPS_PER_UNIT" using assms(1) by (simp add: STROOPS_PER_UNIT_def)
  then have w: "int_text (m div STROOPS_PER_UNIT) \<noteq> []" "list_all is_digit (int_text (m div STROOPS_PER_UNIT))"
    by (simp_all add: int_text_def)
  have f: "list_all is_digit fraction" "length fraction \<le> AMOUNT_DECIMALS"
    using fraction_written(1,2) [of m] assms(2) by simp_all
  from canonical_written [OF w f(1), of sign] f(2) magnitude_read [OF assms]
  show ?thesis by (simp add: amountToStroops_def Let_def)
qed

lemma trim_zeros_split: "\<exists>k. s = trim_zeros s @ replicate k CHR ''0''"
proof (induction s rule: rev_induct)
  case Nil
  then show ?case by (simp add: trim_zeros_def)
next
  case (snoc c s)
  then obtain k where k: "s = trim_zeros s @ replicate k CHR ''0''" by blast
  show ?case
  proof (cases "c = CHR ''0''")
    case True
    then have "trim_zeros (s @ [c]) = trim_zeros s" by (simp add: trim_zeros_def)
    moreover have "s @ [c] = trim_zeros s @ replicate (Suc k) CHR ''0''"
      using True k by (metis append_assoc replicate_append_same replicate_Suc)
    ultimately show ?thesis by metis
  next
    case False
    then have "trim_zeros (s @ [c]) = s @ [c]" by (simp add: trim_zeros_def)
    then show ?thesis by (intro exI [of _ 0]) simp
  qed
qed

lemma trim_id: "\<not> list_ex is_space s \<Longrightarrow> trim s = s"
proof -
  assume a: "\<not> list_ex is_space s"
  have "dropWhile is_space t = t" if "set t \<subseteq> set s" for t
    using a that by (cases t) (auto simp: list_ex_iff)
  then show ?thesis by (simp add: trim_def)
qed

section \<open>Properties\<close>

text \<open>
  C29. Amounts round trip: the canonical text of any number of stroops reads back as that
  number, and the parser for user input accepts it exactly when it fits in 64 bits.
\<close>

theorem amount_round_trip:
  "amountToStroops (stroopsToAmount n) = Some n \<and>
   (parseAmount True (stroopsToAmount n) = Ok n \<longleftrightarrow> INT64_MIN \<le> n \<and> n \<le> INT64_MAX)"
proof -
  let ?m = "if n < 0 then - n else n"
  have written: "stroopsToAmount n = (if n < 0 then ''-'' else []) @ int_text (?m div STROOPS_PER_UNIT) @
      (if fraction_text ?m = [] then [] else ''.'' @ fraction_text ?m)"
    using fraction_written(2) [of ?m] by (auto simp: stroopsToAmount_def Let_def AMOUNT_DECIMALS_def)
  have "amountToStroops (stroopsToAmount n) = Some (if n < 0 then - ?m else ?m)"
    unfolding written using written_read [of ?m "fraction_text ?m" 0 "n < 0"] by simp
  then have read: "amountToStroops (stroopsToAmount n) = Some n" by (simp split: if_splits)
  have chars: "list_all (\<lambda>c. is_digit c \<or> c = CHR ''-'' \<or> c = CHR ''.'') (stroopsToAmount n)"
  proof -
    have "0 \<le> ?m div STROOPS_PER_UNIT" by (simp add: STROOPS_PER_UNIT_def pos_imp_zdiv_nonneg_iff)
    then have "list_all is_digit (int_text (?m div STROOPS_PER_UNIT))" by (simp add: int_text_def)
    with fraction_written(1) [of ?m] show ?thesis unfolding written by (auto simp: list_all_iff)
  qed
  have "\<not> grouping_character CHR ''-''" "\<not> grouping_character CHR ''.''"
    by (simp_all add: grouping_character_def is_space_def code_of_def)
  then have group: "\<not> list_ex grouping_character (stroopsToAmount n)"
    using chars digit_not unfolding list_all_iff list_ex_iff by metis
  then have "\<not> list_ex is_space (stroopsToAmount n)" by (auto simp: list_ex_iff grouping_character_def)
  then have trim: "trim (stroopsToAmount n) = stroopsToAmount n"
    by (rule trim_id)
  have ne: "stroopsToAmount n \<noteq> []" by (simp add: stroopsToAmount_def Let_def)
  from read obtain sign whole fraction where c: "canonical_amount (stroopsToAmount n) = Some (sign, whole, fraction)"
    "length fraction \<le> AMOUNT_DECIMALS" "(if sign then - magnitude_of whole fraction else magnitude_of whole fraction) = n"
    by (auto simp: amountToStroops_def Let_def split: option.splits if_splits)
  then have "parseAmount True (stroopsToAmount n) = (if n > INT64_MAX \<or> n < INT64_MIN then Err Out_Of_Range else Ok n)"
    using trim ne group by (simp add: parseAmount_def Let_def)
  with read show ?thesis by auto
qed



text \<open>The symbols of a locale that writes plain ASCII digits without grouping.\<close>

definition plain_symbols :: "locale_symbols \<Rightarrow> bool" where
  "plain_symbols symbols =
     (ls_integer symbols = int_text \<and> ls_decimal symbols = ''.'' \<and> ls_digits symbols = map nat_text [0..<10] \<and>
      ls_negativePrefix symbols = ''-'' \<and> ls_negativeSuffix symbols = [])"

lemma plain_digits: "list_all is_digit s \<Longrightarrow> concat (map (\<lambda>c. map nat_text [0..<10] ! (code_of c - 48)) s) = s"
proof (induction s)
  case (Cons c s)
  then have d: "48 \<le> code_of c" "code_of c \<le> 57" by (simp_all add: is_digit_def)
  then have "nat_text (code_of c - 48) = [c]"
    by (subst nat_text.simps) (simp add: digit_char.simps)
  with Cons d show ?case by (simp add: nth_append)
qed simp

lemma render_reads_back:
  assumes "plain_symbols symbols"
  shows "amountToStroops (render_amount symbols trimZeros False n) = Some n"
proof -
  let ?m = "if n < 0 then - n else n"
  let ?f = "if trimZeros then trim_zeros (fraction_text ?m) else fraction_text ?m"
  obtain k where k: "fraction_text ?m = ?f @ replicate k CHR ''0''"
    using trim_zeros_split [of "fraction_text ?m"] by (cases trimZeros) (auto intro: exI [of _ 0])
  then have "list_all is_digit ?f" using fraction_written(1) [of ?m] by (metis list_all_append)
  then have "render_amount symbols trimZeros False n = (if n < 0 then ''-'' else []) @ int_text (?m div STROOPS_PER_UNIT) @
      (if ?f = [] then [] else ''.'' @ ?f)"
    using assms plain_digits [of ?f] by (simp add: render_amount_def Let_def plain_symbols_def)
  with written_read [OF _ k, of "n < 0"] show ?thesis by simp
qed

text \<open>
  Two arguments share a cache entry when one is a list and the other the malformed tag
  that joins it: what the second call shows depends on which came first.
\<close>

lemma cache_key_clash: "cache_key (Locale_Tag ''en,de'') = cache_key (Locale_List [''en'', ''de''])"
  by (simp add: cache_key_def)

end
