(* ===== verification/Hash_Chain.thy ===== *)
theory Hash_Chain
  imports Utix_Prelude
begin

text \<open>
  Hash chains, the structure \<open>core/ledger/ledger.ts\<close> and
  \<open>core/audit/tamper-evident-history.ts\<close> share: every entry names the hash of its
  predecessor and carries the digest of its own text, and the text determines the name.
\<close>

fun chained :: "('e \<Rightarrow> 'h) \<Rightarrow> ('e \<Rightarrow> 'h) \<Rightarrow> ('e \<Rightarrow> 'h) \<Rightarrow> 'h \<Rightarrow> 'e list \<Rightarrow> bool" where
  "chained link seal calc prev [] = True"
| "chained link seal calc prev (e # es) =
     (link e = prev \<and> calc e = seal e \<and> chained link seal calc (seal e) es)"

definition chain_head :: "('e \<Rightarrow> 'h) \<Rightarrow> 'h \<Rightarrow> 'e list \<Rightarrow> 'h" where
  "chain_head seal prev es = (if es = [] then prev else seal (last es))"

lemma chain_head_snoc [simp]: "chain_head seal prev (es @ [e]) = seal e"
  by (simp add: chain_head_def)

lemma chain_head_Cons: "chain_head seal prev (e # es) = chain_head seal (seal e) es"
  by (simp add: chain_head_def)

lemma chained_append:
  "chained link seal calc prev (xs @ ys) \<longleftrightarrow>
     chained link seal calc prev xs \<and> chained link seal calc (chain_head seal prev xs) ys"
  by (induction xs arbitrary: prev) (auto simp: chain_head_def)

text \<open>
  The interface of a chain: the digest of an entry is the digest of a text, and two
  well-formed entries with the same text name the same predecessor.
\<close>

locale hash_chain =
  fixes link :: "'e \<Rightarrow> 'h"
    and seal :: "'e \<Rightarrow> 'h"
    and digest :: "'t \<Rightarrow> 'h"
    and text_of :: "'e \<Rightarrow> 't"
    and ok :: "'e \<Rightarrow> bool"
  assumes link_in_text: "ok e \<Longrightarrow> ok e' \<Longrightarrow> text_of e = text_of e' \<Longrightarrow> link e = link e'"
begin

abbreviation sound :: "'h \<Rightarrow> 'e list \<Rightarrow> bool" where
  "sound prev es \<equiv> chained link seal (\<lambda>e. digest (text_of e)) prev es"

text \<open>
  Two chains of the same length with the same head hash hold the same texts and start
  from the same hash, unless the digest maps two of their texts to one hash.
\<close>

lemma same_head_same_texts:
  assumes "length es = length es'" "sound prev es" "sound prev' es'"
    "list_all ok es" "list_all ok es'" "chain_head seal prev es = chain_head seal prev' es'"
    "inj_on digest (text_of ` (set es \<union> set es'))"
  shows "map text_of es = map text_of es' \<and> prev = prev'"
  using assms
proof (induction es arbitrary: es' rule: rev_induct)
  case Nil
  then show ?case by (simp add: chain_head_def)
next
  case (snoc e es)
  from snoc.prems(1) obtain xs x where es': "es' = xs @ [x]"
    by (cases es' rule: rev_cases) auto
  have seal: "seal e = seal x" using snoc.prems(6) by (simp add: es')
  have ex: "digest (text_of e) = seal e" "digest (text_of x) = seal x"
    using snoc.prems(2,3) by (simp_all add: es' chained_append)
  have te: "text_of e = text_of x"
    using snoc.prems(7) by (rule inj_onD) (simp_all add: es' ex seal)
  moreover have "ok e" "ok x" using snoc.prems(4,5) by (simp_all add: es')
  ultimately have "link e = link x" by (rule link_in_text [rotated 2])
  then have "chain_head seal prev es = chain_head seal prev' xs"
    using snoc.prems(2,3) by (simp add: es' chained_append)
  moreover have "inj_on digest (text_of ` (set es \<union> set xs))"
    using snoc.prems(7) by (rule inj_on_subset) (auto simp: es')
  ultimately have "map text_of es = map text_of xs \<and> prev = prev'"
    using snoc.IH [of xs] snoc.prems(1-5) by (simp add: es' chained_append)
  with te show ?case by (simp add: es')
qed

end

end
