(* ===== verification/Sha256.thy ===== *)
theory Sha256
  imports Json "HOL-Library.Word"
begin

text \<open>
  \<open>core/ledger/sha256.ts\<close>: SHA-256 over the UTF-8 bytes of a text, on 32-bit words. The
  bitwise operators of the source give signed 32-bit integers and its sums are exact
  doubles reduced by \<open>>>> 0\<close>; both are arithmetic modulo \<open>2 ^ 32\<close>.
\<close>

unbundle bit_operations_syntax

section \<open>Words and bytes\<close>

text \<open>The round constants, one list per line of the source.\<close>

definition K :: "32 word list" where
  "K = concat
    [[0x428a2f98, 0x71374491, 0xb5c0fbcf, 0xe9b5dba5, 0x3956c25b, 0x59f111f1, 0x923f82a4, 0xab1c5ed5],
     [0xd807aa98, 0x12835b01, 0x243185be, 0x550c7dc3, 0x72be5d74, 0x80deb1fe, 0x9bdc06a7, 0xc19bf174],
     [0xe49b69c1, 0xefbe4786, 0x0fc19dc6, 0x240ca1cc, 0x2de92c6f, 0x4a7484aa, 0x5cb0a9dc, 0x76f988da],
     [0x983e5152, 0xa831c66d, 0xb00327c8, 0xbf597fc7, 0xc6e00bf3, 0xd5a79147, 0x06ca6351, 0x14292967],
     [0x27b70a85, 0x2e1b2138, 0x4d2c6dfc, 0x53380d13, 0x650a7354, 0x766a0abb, 0x81c2c92e, 0x92722c85],
     [0xa2bfe8a1, 0xa81a664b, 0xc24b8b70, 0xc76c51a3, 0xd192e819, 0xd6990624, 0xf40e3585, 0x106aa070],
     [0x19a4c116, 0x1e376c08, 0x2748774c, 0x34b0bcb5, 0x391c0cb3, 0x4ed8aa4a, 0x5b9cca4f, 0x682e6ff3],
     [0x748f82ee, 0x78a5636f, 0x84c87814, 0x8cc70208, 0x90befffa, 0xa4506ceb, 0xbef9a3f7, 0xc67178f2]]"

definition rotr :: "32 word \<Rightarrow> nat \<Rightarrow> 32 word" where
  "rotr value bits = (drop_bit bits value) OR (push_bit (32 - bits) value)"

text \<open>\<open>TextEncoder.encode\<close> on code units below 256.\<close>

definition utf8_char :: "char \<Rightarrow> nat list" where
  "utf8_char c = (let n = code_of c in if n < 128 then [n] else [192 + n div 64, 128 + n mod 64])"

definition utf8_bytes :: "string \<Rightarrow> nat list" where
  "utf8_bytes s = concat (map utf8_char s)"

text \<open>\<open>DataView.setUint32\<close> and \<open>getUint32\<close>, big endian.\<close>

definition uint32_bytes :: "nat \<Rightarrow> nat list" where
  "uint32_bytes n = [n div 2 ^ 24 mod 256, n div 2 ^ 16 mod 256, n div 2 ^ 8 mod 256, n mod 256]"

definition padded :: "nat list \<Rightarrow> nat list" where
  "padded bytes =
     (let n = length bytes; bitLength = n * 8; total = (n + 9 + 63) div 64 * 64 in
      bytes @ [128] @ replicate (total - n - 9) 0 @
      uint32_bytes (bitLength div 2 ^ 32) @ uint32_bytes bitLength)"

fun words_of :: "nat list \<Rightarrow> 32 word list" where
  "words_of (b0 # b1 # b2 # b3 # bs) =
     of_nat (b0 * 2 ^ 24 + b1 * 2 ^ 16 + b2 * 2 ^ 8 + b3) # words_of bs"
| "words_of _ = []"

section \<open>Compression\<close>

definition next_word :: "32 word list \<Rightarrow> 32 word" where
  "next_word w =
     (let i = length w;
          s0 = rotr (w ! (i - 15)) 7 XOR rotr (w ! (i - 15)) 18 XOR drop_bit 3 (w ! (i - 15));
          s1 = rotr (w ! (i - 2)) 17 XOR rotr (w ! (i - 2)) 19 XOR drop_bit 10 (w ! (i - 2))
      in w ! (i - 16) + s0 + w ! (i - 7) + s1)"

fun extend :: "nat \<Rightarrow> 32 word list \<Rightarrow> 32 word list" where
  "extend 0 w = w"
| "extend (Suc n) w = extend n (w @ [next_word w])"

type_synonym hash_state =
  "32 word \<times> 32 word \<times> 32 word \<times> 32 word \<times> 32 word \<times> 32 word \<times> 32 word \<times> 32 word"

fun sha_round :: "hash_state \<Rightarrow> 32 word \<times> 32 word \<Rightarrow> hash_state" where
  "sha_round (a, b, c, d, e, f, g, hh) (k, w) =
     (let S1 = rotr e 6 XOR rotr e 11 XOR rotr e 25;
          ch = (e AND f) XOR (NOT e AND g);
          t1 = hh + S1 + ch + k + w;
          S0 = rotr a 2 XOR rotr a 13 XOR rotr a 22;
          maj = (a AND b) XOR (a AND c) XOR (b AND c);
          t2 = S0 + maj
      in (t1 + t2, a, b, c, d + t1, e, f, g))"

fun add_state :: "hash_state \<Rightarrow> hash_state \<Rightarrow> hash_state" where
  "add_state (a, b, c, d, e, f, g, h) (a', b', c', d', e', f', g', h') =
     (a + a', b + b', c + c', d + d', e + e', f + f', g + g', h + h')"

definition compress :: "hash_state \<Rightarrow> nat list \<Rightarrow> hash_state" where
  "compress h block = add_state h (foldl sha_round h (zip K (extend 48 (words_of block))))"

function process :: "hash_state \<Rightarrow> nat list \<Rightarrow> hash_state" where
  "process h bytes = (if bytes = [] then h else process (compress h (take 64 bytes)) (drop 64 bytes))"
  by pat_completeness auto
termination
  by (relation "measure (\<lambda>(h, bytes). length bytes)") auto

definition initial_hash :: hash_state where
  "initial_hash = (0x6a09e667, 0xbb67ae85, 0x3c6ef372, 0xa54ff53a, 0x510e527f, 0x9b05688c, 0x1f83d9ab, 0x5be0cd19)"

fun state_words :: "hash_state \<Rightarrow> 32 word list" where
  "state_words (a, b, c, d, e, f, g, h) = [a, b, c, d, e, f, g, h]"

definition hex8 :: "32 word \<Rightarrow> string" where
  "hex8 x = padStart 8 CHR ''0'' (hex_text (unat x))"

definition sha256Hex :: "string \<Rightarrow> string" where
  "sha256Hex text =
     concat (map hex8
       (state_words (process initial_hash (padded (utf8_bytes text)))))"

declare process.simps [simp del]

section \<open>The digest is a hash text\<close>

definition is_hex :: "char \<Rightarrow> bool" where
  "is_hex c = (is_digit c \<or> 97 \<le> code_of c \<and> code_of c \<le> 102)"

text \<open>\<open>/^[0-9a-f]{64}$/\<close>, which the ledger tests its hashes with.\<close>

definition hash_pattern :: "string \<Rightarrow> bool" where
  "hash_pattern s = (length s = 64 \<and> list_all is_hex s)"

lemma hex_text_hex: "list_all is_hex (hex_text n)"
proof (induction n rule: hex_text.induct)
  case (1 n)
  have "is_hex (hex_char (n mod 16))" for n
    using hex_char_less [of "n mod 16"] by (auto simp: is_hex_def is_digit_def split: if_splits)
  from this [of n] 1 show ?case by (subst hex_text.simps) (auto simp: mod_less)
qed

lemma hex_text_length: "n < 16 ^ k \<Longrightarrow> 0 < k \<Longrightarrow> length (hex_text n) \<le> k"
proof (induction k arbitrary: n)
  case (Suc k)
  show ?case
  proof (cases "n < 16")
    case True
    then show ?thesis by (subst hex_text.simps) simp
  next
    case False
    with Suc.prems have "n div 16 < 16 ^ k" "0 < k"
      by (auto simp: less_mult_imp_div_less mult.commute intro: gr0I)
    from Suc.IH [OF this] False show ?thesis by (subst hex_text.simps) simp
  qed
qed simp

lemma hex8_pattern: "length (hex8 x) = 8" "list_all is_hex (hex8 x)"
proof -
  have "unat x < 16 ^ 8" using unsigned_less [of x, where ?'a = nat] by simp
  then have "length (hex_text (unat x)) \<le> 8" by (rule hex_text_length) simp
  then show "length (hex8 x) = 8" by (simp add: hex8_def padStart_def)
  show "list_all is_hex (hex8 x)"
    using hex_text_hex [of "unat x"] by (auto simp: hex8_def padStart_def list_all_iff is_hex_def is_digit_def code_of_def)
qed

lemma sha256Hex_pattern: "hash_pattern (sha256Hex text)"
proof -
  have "hash_pattern (concat (map hex8 (state_words s)))" for s
    by (cases s rule: state_words.cases) (simp add: hash_pattern_def hex8_pattern)
  then show ?thesis by (simp add: sha256Hex_def)
qed

section \<open>Padding\<close>

lemma padded_length: "64 dvd length (padded bytes)" "length (padded bytes) < length bytes + 9 + 64"
proof -
  let ?n = "length bytes"
  have b: "(?n + 9 + 63) div 64 * 64 + (?n + 9 + 63) mod 64 = ?n + 9 + 63" "(?n + 9 + 63) mod 64 < 64"
    by (rule div_mult_mod_eq) simp
  then have le: "?n + 9 \<le> (?n + 9 + 63) div 64 * 64" by linarith
  then have len: "length (padded bytes) = (?n + 9 + 63) div 64 * 64"
    by (simp add: padded_def Let_def uint32_bytes_def)
  then show "64 dvd length (padded bytes)" by simp
  show "length (padded bytes) < ?n + 9 + 64" unfolding len using b by linarith
qed

definition length_field :: "nat list \<Rightarrow> nat" where
  "length_field p = foldl (\<lambda>n b. n * 256 + b) 0 (drop (length p - 8) p)"

lemma uint32_value: "foldl (\<lambda>n b. n * 256 + b) m (uint32_bytes n) = m * 2 ^ 32 + n mod 2 ^ 32"
proof -
  have step: "n mod (256 * k) = 256 * (n div 256 mod k) + n mod 256" for n k :: nat
    by (rule mod_mult2_eq)
  have pow: "(2 :: nat) ^ 8 = 256" "(2 :: nat) ^ 16 = 256 * 256" "(2 :: nat) ^ 24 = 256 * (256 * 256)"
    "(2 :: nat) ^ 32 = 256 * (256 * (256 * 256))" by simp_all
  show ?thesis
    unfolding pow step uint32_bytes_def foldl_Cons foldl_Nil div_mult2_eq by (simp only: algebra_simps)
qed

lemma padded_length_field:
  assumes "length bytes < 2 ^ 61"
  shows "length_field (padded bytes) = length bytes * 8"
proof -
  let ?n = "length bytes * 8"
  let ?tail = "uint32_bytes (?n div 2 ^ 32) @ uint32_bytes ?n"
  obtain front where "padded bytes = front @ ?tail" by (simp add: padded_def Let_def)
  moreover have "length ?tail = 8" by (simp add: uint32_bytes_def)
  ultimately have "drop (length (padded bytes) - 8) (padded bytes) = ?tail" by simp
  moreover have "?n div 2 ^ 32 mod 2 ^ 32 = ?n div 2 ^ 32" using assms by (intro mod_less) (simp add: less_mult_imp_div_less)
  ultimately show ?thesis
    by (simp only: length_field_def foldl_append uint32_value mult_0 add_0_left div_mult_mod_eq)
qed

text \<open>
  Padding loses nothing: the padded message is a whole number of 64-byte blocks, and
  two messages shorter than \<open>2 ^ 61\<close> bytes with the same padding are the same message.
\<close>

lemma padding_sound:
  "64 dvd length (padded x) \<and>
   (length x < 2 ^ 61 \<longrightarrow> length y < 2 ^ 61 \<longrightarrow> padded x = padded y \<longrightarrow> x = y)"
proof (intro conjI impI)
  show "64 dvd length (padded x)" by (rule padded_length)
  assume "length x < 2 ^ 61" "length y < 2 ^ 61" and eq: "padded x = padded y"
  then have "length x = length y"
    using padded_length_field [of x] padded_length_field [of y] by simp
  with eq show "x = y" by (simp add: padded_def Let_def)
qed

lemma padding_sound_witness: "64 dvd length (padded [1]) \<and> padded [1] \<noteq> padded [2]"
  using padding_sound [of "[1]" "[2]"] by auto

end
