(* ===== verification/Change_History.thy ===== *)
theory Change_History
  imports Hash_Chain Sha256 Iso_Time
begin

text \<open>
  \<open>core/audit/tamper-evident-history.ts\<close>: the hash-chained history of changes to critical
  records. The digest of \<open>createHash('sha256')\<close> is SHA-256 of the UTF-8 bytes in hexadecimal,
  the function \<open>sha256Hex\<close>. States are JSON objects; \<open>JSON.stringify\<close> throws on a BigInt.
\<close>

section \<open>Entries\<close>

datatype mutation_type = Mutation_Create | Mutation_Update | Mutation_Delete | Mutation_Transfer | Mutation_Redeem | Mutation_Revoke

fun mutation_text :: "mutation_type \<Rightarrow> string" where
  "mutation_text Mutation_Create = ''create''"
| "mutation_text Mutation_Update = ''update''"
| "mutation_text Mutation_Delete = ''delete''"
| "mutation_text Mutation_Transfer = ''transfer''"
| "mutation_text Mutation_Redeem = ''redeem''"
| "mutation_text Mutation_Revoke = ''revoke''"

type_synonym snapshot = "(string \<times> json) list option"

record change_params =
  ch_recordType :: string
  ch_recordId :: string
  ch_mutationType :: mutation_type
  ch_actor :: string
  ch_reason :: string
  ch_before :: snapshot
  ch_after :: snapshot

record change_entry =
  he_seq :: int
  he_params :: change_params
  he_timestamp :: string
  he_prevHash :: string
  he_hash :: string

datatype history_fault = Seq_Fault int int | Link_Fault int | Hash_Fault

record history_verdict =
  hv_valid :: bool
  hv_brokenAt :: int
  hv_reason :: "history_fault option"

section \<open>Operations\<close>

definition snapshot_json :: "snapshot \<Rightarrow> json" where
  "snapshot_json s = (case s of None \<Rightarrow> JNull | Some es \<Rightarrow> JObj es)"

definition entry_json :: "string \<Rightarrow> change_entry \<Rightarrow> json" where
  "entry_json prevHash e =
     JObj [(''seq'', JNum (he_seq e)), (''recordType'', JStr (ch_recordType (he_params e))),
       (''recordId'', JStr (ch_recordId (he_params e))),
       (''mutationType'', JStr (mutation_text (ch_mutationType (he_params e)))),
       (''actor'', JStr (ch_actor (he_params e))), (''reason'', JStr (ch_reason (he_params e))),
       (''before'', snapshot_json (ch_before (he_params e))), (''after'', snapshot_json (ch_after (he_params e))),
       (''timestamp'', JStr (he_timestamp e)), (''prevHash'', JStr prevHash)]"

definition computeHash :: "string \<Rightarrow> change_entry \<Rightarrow> string option" where
  "computeHash prevHash e = map_option sha256Hex (stringify (entry_json prevHash e))"

definition GENESIS :: string where
  "GENESIS = replicate 64 CHR ''0''"

definition history_record :: "change_entry list \<Rightarrow> int \<Rightarrow> change_params \<Rightarrow> (change_entry \<times> change_entry list) js_call" where
  "history_record entries now params =
     (let prevHash = (if length entries > 0 then he_hash (last entries) else GENESIS);
          entryData = \<lparr>he_seq = int (length entries) + 1, he_params = params, he_timestamp = toISOString now,
            he_prevHash = prevHash, he_hash = []\<rparr>
      in case computeHash prevHash entryData of
           None \<Rightarrow> Throws_TypeError
         | Some hash \<Rightarrow> let entry = entryData\<lparr>he_hash := hash\<rparr> in Returns (entry, entries @ [entry]))"

definition getHistory :: "change_entry list \<Rightarrow> string \<Rightarrow> string \<Rightarrow> change_entry list" where
  "getHistory entries recordType recordId =
     filter (\<lambda>e. ch_recordType (he_params e) = recordType \<and> ch_recordId (he_params e) = recordId) entries"

definition history_broken :: "nat \<Rightarrow> history_fault \<Rightarrow> history_verdict js_call" where
  "history_broken i fault = Returns \<lparr>hv_valid = False, hv_brokenAt = int i, hv_reason = Some fault\<rparr>"

definition history_intact :: "history_verdict js_call" where
  "history_intact = Returns \<lparr>hv_valid = True, hv_brokenAt = - 1, hv_reason = None\<rparr>"

fun history_loop :: "nat \<Rightarrow> string \<Rightarrow> change_entry list \<Rightarrow> history_verdict js_call" where
  "history_loop i expectedPrevHash [] = history_intact"
| "history_loop i expectedPrevHash (entry # entries) =
     (if he_seq entry \<noteq> int i + 1 then history_broken i (Seq_Fault (int i + 1) (he_seq entry))
      else if he_prevHash entry \<noteq> expectedPrevHash then history_broken i (Link_Fault (he_seq entry))
      else case computeHash (he_prevHash entry) entry of
        None \<Rightarrow> Throws_TypeError
      | Some expectedHash \<Rightarrow>
          if he_hash entry \<noteq> expectedHash then history_broken i Hash_Fault
          else history_loop (i + 1) (he_hash entry) entries)"

definition history_verify :: "change_entry list \<Rightarrow> history_verdict js_call" where
  "history_verify entries = (if length entries = 0 then history_intact else history_loop 0 GENESIS entries)"

definition history_count :: "change_entry list \<Rightarrow> nat" where
  "history_count entries = length entries"

section \<open>The chain\<close>

lemma clone_defined: "v \<noteq> JUndef \<Longrightarrow> no_undef (json_clone v)"
  by (induction v rule: json_clone.induct) (auto simp: list_all_iff defined_def)

lemma stringify_inj:
  assumes "stringify v = Some t" "stringify w = Some t" "v \<noteq> JUndef" "w \<noteq> JUndef"
  shows "json_clone v = json_clone w"
  using readsD [OF plain_text_reads [OF clone_defined [OF assms(3)] clone_defined [OF assms(4)]], of "[]" "[]"] assms(1,2)
  by (auto simp: stringify_def split: if_splits)

definition change_text :: "change_entry \<Rightarrow> string option" where
  "change_text e = stringify (entry_json (he_prevHash e) e)"

text \<open>Two entries that say the same; the states are compared as \<open>JSON.stringify\<close> shows them.\<close>

definition same_change :: "change_entry \<Rightarrow> change_entry \<Rightarrow> bool" where
  "same_change e e' =
     (he_seq e = he_seq e' \<and> he_prevHash e = he_prevHash e' \<and> he_timestamp e = he_timestamp e' \<and>
      ch_recordType (he_params e) = ch_recordType (he_params e') \<and> ch_recordId (he_params e) = ch_recordId (he_params e') \<and>
      ch_mutationType (he_params e) = ch_mutationType (he_params e') \<and>
      ch_actor (he_params e) = ch_actor (he_params e') \<and> ch_reason (he_params e) = ch_reason (he_params e') \<and>
      json_clone (snapshot_json (ch_before (he_params e))) = json_clone (snapshot_json (ch_before (he_params e'))) \<and>
      json_clone (snapshot_json (ch_after (he_params e))) = json_clone (snapshot_json (ch_after (he_params e'))))"

lemma mutation_text_inj: "mutation_text m = mutation_text m' \<Longrightarrow> m = m'"
  by (cases m; cases m') simp_all

lemma snapshot_defined: "snapshot_json s \<noteq> JUndef"
  by (simp add: snapshot_json_def split: option.split)

lemma change_text_same:
  assumes "change_text e = Some t" "change_text e' = Some t"
  shows "same_change e e'"
proof -
  have "json_clone (entry_json (he_prevHash e) e) = json_clone (entry_json (he_prevHash e') e')"
    using assms unfolding change_text_def by (rule stringify_inj) (simp_all add: entry_json_def)
  then show ?thesis
    by (simp add: entry_json_def same_change_def defined_def snapshot_defined mutation_text_inj)
qed

definition history_text :: "change_entry \<Rightarrow> string" where
  "history_text e = (case change_text e of Some t \<Rightarrow> t | None \<Rightarrow> [])"

interpretation change_chain: hash_chain he_prevHash he_hash sha256Hex history_text "\<lambda>e. change_text e \<noteq> None"
proof unfold_locales
  fix e e' assume "change_text e \<noteq> None" "change_text e' \<noteq> None" "history_text e = history_text e'"
  then have "same_change e e'" by (auto simp: history_text_def intro: change_text_same)
  then show "he_prevHash e = he_prevHash e'" by (simp add: same_change_def)
qed

lemma loop_intact:
  "history_loop i prev es = history_intact \<longleftrightarrow>
     map he_seq es = map (\<lambda>j. int j + 1) [i..<i + length es] \<and> list_all (\<lambda>e. change_text e \<noteq> None) es \<and>
     change_chain.sound prev es"
proof (induction es arbitrary: i prev)
  case (Cons e es)
  have up: "[i..<i + length (e # es)] = i # [i + 1..<(i + 1) + length es]"
    by (subst upt_conv_Cons) simp_all
  show ?case unfolding up using Cons.IH [of "i + 1" "he_hash e"]
    by (auto simp: history_broken_def history_intact_def computeHash_def history_text_def
        simp flip: change_text_def split: option.splits)
qed simp

lemma verify_intact:
  "history_verify es = history_intact \<longleftrightarrow>
     map he_seq es = map (\<lambda>j. int j + 1) [0..<length es] \<and> list_all (\<lambda>e. change_text e \<noteq> None) es \<and>
     change_chain.sound GENESIS es"
  using loop_intact [of 0 GENESIS es] by (auto simp: history_verify_def)

lemma record_keeps:
  assumes "history_verify es = history_intact" "history_record es now params = Returns (e, es')"
  shows "es' = es @ [e]" "history_verify es' = history_intact"
proof -
  let ?prev = "chain_head he_hash GENESIS es"
  let ?d = "\<lparr>he_seq = int (length es) + 1, he_params = params, he_timestamp = toISOString now, he_prevHash = ?prev, he_hash = []\<rparr>"
  from assms(2) obtain hash where h: "computeHash ?prev ?d = Some hash" "e = ?d\<lparr>he_hash := hash\<rparr>" "es' = es @ [e]"
    by (auto simp: history_record_def Let_def chain_head_def split: option.splits if_splits)
  then have "change_text e = stringify (entry_json ?prev ?d)" by (simp add: change_text_def entry_json_def)
  with h(1) obtain t where t: "change_text e = Some t" "hash = sha256Hex t" by (auto simp: computeHash_def)
  show "es' = es @ [e]" by (rule h(3))
  show "history_verify es' = history_intact"
    using assms(1) t h(2,3) by (simp add: verify_intact chained_append history_text_def)
qed

text \<open>Calls of \<open>record\<close>; one that throws leaves the history as it was.\<close>

definition history_step :: "change_entry list \<Rightarrow> int \<times> change_params \<Rightarrow> change_entry list" where
  "history_step es call = (case history_record es (fst call) (snd call) of Returns r \<Rightarrow> snd r | Throws_TypeError \<Rightarrow> es)"

interpretation history_runs: step_system history_step "\<lambda>es. history_verify es = history_intact"
  by unfold_locales (auto simp: history_step_def dest: record_keeps(2) split: js_call.split)

text \<open>
  C36. The history is tamper evident: after any run of records it verifies, and a history of
  the same length that verifies and ends in the same hash says the same in every entry,
  unless SHA-256 collides on two of the texts.
\<close>

theorem history_tamper_evident:
  assumes "es = foldl history_step [] calls" "history_verify es' = history_intact" "history_count es' = history_count es"
    "chain_head he_hash GENESIS es' = chain_head he_hash GENESIS es" "inj_on sha256Hex (history_text ` (set es' \<union> set es))"
  shows "history_verify es = history_intact \<and> list_all2 same_change es' es"
proof -
  have ok: "history_verify es = history_intact"
    unfolding assms(1) by (rule history_runs.run_keeps) (simp add: history_verify_def)
  note v = iffD1 [OF verify_intact ok] iffD1 [OF verify_intact assms(2)]
  have "map history_text es' = map history_text es"
    using change_chain.same_head_same_texts [of es' es GENESIS GENESIS] v assms(3-5) by (simp add: history_count_def)
  moreover have "length es' = length es" using assms(3) by (simp add: history_count_def)
  ultimately have "same_change (es' ! i) (es ! i)" if i: "i < length es" for i
  proof -
    have "change_text (es' ! i) \<noteq> None" "change_text (es ! i) \<noteq> None"
      using v i \<open>length es' = length es\<close> by (auto simp: list_all_length)
    moreover have "history_text (es' ! i) = history_text (es ! i)"
      using \<open>map history_text es' = map history_text es\<close> i \<open>length es' = length es\<close> by (metis nth_map)
    ultimately show ?thesis by (auto simp: history_text_def intro: change_text_same)
  qed
  with ok \<open>length es' = length es\<close> show ?thesis by (simp add: list_all2_conv_all_nth)
qed

text \<open>A recorded transfer, and a copy of the entry that drops an \<open>undefined\<close> field.\<close>

definition w_change :: "(string \<times> json) list \<Rightarrow> change_params" where
  "w_change before = \<lparr>ch_recordType = ''ticket'', ch_recordId = ''t1'', ch_mutationType = Mutation_Transfer, ch_actor = ''alice'',
     ch_reason = ''sold'', ch_before = Some before, ch_after = None\<rparr>"

definition w_recorded :: "(string \<times> json) list \<Rightarrow> change_entry" where
  "w_recorded before =
     (let e = \<lparr>he_seq = 1, he_params = w_change before, he_timestamp = toISOString 0, he_prevHash = GENESIS, he_hash = []\<rparr> in
      e\<lparr>he_hash := sha256Hex (history_text e)\<rparr>)"

lemma w_change_text: "change_text (w_recorded [(''note'', JUndef)]) = change_text (w_recorded [])"
    "change_text (w_recorded []) \<noteq> None" "he_hash (w_recorded b) = sha256Hex (history_text (w_recorded b))"
  by (simp_all add: change_text_def w_recorded_def Let_def entry_json_def w_change_def stringify_def snapshot_json_def
      defined_def history_text_def)

lemma w_same_text: "history_text (w_recorded [(''note'', JUndef)]) = history_text (w_recorded [])"
  by (simp add: history_text_def w_change_text(1))

lemma w_history: "foldl history_step [] [(0, w_change [(''note'', JUndef)])] = [w_recorded [(''note'', JUndef)]]"
proof -
  let ?e = "\<lparr>he_seq = 1, he_params = w_change [(''note'', JUndef)], he_timestamp = toISOString 0, he_prevHash = GENESIS, he_hash = []\<rparr>"
  have "change_text (w_recorded [(''note'', JUndef)]) = stringify (entry_json GENESIS ?e)"
    by (simp add: change_text_def w_recorded_def entry_json_def Let_def)
  then obtain t where "stringify (entry_json GENESIS ?e) = Some t" using w_change_text(1,2) by auto
  then show ?thesis
    by (simp add: history_step_def history_record_def computeHash_def w_recorded_def Let_def history_text_def change_text_def)
qed

theorem history_tamper_evident_witness:
  "history_verify [w_recorded []] = history_intact \<and> list_all2 same_change [w_recorded []] [w_recorded [(''note'', JUndef)]]"
proof -
  have fields: "he_seq (w_recorded []) = 1" "he_prevHash (w_recorded []) = GENESIS"
    by (simp_all add: w_recorded_def Let_def)
  have v: "history_verify [w_recorded []] = history_intact"
    using w_change_text(2) by (simp add: verify_intact fields w_change_text(3))
  have "list_all2 same_change [w_recorded []] [w_recorded [(''note'', JUndef)]]"
    using history_tamper_evident [OF w_history [symmetric] v]
    by (simp add: history_count_def chain_head_def w_change_text(3) w_same_text)
  with v show ?thesis by blast
qed

text \<open>Dropping the newest entries is not detected: every prefix of a history that verifies verifies.\<close>

lemma truncation_undetected: "history_verify es = history_intact \<Longrightarrow> history_verify (take n es) = history_intact"
proof -
  assume v: "history_verify es = history_intact"
  have "change_chain.sound GENESIS (take n es @ drop n es)" using iffD1 [OF verify_intact v] by simp
  then have "change_chain.sound GENESIS (take n es)" unfolding chained_append by blast
  moreover have "map he_seq (take n es) = take n (map (\<lambda>j. int j + 1) [0..<length es])"
    using iffD1 [OF verify_intact v] by (simp flip: take_map)
  then have "map he_seq (take n es) = map (\<lambda>j. int j + 1) [0..<length (take n es)]"
    by (cases "n \<le> length es") (simp_all add: take_map take_upt)
  ultimately show ?thesis using iffD1 [OF verify_intact v] by (auto simp: verify_intact list_all_iff dest: in_set_takeD)
qed

end
