(* ===== verification/Redaction.thy ===== *)
theory Redaction
  imports Json "HOL-Library.Sublist"
begin

text \<open>
  \<open>redact\<close> of \<open>core/telemetry/telemetry.ts\<close>: the scanner every telemetry record,
  audit event, recorded response and ledger entry passes before it is stored. The
  three regular expressions are matchers returning the length of the match at the
  head of a string; \<open>String.replace\<close> with a global expression is the scan from left
  to right over such a matcher.

  Values are the trees of theory \<open>Json\<close>: functions, symbols, \<open>Error\<close> instances and
  sharing between sub-objects are outside the type. The lemmas show that no stored
  string value holds a secret seed or a bearer token, for every input, and that keys
  and shape survive.
\<close>

section \<open>Matchers\<close>

text \<open>The character class \<open>[A-Z2-7]\<close> of base32.\<close>

definition is_base32 :: "char \<Rightarrow> bool" where
  "is_base32 c = (is_upper c \<or> 50 \<le> code_of c \<and> code_of c \<le> 55)"

text \<open>\<open>[SM][A-Z2-7]{55}\<close> and \<open>[GC][A-Z2-7]{55}\<close>.\<close>

definition key_match :: "string \<Rightarrow> string \<Rightarrow> nat" where
  "key_match heads s =
     (case s of
        c # cs \<Rightarrow>
          if c \<in> set heads \<and> length (take 55 cs) = 55 \<and> list_all is_base32 (take 55 cs)
          then 56 else 0
      | [] \<Rightarrow> 0)"

definition seed_match :: "string \<Rightarrow> nat" where
  "seed_match = key_match ''SM''"

definition address_match :: "string \<Rightarrow> nat" where
  "address_match = key_match ''GC''"

definition to_lower :: "char \<Rightarrow> char" where
  "to_lower c = (if is_upper c then char_of (code_of c + 32) else c)"

text \<open>The character class \<open>[A-Za-z0-9._~+/-]\<close>.\<close>

definition is_token_char :: "char \<Rightarrow> bool" where
  "is_token_char c = (is_upper c \<or> is_lower c \<or> is_digit c \<or> c \<in> set ''._~+/-'')"

text \<open>\<open>Bearer\s+[A-Za-z0-9._~+/-]+\<close> with the \<open>i\<close> flag.\<close>

definition bearer_match :: "string \<Rightarrow> nat" where
  "bearer_match s =
     (let w = takeWhile is_space (drop 6 s);
          t = takeWhile is_token_char (drop (6 + length w) s)
      in if map to_lower (take 6 s) = ''bearer'' \<and> w \<noteq> [] \<and> t \<noteq> []
         then 6 + length w + length t else 0)"

text \<open>\<open>s.replace(re, rep)\<close> for a global expression.\<close>

function replace_matches :: "(string \<Rightarrow> nat) \<Rightarrow> string \<Rightarrow> string \<Rightarrow> string" where
  "replace_matches m rep [] = []"
| "replace_matches m rep (c # cs) =
     (if m (c # cs) = 0 then c # replace_matches m rep cs
      else rep @ replace_matches m rep (drop (m (c # cs) - 1) cs))"
  by pat_completeness auto
termination
  by (relation "measure (\<lambda>(m, rep, s). length s)") auto

section \<open>Scrubbing\<close>

definition MAX_REDACT_DEPTH :: nat where
  "MAX_REDACT_DEPTH = 16"

definition MAX_SCANNABLE_STRING_LENGTH :: nat where
  "MAX_SCANNABLE_STRING_LENGTH = 500000"

definition redacted :: string where
  "redacted = ''[REDACTED]''"

text \<open>
  The ellipsis of the truncation marker lies outside the alphabet of the model; the
  unit \<open>0x85\<close>, its place in Windows-1252, stands for it. No matcher accepts either.
\<close>

definition truncated :: string where
  "truncated = CHR 0x85 # ''[TRUNCATED]''"

definition looksLikeSecret :: "string \<Rightarrow> bool" where
  "looksLikeSecret value =
     (if length value < 10 \<or> length value > 128 then False
      else list_ex (\<lambda>prefix. startsWith value prefix) [''S'', ''M''])"

definition scrubString :: "string \<Rightarrow> string" where
  "scrubString value =
     (if looksLikeSecret value then redacted
      else
        let candidate =
          (if length value > MAX_SCANNABLE_STRING_LENGTH
           then take MAX_SCANNABLE_STRING_LENGTH value @ truncated else value)
        in replace_matches bearer_match redacted
             (replace_matches seed_match redacted candidate))"

fun str_includes :: "string \<Rightarrow> string \<Rightarrow> bool" where
  "str_includes [] p = (p = [])"
| "str_includes (c # cs) p = (startsWith (c # cs) p \<or> str_includes cs p)"

text \<open>
  The alternatives of the sensitive-key expression: substrings (an optional
  underscore is two substrings), whole keys, and \<open>key\<close> at the start or after an
  underscore, a backspace (\<open>\b\<close> inside a class) or one of four words.
\<close>

definition sensitive_substrings :: "string list" where
  "sensitive_substrings =
     [''secret'', ''seed'', ''password'', ''passphrase'', ''token'', ''auth'',
      ''authorization'', ''credential'', ''bearer'', ''cookie'',
      ''raw_body'', ''rawbody'', ''response_body'', ''responsebody'',
      ''request_body'', ''requestbody'', ''http_body'', ''httpbody'',
      ''response_data'', ''responsedata'',
      ''disallowed_address'', ''disallowedaddress'', ''forbidden_address'', ''forbiddenaddress'',
      ''disallowed_account'', ''disallowedaccount'', ''forbidden_account'', ''forbiddenaccount'',
      ''_key'', CHR 0x08 # ''key'', ''privatekey'', ''apikey'', ''secretkey'', ''signingkey'']"

definition isSensitiveKey :: "string \<Rightarrow> bool" where
  "isSensitiveKey key =
     (let k = map to_lower key in
      if str_includes k ''public'' then False
      else list_ex (str_includes k) sensitive_substrings \<or> k = ''body'' \<or> k = ''raw''
         \<or> startsWith k ''key'')"

fun redact_at :: "bool \<Rightarrow> nat \<Rightarrow> json \<Rightarrow> json" where
  "redact_at addr depth (JStr s) =
     JStr (if addr then replace_matches address_match redacted (scrubString s) else scrubString s)"
| "redact_at addr depth JNull = JNull"
| "redact_at addr depth JUndef = JUndef"
| "redact_at addr depth (JNum n) = JNum n"
| "redact_at addr depth (JBool b) = JBool b"
| "redact_at addr depth (JBig n) = JBig n"
| "redact_at addr depth (JArr xs) =
     (if depth \<ge> MAX_REDACT_DEPTH then JStr ''[TRUNCATED_DEPTH]''
      else JArr (map (redact_at addr (depth + 1)) xs))"
| "redact_at addr depth (JObj es) =
     (if depth \<ge> MAX_REDACT_DEPTH then JStr ''[TRUNCATED_DEPTH]''
      else JObj (map (\<lambda>(k, v). (k, if isSensitiveKey k then JStr redacted
                                   else redact_at addr (depth + 1) v)) es))"

definition redact :: "json \<Rightarrow> json" where
  "redact v = redact_at False 0 v"

lemma no_big_redact: "no_big v \<Longrightarrow> no_big (redact_at addr d v)"
proof (induction addr d v rule: redact_at.induct)
  case (8 addr d es)
  then show ?case by (fastforce simp: list_all_iff)
qed (auto simp: list_all_iff)

lemma no_big_clone: "no_big v \<Longrightarrow> no_big (json_clone v)"
  by (induction v rule: json_clone.induct) (auto simp: list_all_iff defined_def)

section \<open>What the scan removes\<close>

definition no_bracket :: "string \<Rightarrow> bool" where
  "no_bracket u = (CHR ''['' \<notin> set u \<and> CHR '']'' \<notin> set u)"

text \<open>The strings the expressions accept.\<close>

definition is_key :: "string \<Rightarrow> string \<Rightarrow> bool" where
  "is_key heads u = (length u = 56 \<and> hd u \<in> set heads \<and> list_all is_base32 (tl u))"

definition is_bearer :: "string \<Rightarrow> bool" where
  "is_bearer u = (\<exists>h w t. u = h @ w @ t \<and> map to_lower h = ''bearer'' \<and> w \<noteq> [] \<and>
     list_all is_space w \<and> t \<noteq> [] \<and> list_all is_token_char t)"

lemma prefix_replace:
  "no_bracket u \<Longrightarrow> prefix u (replace_matches m redacted s) \<Longrightarrow> prefix u s"
proof (induction m redacted s arbitrary: u rule: replace_matches.induct)
  case (2 m c cs)
  show ?case
  proof (cases "m (c # cs) = 0")
    case True
    with 2 show ?thesis by (cases u) (auto simp: no_bracket_def)
  next
    case False
    with 2 show ?thesis by (cases u) (auto simp: no_bracket_def redacted_def)
  qed
qed simp

lemma sublist_after_redacted:
  assumes "no_bracket u" "u \<noteq> []" "sublist u (redacted @ x)"
  shows "sublist u ''REDACTED'' \<or> sublist u x"
proof -
  have cut: "sublist u a \<or> sublist u b"
    if "sublist u (a @ c # b)" "c \<notin> set u" for a b :: string and c
  proof -
    from that(1) have "sublist u a \<or> sublist u (c # b) \<or>
        (\<exists>p q. u = p @ q \<and> suffix p a \<and> prefix q (c # b))"
      by (simp only: sublist_append)
    with that(2) show ?thesis
      by (auto simp: sublist_Cons_right prefix_Cons suffix_imp_sublist
          prefix_imp_sublist)
  qed
  have "sublist u ([] @ CHR ''['' # ''REDACTED'' @ CHR '']'' # x)"
    using assms(3) by (simp add: redacted_def)
  from cut [OF this] assms(1,2) have "sublist u (''REDACTED'' @ CHR '']'' # x)"
    by (auto simp: no_bracket_def)
  from cut [OF this] assms(1) show ?thesis by (auto simp: no_bracket_def)
qed

definition absent :: "(string \<Rightarrow> bool) \<Rightarrow> string \<Rightarrow> bool" where
  "absent accepts s = (\<forall>u. sublist u s \<longrightarrow> \<not> accepts u)"

text \<open>
  A language of bracket-free words, none of them inside the marker: a scan that
  removes other matches never brings one in, and a scan whose matcher finds every
  word of it leaves none.
\<close>

locale scanned =
  fixes accepts :: "string \<Rightarrow> bool"
  assumes accepts_plain: "accepts u \<Longrightarrow> u \<noteq> [] \<and> no_bracket u \<and> \<not> sublist u ''REDACTED''"
begin

lemma absent_Cons: "absent accepts (c # cs) \<longleftrightarrow> absent accepts cs \<and> (\<forall>u. prefix u (c # cs) \<longrightarrow> \<not> accepts u)"
  by (auto simp: absent_def sublist_Cons_right)

lemma absent_empty: "absent accepts []"
  using accepts_plain by (auto simp: absent_def)

lemma absent_redacted: "absent accepts x \<Longrightarrow> absent accepts (redacted @ x)"
  using sublist_after_redacted accepts_plain unfolding absent_def by blast

lemma absent_drop: "absent accepts s \<Longrightarrow> absent accepts (drop n s)"
  unfolding absent_def by (meson sublist_drop sublist_order.order_trans)

lemma replace_keeps_absent: "absent accepts s \<Longrightarrow> absent accepts (replace_matches m redacted s)"
proof (induction m redacted s rule: replace_matches.induct)
  case (2 m c cs)
  then show ?case
    using prefix_replace [of _ m "c # cs"] accepts_plain
    by (auto simp: absent_Cons absent_drop intro!: absent_redacted) blast
qed simp

lemma replace_makes_absent:
  assumes "\<And>s u. prefix u s \<Longrightarrow> accepts u \<Longrightarrow> m s \<noteq> 0"
  shows "absent accepts (replace_matches m redacted s)"
  using assms
proof (induction m redacted s rule: replace_matches.induct)
  case (1 m)
  then show ?case by (simp add: absent_empty)
next
  case (2 m c cs)
  show ?case
  proof (cases "m (c # cs) = 0")
    case True
    then have "\<not> accepts u" if "prefix u (replace_matches m redacted (c # cs))" for u
      using 2(3) prefix_replace [OF _ that] accepts_plain by blast
    then show ?thesis using True 2 by (simp add: absent_Cons)
  next
    case False
    then show ?thesis using 2 by (simp add: absent_redacted)
  qed
qed

end

lemma key_no_bracket: "is_base32 c \<Longrightarrow> c \<noteq> CHR ''['' \<and> c \<noteq> CHR '']''"
  by (auto simp: is_base32_def is_upper_def code_of_def)

lemma is_key_plain:
  assumes "is_key heads u" "list_all is_base32 heads"
  shows "u \<noteq> [] \<and> no_bracket u \<and> \<not> sublist u ''REDACTED''"
proof -
  from assms have "u \<noteq> []" "list_all is_base32 u"
    by (cases u; auto simp: is_key_def list_all_iff)+
  then have "no_bracket u" using key_no_bracket by (auto simp: no_bracket_def list_all_iff)
  moreover have "length u \<le> 8" if "sublist u ''REDACTED''"
    using sublist_length_le [OF that] by simp
  ultimately show ?thesis using assms(1) \<open>u \<noteq> []\<close> by (auto simp: is_key_def)
qed

lemma key_match_finds: "prefix u s \<Longrightarrow> is_key heads u \<Longrightarrow> key_match heads s \<noteq> 0"
  by (cases u) (auto simp: is_key_def key_match_def prefix_def)

interpretation seeds: scanned "is_key ''SM''"
  by unfold_locales (rule is_key_plain, assumption, simp add: is_base32_def is_upper_def code_of_def)

interpretation addresses: scanned "is_key ''GC''"
  by unfold_locales (rule is_key_plain, assumption, simp add: is_base32_def is_upper_def code_of_def)

lemma bracket_facts:
  "\<not> is_space CHR ''[''" "\<not> is_space CHR '']''"
  "\<not> is_token_char CHR ''[''" "\<not> is_token_char CHR '']''"
  "to_lower CHR ''['' = CHR ''[''" "to_lower CHR '']'' = CHR '']''"
  by (simp_all add: is_space_def is_token_char_def to_lower_def is_upper_def is_lower_def
      is_digit_def code_of_def)

lemma marker_no_space: "list_all (\<lambda>c. \<not> is_space c) ''REDACTED''"
  by (simp add: is_space_def code_of_def)

lemma list_all_D: "list_all P u \<Longrightarrow> c \<in> set u \<Longrightarrow> P c"
  by (simp add: list_all_iff)

lemma bearer_word:
  assumes "is_bearer u" shows "\<exists>c \<in> set u. is_space c"
  using assms unfolding is_bearer_def by (metis Un_iff hd_in_set list_all_iff set_append)

lemma is_bearer_E:
  assumes "is_bearer u"
  obtains h w t where "u = h @ w @ t" "map to_lower h = ''bearer''" "w \<noteq> []"
    "list_all is_space w" "t \<noteq> []" "list_all is_token_char t"
  using assms unfolding is_bearer_def by (elim exE conjE) (rule that)

lemma no_bracket_image:
  assumes "map to_lower h = x" "no_bracket x" shows "no_bracket h"
proof -
  have "to_lower c \<in> set x" if "c \<in> set h" for c
    using that assms(1) by auto
  from this [of "CHR ''[''"] this [of "CHR '']''"] assms(2) show ?thesis
    unfolding no_bracket_def bracket_facts by blast
qed

lemma no_bracket_all: "list_all P u \<Longrightarrow> \<not> P CHR ''['' \<Longrightarrow> \<not> P CHR '']'' \<Longrightarrow> no_bracket u"
  unfolding no_bracket_def list_all_iff by blast

lemma is_bearer_plain:
  assumes "is_bearer u"
  shows "u \<noteq> [] \<and> no_bracket u \<and> \<not> sublist u ''REDACTED''"
proof -
  from assms obtain h w t where u: "u = h @ w @ t" "map to_lower h = ''bearer''" "w \<noteq> []"
    "list_all is_space w" "list_all is_token_char t"
    by (rule is_bearer_E)
  have "no_bracket ''bearer''" by (simp add: no_bracket_def)
  from no_bracket_image [OF u(2) this] no_bracket_all [OF u(4) bracket_facts(1,2)]
    no_bracket_all [OF u(5) bracket_facts(3,4)]
  have "no_bracket u" using u(1) by (simp add: no_bracket_def)
  moreover have "\<not> sublist u ''REDACTED''"
  proof
    assume "sublist u ''REDACTED''"
    from set_mono_sublist [OF this] bearer_word [OF assms]
    obtain c where c: "c \<in> set ''REDACTED''" "is_space c" by (elim bexE) (rule that, rule subsetD)
    from list_all_D [OF marker_no_space c(1)] c(2) show False by (rule notE)
  qed
  ultimately show ?thesis using u(1,3) by simp
qed

lemma token_not_space: "is_token_char c \<Longrightarrow> \<not> is_space c"
  by (auto simp: is_token_char_def is_space_def is_upper_def is_lower_def is_digit_def code_of_def)

lemma bearer_match_finds:
  assumes "prefix u s" "is_bearer u"
  shows "bearer_match s \<noteq> 0"
proof -
  from assms(2) obtain h w t where u: "u = h @ w @ t" "map to_lower h = ''bearer''" "w \<noteq> []"
    "list_all is_space w" "t \<noteq> []" "list_all is_token_char t"
    by (rule is_bearer_E)
  from assms(1) obtain r where "s = u @ r" by (rule prefixE)
  with u have s: "s = h @ w @ t @ r" by simp
  have h: "length h = 6" using arg_cong [OF u(2), of length] by simp
  obtain c t' where t: "t = c # t'" "is_token_char c" using u(5,6) by (cases t) auto
  have "takeWhile is_space (w @ t @ r) = w"
    using u(4) t token_not_space by (simp add: list_all_iff takeWhile_append2)
  then show ?thesis using s u(2,3) h t by (simp add: bearer_match_def)
qed

interpretation bearers: scanned is_bearer
  by unfold_locales (rule is_bearer_plain)

section \<open>Redacted values\<close>

definition clean_string :: "string \<Rightarrow> bool" where
  "clean_string s = (absent (is_key ''SM'') s \<and> absent is_bearer s)"

lemma clean_redacted: "clean_string redacted"
  using seeds.absent_redacted [OF seeds.absent_empty] bearers.absent_redacted [OF bearers.absent_empty]
  by (simp add: clean_string_def)

lemma seeds_scanned: "absent (is_key ''SM'') (replace_matches seed_match redacted s)"
  unfolding seed_match_def by (rule seeds.replace_makes_absent) (rule key_match_finds)

lemma addresses_scanned: "absent (is_key ''GC'') (replace_matches address_match redacted s)"
  unfolding address_match_def by (rule addresses.replace_makes_absent) (rule key_match_finds)

lemma bearers_scanned: "absent is_bearer (replace_matches bearer_match redacted s)"
  by (rule bearers.replace_makes_absent) (rule bearer_match_finds)

lemma clean_scrub: "clean_string (scrubString s)"
  by (simp add: scrubString_def Let_def clean_redacted)
    (simp add: clean_string_def seeds_scanned bearers_scanned seeds.replace_keeps_absent)

lemma clean_replace: "clean_string s \<Longrightarrow> clean_string (replace_matches m redacted s)"
  by (simp add: clean_string_def seeds.replace_keeps_absent bearers.replace_keeps_absent)

lemma clean_short:
  assumes "length s < 56" "list_all (\<lambda>c. \<not> is_space c) s"
  shows "clean_string s"
proof -
  have "\<not> is_key ''SM'' u" if "sublist u s" for u
    using sublist_length_le [OF that] assms(1) by (simp add: is_key_def)
  moreover have "\<not> is_bearer u" if "sublist u s" for u
    using bearer_word [of u] set_mono_sublist [OF that] assms(2) unfolding list_all_iff by blast
  ultimately show ?thesis by (simp add: clean_string_def absent_def)
qed

fun string_leaves :: "json \<Rightarrow> string list" where
  "string_leaves (JStr s) = [s]"
| "string_leaves (JArr xs) = concat (map string_leaves xs)"
| "string_leaves (JObj es) = concat (map (\<lambda>(k, v). string_leaves v) es)"
| "string_leaves _ = []"

fun json_depth :: "json \<Rightarrow> nat" where
  "json_depth (JArr xs) = Suc (foldr max (map json_depth xs) 0)"
| "json_depth (JObj es) = Suc (foldr max (map (\<lambda>(k, v). json_depth v) es) 0)"
| "json_depth _ = 0"

text \<open>The entries stored under a sensitive key, at any level.\<close>

fun sensitive_values :: "json \<Rightarrow> json list" where
  "sensitive_values (JArr xs) = concat (map sensitive_values xs)"
| "sensitive_values (JObj es) =
     concat (map (\<lambda>(k, v). if isSensitiveKey k then [v] else sensitive_values v) es)"
| "sensitive_values _ = []"

lemma clean_truncated_depth: "clean_string ''[TRUNCATED_DEPTH]''"
  by (rule clean_short) (simp_all add: is_space_def code_of_def)

lemma redact_leaves_clean: "list_all clean_string (string_leaves (redact_at addr d v))"
proof (induction addr d v rule: redact_at.induct)
  case (1 addr d s)
  then show ?case by (simp add: clean_scrub clean_replace)
next
  case (8 addr d es)
  then show ?case
    by (cases "d \<ge> MAX_REDACT_DEPTH") (auto simp: list_all_iff clean_truncated_depth clean_redacted split: if_splits)
qed (auto simp: list_all_iff clean_truncated_depth)

lemma redact_hides_sensitive: "list_all (\<lambda>w. w = JStr redacted) (sensitive_values (redact_at addr d v))"
proof (induction addr d v rule: redact_at.induct)
  case (8 addr d es)
  then show ?case by (cases "d \<ge> MAX_REDACT_DEPTH") (auto simp: list_all_iff split: if_splits)
qed (auto simp: list_all_iff)

lemma foldr_max_le: "(\<And>x. x \<in> set xs \<Longrightarrow> x \<le> n) \<Longrightarrow> foldr max xs 0 \<le> (n::nat)"
  by (induction xs) auto

lemma redact_depth: "json_depth (redact_at addr d v) \<le> MAX_REDACT_DEPTH - d"
proof (induction addr d v rule: redact_at.induct)
  case (7 addr d xs)
  show ?case
  proof (cases "d \<ge> MAX_REDACT_DEPTH")
    case False
    then have "foldr max (map json_depth (map (redact_at addr (d + 1)) xs)) 0 \<le> MAX_REDACT_DEPTH - (d + 1)"
      using 7 by (intro foldr_max_le) auto
    then show ?thesis using False by simp
  qed simp
next
  case (8 addr d es)
  show ?case
  proof (cases "d \<ge> MAX_REDACT_DEPTH")
    case False
    let ?f = "\<lambda>(k, v). (k, if isSensitiveKey k then JStr redacted else redact_at addr (d + 1) v)"
    have "foldr max (map (\<lambda>(k, v). json_depth v) (map ?f es)) 0 \<le> MAX_REDACT_DEPTH - (d + 1)"
      using 8 False by (intro foldr_max_le) auto
    then show ?thesis using False by simp
  qed simp
qed simp_all

text \<open>
  C26. Whatever value is redacted, no string value of the outcome holds a secret seed
  (56 characters of base32 after \<open>S\<close> or \<open>M\<close>) or a bearer token anywhere inside it,
  every value under a sensitive key is the marker, and the outcome is at most
  \<open>MAX_REDACT_DEPTH\<close> levels deep.
\<close>

theorem redact_safe:
  "list_all clean_string (string_leaves (redact v)) \<and>
   list_all (\<lambda>w. w = JStr redacted) (sensitive_values (redact v)) \<and>
   json_depth (redact v) \<le> MAX_REDACT_DEPTH"
  using redact_leaves_clean redact_hides_sensitive redact_depth [of False 0]
  by (simp add: redact_def)

lemma bearer_no_space:
  "list_all (\<lambda>c. \<not> is_space c) s \<Longrightarrow> replace_matches bearer_match rep s = s"
proof (induction s)
  case (Cons c s)
  have "takeWhile is_space (drop 6 (c # s)) = []"
    using Cons.prems by (cases "drop 6 (c # s)")
      (auto simp: list_all_iff dest!: arg_cong [of _ _ set] in_set_dropD)
  then have "bearer_match (c # s) = 0" by (simp add: bearer_match_def)
  with Cons show ?case by simp
qed simp

lemma seed_skip:
  "list_all (\<lambda>c. c \<notin> set ''SM'') p \<Longrightarrow>
     replace_matches seed_match rep (p @ s) = p @ replace_matches seed_match rep s"
  by (induction p) (simp_all add: seed_match_def key_match_def)

definition twice_redacted :: string where
  "twice_redacted = CHR ''S'' # replicate 80 CHR ''x'' @ CHR ''S'' # replicate 55 CHR ''S''"

lemma scrub_once: "scrubString twice_redacted = CHR ''S'' # replicate 80 CHR ''x'' @ redacted"
proof -
  have head: "seed_match twice_redacted = 0"
    by (simp add: list_all_iff twice_redacted_def seed_match_def key_match_def is_base32_def is_upper_def code_of_def)
  have "seed_match (CHR ''S'' # replicate 55 CHR ''S'') = 56"
    by (simp add: list_all_iff seed_match_def key_match_def is_base32_def is_upper_def code_of_def)
  then have tail: "replace_matches seed_match redacted (CHR ''S'' # replicate 55 CHR ''S'') = redacted"
    by simp
  have "replace_matches seed_match redacted twice_redacted =
      CHR ''S'' # replicate 80 CHR ''x'' @ redacted"
    using head seed_skip [of "replicate 80 CHR ''x''" redacted "CHR ''S'' # replicate 55 CHR ''S''"] tail
    by (simp add: twice_redacted_def list_all_iff)
  moreover have "list_all (\<lambda>c. \<not> is_space c) (CHR ''S'' # replicate 80 CHR ''x'' @ redacted)"
    by (simp add: list_all_iff is_space_def code_of_def redacted_def)
  moreover have "\<not> looksLikeSecret twice_redacted" "length twice_redacted = 137"
    by (simp_all add: twice_redacted_def looksLikeSecret_def)
  ultimately show ?thesis
    by (simp add: scrubString_def MAX_SCANNABLE_STRING_LENGTH_def bearer_no_space
        del: replace_matches.simps)
qed

lemma scrub_again: "scrubString (CHR ''S'' # replicate 80 CHR ''x'' @ redacted) = redacted"
proof -
  have "looksLikeSecret (CHR ''S'' # replicate 80 CHR ''x'' @ redacted)"
    by (simp add: looksLikeSecret_def redacted_def startsWith_def)
  then show ?thesis by (simp add: scrubString_def)
qed

text \<open>
  Redaction is not idempotent: a long text that starts with an \<open>S\<close> and holds a
  seed keeps its prose the first time, and is replaced as a whole when the shortened
  text is redacted again.
\<close>

lemma redact_not_idempotent:
  "redact (JStr twice_redacted) = JStr (CHR ''S'' # replicate 80 CHR ''x'' @ redacted) \<and>
   redact (redact (JStr twice_redacted)) = JStr redacted"
  by (simp add: redact_def scrub_once scrub_again)

end
