(* ===== verification/Effects.thy ===== *)
theory Effects
  imports Redaction
begin

text \<open>
  The two side channels every component of the core writes to: telemetry records
  (\<open>emitTelemetry\<close> of \<open>core/telemetry/telemetry.ts\<close>) and audit inputs
  (\<open>recordAudit\<close> of \<open>core/audit/audit.ts\<close>). An operation of the model returns the
  effects it emits, in order, beside its result; the audit trail component consumes
  the audit inputs. No modelled component reads telemetry back, so a telemetry record
  keeps the operation name, the actor type, the result and the error code, which is
  scrubbed as the code scrubs it; latency, timestamp and payload are left out.
\<close>

datatype actor_kind = User | Maintainer | System

record audit_actor =
  actor_kind :: actor_kind
  actor_id :: "string option"

datatype audit_scope = Own_Scope | Maintainer_Scope

datatype audit_outcome = Allowed | Denied

text \<open>Values of a before/after context; \<open>Opaque\<close> is any object, array, function or symbol.\<close>

datatype scalar = SNull | SBool bool | SNum js_number | SStr string | SUndefined | Opaque

type_synonym context_map = "(string \<times> scalar) list"

record audit_input =
  in_action :: string
  in_actor :: audit_actor
  in_scope :: "audit_scope option"
  in_target_kind :: string
  in_target_id :: string
  in_reason :: "string option"
  in_outcome :: "audit_outcome option"
  in_before :: "context_map option"
  in_after :: "context_map option"
  in_at :: "string option"
  in_correlationId :: "string option"
  in_errorCode :: "string option"

record telemetry_event =
  tel_op :: string
  tel_actorType :: string
  tel_success :: bool
  tel_errorCode :: "string option"

datatype effect = Audit audit_input | Telemetry telemetry_event

definition emitTelemetry :: "string \<Rightarrow> string \<Rightarrow> bool \<Rightarrow> string option \<Rightarrow> effect" where
  "emitTelemetry op actor success code =
     Telemetry \<lparr>tel_op = op, tel_actorType = actor, tel_success = success,
       tel_errorCode = (case code of
          Some c \<Rightarrow> if c = [] then None else Some (scrubString c) | None \<Rightarrow> None)\<rparr>"

fun audits_of :: "effect list \<Rightarrow> audit_input list" where
  "audits_of [] = []"
| "audits_of (Audit a # es) = a # audits_of es"
| "audits_of (Telemetry _ # es) = audits_of es"

lemma audits_of_append [simp]: "audits_of (xs @ ys) = audits_of xs @ audits_of ys"
  by (induction xs rule: audits_of.induct) auto

lemma audits_of_emit [simp]: "audits_of (emitTelemetry a b c d # es) = audits_of es"
  by (simp add: emitTelemetry_def)

section \<open>Measured runs\<close>

text \<open>
  A run settles with a value or raises. A returned value is a failure when it is a
  \<open>Result\<close> in the error position; every other value counts as \<open>Ok\<close>. A raised value
  may carry a string \<open>code\<close>, and a name when it is an \<open>Error\<close>.
\<close>

record thrown =
  thrown_code :: "string option"
  thrown_name :: "string option"

datatype 'a run_outcome = Settled "('a, string) result" | Raised thrown

definition errorCodeOf :: "thrown \<Rightarrow> string option" where
  "errorCodeOf e = (case thrown_code e of Some c \<Rightarrow> Some c | None \<Rightarrow> thrown_name e)"

fun measure_record :: "string \<Rightarrow> string \<Rightarrow> 'a run_outcome \<Rightarrow> effect" where
  "measure_record op actor (Settled (Err code)) = emitTelemetry op actor False (Some code)"
| "measure_record op actor (Settled (Ok _)) = emitTelemetry op actor True None"
| "measure_record op actor (Raised e) = emitTelemetry op actor False (errorCodeOf e)"

text \<open>\<open>measure\<close> and \<open>measureSync\<close> pass the outcome on and emit one record.\<close>

definition measureSync :: "string \<Rightarrow> string \<Rightarrow> 'a run_outcome \<Rightarrow> 'a run_outcome \<times> effect list" where
  "measureSync op actor run = (run, [measure_record op actor run])"

lemma emitted_code_clean:
  "emitTelemetry op actor success code = Telemetry t \<Longrightarrow> tel_errorCode t = Some c \<Longrightarrow> clean_string c"
  by (auto simp: emitTelemetry_def clean_scrub split: option.splits if_splits)

end
