(* ===== verification/Idempotency.thy ===== *)
theory Idempotency
  imports Effects Iso_Time "HOL-Library.Word"
begin

unbundle bit_operations_syntax

text \<open>
  \<open>core/idempotency/idempotency.ts\<close>: the request digest, the store of recorded
  outcomes and the \<open>withIdempotency\<close> wrapper. The storage adapter is an ordered map
  from storage keys to cells; a cell is the record \<open>JSON.parse\<close> and \<open>isRecord\<close> accept,
  or anything they refuse. \<open>createdAt\<close> and \<open>expiresAt\<close> are the instants they print. The
  clock value and the fresh correlation id of a call are arguments.
\<close>

section \<open>Request digest\<close>

text \<open>FNV-1a on 32-bit words: \<open>Math.imul\<close> and \<open>^\<close> work modulo \<open>2^32\<close>.\<close>

definition fnv1a :: "string \<Rightarrow> 32 word" where
  "fnv1a source =
     foldl (\<lambda>hash c. (hash XOR of_nat (code_of c)) * 16777619) 2166136261 source"

definition requestDigest :: "json \<Rightarrow> string" where
  "requestDigest request =
     ''req-'' @ padStart 8 CHR ''0'' (hex_text (unat (fnv1a (canonicalize request))))"

text \<open>\<open>request ?? null\<close>\<close>

definition or_null :: "json \<Rightarrow> json" where
  "or_null v = (if v = JUndef then JNull else v)"

definition isValidIdempotencyKey :: "string \<Rightarrow> bool" where
  "isValidIdempotencyKey key =
     (8 \<le> length key \<and> length key \<le> 128 \<and>
      list_all (\<lambda>c. is_upper c \<or> is_lower c \<or> is_digit c \<or> c \<in> set ''._:-'') key)"

section \<open>State\<close>

datatype idem_status = In_Flight | Completed | Failed

datatype idem_error =
    Key_Missing | Key_Invalid | Key_Expired | Key_Conflict | Key_In_Flight | Key_Not_Found

record idem_record =
  idem_key :: string
  idem_operation :: string
  idem_hash :: string
  idem_status :: idem_status
  idem_response :: json
  idem_errorCode :: "string option"
  idem_createdAt :: int
  idem_expiresAt :: int
  idem_replays :: nat
  idem_correlationId :: string

datatype idem_cell = Idem_Stored idem_record | Idem_Corrupt

text \<open>
  \<open>enumerable\<close> tells whether the adapter has a \<open>keys\<close> function: the in-memory adapter
  and \<open>localStorage\<close> have none.
\<close>

record idem_store =
  idem_storage :: "(string, idem_cell) js_map"
  idem_known :: "string list"
  idem_ttl :: int
  idem_enumerable :: bool

record begin_request =
  req_key :: "string option"
  req_operation :: string
  req_request :: json
  req_correlationId :: "string option"

datatype begin_outcome = Claimed idem_record | Replayed idem_record

definition IDEMPOTENCY_STORAGE_PREFIX :: string where
  "IDEMPOTENCY_STORAGE_PREFIX = ''utix:idempotency:v1:''"

definition IDEMPOTENCY_DEFAULT_TTL_MS :: int where
  "IDEMPOTENCY_DEFAULT_TTL_MS = 24 * 60 * 60 * 1000"

definition storageKey :: "string \<Rightarrow> string" where
  "storageKey key = IDEMPOTENCY_STORAGE_PREFIX @ key"

definition createIdempotencyStore ::
  "int option \<Rightarrow> (string, idem_cell) js_map \<Rightarrow> bool \<Rightarrow> idem_store" where
  "createIdempotencyStore ttl storage enumerable =
     \<lparr>idem_storage = storage, idem_known = [],
      idem_ttl = (case ttl of None \<Rightarrow> IDEMPOTENCY_DEFAULT_TTL_MS | Some t \<Rightarrow> t),
      idem_enumerable = enumerable\<rparr>"

section \<open>Storage access\<close>

definition idem_read :: "idem_store \<Rightarrow> string \<Rightarrow> idem_record option" where
  "idem_read s key =
     (case map_get (idem_storage s) (storageKey key) of
        Some (Idem_Stored r) \<Rightarrow> Some r
      | _ \<Rightarrow> None)"

text \<open>The response as \<open>write\<close> persists it: only objects and arrays are redacted.\<close>

definition persisted_response :: "json \<Rightarrow> json" where
  "persisted_response v =
     (case v of JArr _ \<Rightarrow> redact v | JObj _ \<Rightarrow> redact v | _ \<Rightarrow> v)"

text \<open>\<open>write\<close>; \<open>None\<close> is the exception \<open>JSON.stringify\<close> throws on a BigInt.\<close>

definition idem_write :: "idem_record \<Rightarrow> idem_store \<Rightarrow> idem_store option" where
  "idem_write r s =
     (let resp = persisted_response (idem_response r) in
      if no_big resp
      then Some (s\<lparr>idem_storage := map_set (storageKey (idem_key r))
             (Idem_Stored (r\<lparr>idem_response := json_clone resp\<rparr>)) (idem_storage s)\<rparr>)
      else None)"

definition idem_remove :: "string \<Rightarrow> idem_store \<Rightarrow> idem_store" where
  "idem_remove key s = s\<lparr>idem_storage := map_remove (storageKey key) (idem_storage s)\<rparr>"

fun stored_records :: "(string \<times> idem_cell) list \<Rightarrow> idem_record list" where
  "stored_records [] = []"
| "stored_records ((k, Idem_Stored r) # cells) =
     (if startsWith k IDEMPOTENCY_STORAGE_PREFIX then r # stored_records cells
      else stored_records cells)"
| "stored_records ((k, Idem_Corrupt) # cells) = stored_records cells"

definition idem_all :: "idem_store \<Rightarrow> idem_record list" where
  "idem_all s =
     (if idem_enumerable s then stored_records (idem_storage s)
      else List.map_filter (idem_read s) (idem_known s))"

text \<open>The record \<open>claim\<close> builds and writes; its response is \<open>undefined\<close>.\<close>

definition claim_record :: "idem_store \<Rightarrow> int \<Rightarrow> string \<Rightarrow> string \<Rightarrow> begin_request \<Rightarrow> idem_record" where
  "claim_record s now cid key request =
     \<lparr>idem_key = key, idem_operation = req_operation request,
      idem_hash = requestDigest (or_null (req_request request)),
      idem_status = In_Flight, idem_response = JUndef, idem_errorCode = None,
      idem_createdAt = now, idem_expiresAt = now + idem_ttl s, idem_replays = 0,
      idem_correlationId = (case req_correlationId request of Some c \<Rightarrow> c | None \<Rightarrow> cid)\<rparr>"

definition idem_save :: "idem_record \<Rightarrow> idem_store \<Rightarrow> idem_store" where
  "idem_save r s = (case idem_write r s of Some s' \<Rightarrow> s' | None \<Rightarrow> s)"

definition claim :: "idem_store \<Rightarrow> int \<Rightarrow> string \<Rightarrow> string \<Rightarrow> begin_request \<Rightarrow> idem_record \<times> idem_store" where
  "claim s now cid key request =
     (let r = claim_record s now cid key request in
      (r, idem_save r (s\<lparr>idem_known := set_add key (idem_known s)\<rparr>)))"

section \<open>Operations\<close>

definition idem_rejected :: "string \<Rightarrow> effect" where
  "idem_rejected code = emitTelemetry ''idempotency.rejected'' ''system'' False (Some code)"

text \<open>
  A record that was read back holds no BigInt, so the write of a replay cannot throw;
  \<open>idem_save\<close> is the write that does not.
\<close>

definition begin_existing ::
  "idem_store \<Rightarrow> int \<Rightarrow> begin_request \<Rightarrow> idem_record \<Rightarrow>
     (begin_outcome, idem_error) result \<times> idem_store \<times> effect list" where
  "begin_existing s now request existing =
     (if idem_expiresAt existing \<le> now then
        (Err Key_Expired, idem_remove (idem_key existing) s, [idem_rejected ''idempotency_key_expired''])
      else if idem_hash existing \<noteq> requestDigest (or_null (req_request request)) then
        (Err Key_Conflict, s, [idem_rejected ''idempotency_key_conflict''])
      else if idem_operation existing \<noteq> req_operation request then
        (Err Key_Conflict, s, [idem_rejected ''idempotency_key_conflict''])
      else if idem_status existing = In_Flight then
        (Err Key_In_Flight, s, [idem_rejected ''idempotency_in_flight''])
      else
        let replayed = existing\<lparr>idem_replays := idem_replays existing + 1\<rparr> in
        (Ok (Replayed replayed), idem_save replayed s,
         [emitTelemetry ''idempotency.replayed'' ''system'' True None]))"

definition idem_begin ::
  "idem_store \<Rightarrow> int \<Rightarrow> string \<Rightarrow> begin_request \<Rightarrow>
     (begin_outcome, idem_error) result \<times> idem_store \<times> effect list" where
  "idem_begin s now cid request =
     (case req_key request of
        None \<Rightarrow> (Err Key_Missing, s, [idem_rejected ''idempotency_key_missing''])
      | Some key \<Rightarrow>
          if key = [] then (Err Key_Missing, s, [idem_rejected ''idempotency_key_missing''])
          else if \<not> isValidIdempotencyKey key then
            (Err Key_Invalid, s, [idem_rejected ''idempotency_key_invalid''])
          else
            case idem_read s key of
              None \<Rightarrow>
                let (record, s') = claim s now cid key request in
                (Ok (Claimed record), s', [emitTelemetry ''idempotency.claimed'' ''system'' True None])
            | Some existing \<Rightarrow> begin_existing s now request existing)"

text \<open>
  \<open>complete\<close> returns the unredacted record. \<open>Throws_TypeError\<close> is the exception of the
  write; nothing was stored then.
\<close>

definition idem_complete ::
  "idem_store \<Rightarrow> string \<Rightarrow> json \<Rightarrow> (idem_record, idem_error) result js_call \<times> idem_store \<times> effect list" where
  "idem_complete s key response =
     (case idem_read s key of
        None \<Rightarrow> (Returns (Err Key_Not_Found), s, [])
      | Some existing \<Rightarrow>
          if idem_status existing \<noteq> In_Flight then (Returns (Err Key_In_Flight), s, [])
          else
            let record = existing\<lparr>idem_status := Completed, idem_response := response\<rparr> in
            case idem_write record s of
              None \<Rightarrow> (Throws_TypeError, s, [])
            | Some s' \<Rightarrow>
                (Returns (Ok record), s', [emitTelemetry ''idempotency.completed'' ''system'' True None]))"

definition idem_fail ::
  "idem_store \<Rightarrow> string \<Rightarrow> string \<Rightarrow> (idem_record, idem_error) result \<times> idem_store \<times> effect list" where
  "idem_fail s key errorCode =
     (case idem_read s key of
        None \<Rightarrow> (Err Key_Not_Found, s, [])
      | Some existing \<Rightarrow>
          if idem_status existing \<noteq> In_Flight then (Err Key_In_Flight, s, [])
          else
            let record = existing\<lparr>idem_status := Failed, idem_errorCode := Some errorCode\<rparr> in
            (Ok record, idem_save record s,
             [emitTelemetry ''idempotency.failed'' ''system'' False (Some errorCode)]))"

definition released_audit :: "idem_record \<Rightarrow> audit_input" where
  "released_audit existing =
     \<lparr>in_action = ''idempotency.claim_released'',
      in_actor = \<lparr>actor_kind = System, actor_id = Some (idem_operation existing)\<rparr>,
      in_scope = None, in_target_kind = ''idempotency_record'', in_target_id = idem_key existing,
      in_reason = Some ''claim_abandoned'', in_outcome = None,
      in_before = Some [(''status'', SStr ''in_flight''), (''operation'', SStr (idem_operation existing))],
      in_after = None, in_at = Some (toISOString (idem_createdAt existing)),
      in_correlationId = Some (idem_correlationId existing), in_errorCode = None\<rparr>"

definition idem_abandon ::
  "idem_store \<Rightarrow> string \<Rightarrow> (bool, idem_error) result \<times> idem_store \<times> effect list" where
  "idem_abandon s key =
     (case idem_read s key of
        None \<Rightarrow> (Err Key_Not_Found, s, [])
      | Some existing \<Rightarrow>
          if idem_status existing \<noteq> In_Flight then (Err Key_In_Flight, s, [])
          else (Ok True, idem_remove key s, [Audit (released_audit existing)]))"

definition idem_lookup :: "idem_store \<Rightarrow> int \<Rightarrow> string \<Rightarrow> (idem_record, idem_error) result \<times> idem_store" where
  "idem_lookup s now key =
     (case idem_read s key of
        None \<Rightarrow> (Err Key_Not_Found, s)
      | Some record \<Rightarrow>
          if idem_expiresAt record \<le> now then (Err Key_Expired, idem_remove (idem_key record) s)
          else (Ok record, s))"

fun sweep_records :: "int \<Rightarrow> idem_record list \<Rightarrow> nat \<times> idem_store \<Rightarrow> nat \<times> idem_store" where
  "sweep_records at [] acc = acc"
| "sweep_records at (r # rs) (dropped, s) =
     (if idem_expiresAt r \<le> at
      then let s' = idem_remove (idem_key r) s in
           sweep_records at rs (dropped + 1, s'\<lparr>idem_known := removeAll (idem_key r) (idem_known s')\<rparr>)
      else sweep_records at rs (dropped, s))"

definition idem_sweep :: "idem_store \<Rightarrow> int \<Rightarrow> nat \<times> idem_store \<times> effect list" where
  "idem_sweep s at =
     (let (dropped, s') = sweep_records at (idem_all s) (0, s) in
      (dropped, s',
       if dropped > 0 then [emitTelemetry ''idempotency.swept'' ''system'' True None] else []))"

definition idem_list :: "idem_store \<Rightarrow> idem_record list" where
  "idem_list s = idem_all s"

definition idem_reset :: "idem_store \<Rightarrow> idem_store" where
  "idem_reset s = (fold (\<lambda>r. idem_remove (idem_key r)) (idem_all s) s)\<lparr>idem_known := []\<rparr>"

section \<open>The wrapper\<close>

text \<open>
  \<open>withIdempotency\<close> up to the \<open>await\<close> of the run, and after it: other calls may reach
  the store in between, so the second part takes the store as it then is. An error is
  a code of the store or a code of the work.
\<close>

datatype wrapper_error = Store_Error idem_error | Run_Error string

record idem_outcome =
  out_value :: json
  out_replayed :: bool
  out_record :: idem_record

datatype wrapper_phase =
    Wrapper_Returned "(idem_outcome, wrapper_error) result"
  | Wrapper_Running

definition withIdempotency_begin ::
  "idem_store \<Rightarrow> int \<Rightarrow> string \<Rightarrow> begin_request \<Rightarrow> wrapper_phase \<times> idem_store \<times> effect list" where
  "withIdempotency_begin s now cid request =
     (case idem_begin s now cid request of
        (Err e, s', fx) \<Rightarrow> (Wrapper_Returned (Err (Store_Error e)), s', fx)
      | (Ok (Replayed record), s', fx) \<Rightarrow>
          (Wrapper_Returned
             (if idem_status record = Failed
              then Err (Run_Error (case idem_errorCode record of
                          Some c \<Rightarrow> c | None \<Rightarrow> ''idempotency_replay_failed''))
              else Ok \<lparr>out_value = idem_response record, out_replayed = True, out_record = record\<rparr>),
           s', fx)
      | (Ok (Claimed record), s', fx) \<Rightarrow> (Wrapper_Running, s', fx))"

definition thrown_text :: "thrown \<Rightarrow> string" where
  "thrown_text e = (case thrown_name e of Some n \<Rightarrow> n | None \<Rightarrow> ''unknown'')"

definition withIdempotency_settle ::
  "idem_store \<Rightarrow> string \<Rightarrow> json run_outcome \<Rightarrow>
     (idem_outcome, wrapper_error) result \<times> idem_store \<times> effect list" where
  "withIdempotency_settle s key run =
     (case run of
        Settled (Ok v) \<Rightarrow>
          (case idem_complete s key v of
             (Returns (Ok record), s', fx) \<Rightarrow>
               (Ok \<lparr>out_value = v, out_replayed = False, out_record = record\<rparr>, s', fx)
           | (Returns (Err e), s', fx) \<Rightarrow> (Err (Store_Error e), s', fx)
           | (Throws_TypeError, s', fx) \<Rightarrow>
               let (_, s'', fx') = idem_fail s' key ''TypeError'' in
               (Err (Run_Error ''TypeError''), s'', fx @ fx'))
      | Settled (Err code) \<Rightarrow>
          (case idem_fail s key code of
             (Ok _, s', fx) \<Rightarrow> (Err (Run_Error code), s', fx)
           | (Err e, s', fx) \<Rightarrow> (Err (Store_Error e), s', fx))
      | Raised e \<Rightarrow>
          let (_, s', fx) = idem_fail s key (thrown_text e) in
          (Err (Run_Error (thrown_text e)), s', fx))"

section \<open>Reading after writing\<close>

lemma storageKey_inject [simp]: "storageKey a = storageKey b \<longleftrightarrow> a = b"
  by (simp add: storageKey_def)

lemma no_big_persisted: "no_big v \<Longrightarrow> no_big (persisted_response v)"
  by (cases v) (simp_all add: persisted_response_def redact_def no_big_redact del: redact_at.simps)

definition idem_wf :: "idem_store \<Rightarrow> bool" where
  "idem_wf s = (map_wf (idem_storage s) \<and>
     (\<forall>k r. idem_read s k = Some r \<longrightarrow> idem_key r = k \<and> no_big (idem_response r)))"

lemma idem_wf_read: "idem_wf s \<Longrightarrow> idem_read s k = Some r \<Longrightarrow> idem_key r = k \<and> no_big (idem_response r)"
  by (simp add: idem_wf_def)

lemma read_remove: "idem_read (idem_remove k s) k' = (if k' = k then None else idem_read s k')"
  by (simp add: idem_read_def idem_remove_def map_get_remove)

lemma read_write:
  "idem_write r s = Some s' \<Longrightarrow> idem_read s' k =
     (if k = idem_key r then Some (r\<lparr>idem_response := json_clone (persisted_response (idem_response r))\<rparr>)
      else idem_read s k)"
  by (auto simp: idem_write_def Let_def idem_read_def map_get_set split: if_splits)

lemma read_known [simp]: "idem_read (s\<lparr>idem_known := ks\<rparr>) k = idem_read s k"
  by (simp add: idem_read_def)

lemma write_no_big: "no_big (idem_response r) \<Longrightarrow> \<exists>s'. idem_write r s = Some s'"
  by (simp add: idem_write_def Let_def no_big_persisted)

lemma read_save:
  "no_big (idem_response r) \<Longrightarrow> idem_read (idem_save r s) k =
     (if k = idem_key r then Some (r\<lparr>idem_response := json_clone (persisted_response (idem_response r))\<rparr>)
      else idem_read s k)"
  using write_no_big [of r s] by (auto simp: idem_save_def read_write)

lemma wf_remove [intro]: "idem_wf s \<Longrightarrow> idem_wf (idem_remove k s)"
  unfolding idem_wf_def by (auto simp: read_remove split: if_splits) (simp add: idem_remove_def)

lemma wf_known [intro]: "idem_wf s \<Longrightarrow> idem_wf (s\<lparr>idem_known := ks\<rparr>)"
  by (simp add: idem_wf_def)

lemma wf_write [intro]: "idem_wf s \<Longrightarrow> idem_write r s = Some s' \<Longrightarrow> idem_wf s'"
proof -
  assume s: "idem_wf s" and w: "idem_write r s = Some s'"
  have big: "no_big (json_clone (persisted_response (idem_response r)))"
    and storage: "map_wf (idem_storage s')"
    using w s by (auto simp: idem_write_def Let_def idem_wf_def no_big_clone split: if_splits)
  then show "idem_wf s'"
    using s by (auto simp: idem_wf_def read_write [OF w] split: if_splits)
qed

lemma wf_save [intro]: "idem_wf s \<Longrightarrow> idem_wf (idem_save r s)"
  by (auto simp: idem_save_def split: option.split)

lemma stored_records_mem:
  "r \<in> set (stored_records cells) \<longleftrightarrow>
     (\<exists>K. (K, Idem_Stored r) \<in> set cells \<and> startsWith K IDEMPOTENCY_STORAGE_PREFIX)"
  by (induction cells rule: stored_records.induct) auto

lemma idem_all_read:
  assumes "idem_wf s" "r \<in> set (idem_all s)"
  shows "idem_read s (idem_key r) = Some r"
proof (cases "idem_enumerable s")
  case True
  then obtain k where "(storageKey k, Idem_Stored r) \<in> set (idem_storage s)"
    using assms(2) by (auto simp: idem_all_def stored_records_mem startsWith_iff storageKey_def)
  then have "idem_read s k = Some r"
    using assms(1) by (simp add: idem_read_def idem_wf_def map_wf_get_iff [symmetric])
  with idem_wf_read [OF assms(1) this] show ?thesis by simp
next
  case False
  then obtain k where "idem_read s k = Some r"
    using assms(2) by (auto simp: idem_all_def map_filter_def)
  with idem_wf_read [OF assms(1) this] show ?thesis by simp
qed

lemma sweep_records_read:
  "idem_read (snd (sweep_records at rs (n, s))) k =
     (if \<exists>r \<in> set rs. idem_key r = k \<and> idem_expiresAt r \<le> at then None else idem_read s k)"
  by (induction rs arbitrary: n s) (auto simp: Let_def read_remove)

lemma sweep_records_wf: "idem_wf s \<Longrightarrow> idem_wf (snd (sweep_records at rs (n, s)))"
  by (induction rs arbitrary: n s) (simp_all add: Let_def wf_remove wf_known)

section \<open>Runs of the store\<close>

datatype idem_event =
    E_Begin int string begin_request
  | E_Complete string json
  | E_Fail string string
  | E_Abandon string
  | E_Lookup int string
  | E_Sweep int
  | E_List
  | E_Reset

fun idem_step :: "idem_store \<Rightarrow> idem_event \<Rightarrow> idem_store" where
  "idem_step s (E_Begin now cid request) = fst (snd (idem_begin s now cid request))"
| "idem_step s (E_Complete key response) = fst (snd (idem_complete s key response))"
| "idem_step s (E_Fail key code) = fst (snd (idem_fail s key code))"
| "idem_step s (E_Abandon key) = fst (snd (idem_abandon s key))"
| "idem_step s (E_Lookup now key) = snd (idem_lookup s now key)"
| "idem_step s (E_Sweep at) = fst (snd (idem_sweep s at))"
| "idem_step s E_List = s"
| "idem_step s E_Reset = idem_reset s"

lemma wf_begin: "idem_wf s \<Longrightarrow> idem_wf (fst (snd (idem_begin s now cid request)))"
  by (auto simp: idem_begin_def begin_existing_def claim_def Let_def
      split: option.split intro!: wf_save wf_known wf_remove)

lemma wf_fold_remove: "idem_wf s \<Longrightarrow> idem_wf (fold (\<lambda>r. idem_remove (idem_key r)) rs s)"
  by (induction rs arbitrary: s) auto

lemma wf_step: "idem_wf s \<Longrightarrow> idem_wf (idem_step s e)"
proof (cases e)
  case (E_Complete k v)
  then show "idem_wf s \<Longrightarrow> ?thesis"
    by (auto simp: idem_complete_def Let_def split: option.split)
next
  case (E_Fail k c)
  then show "idem_wf s \<Longrightarrow> ?thesis"
    by (auto simp: idem_fail_def Let_def split: option.split)
next
  case (E_Abandon k)
  then show "idem_wf s \<Longrightarrow> ?thesis"
    by (auto simp: idem_abandon_def split: option.split)
next
  case (E_Lookup now k)
  then show "idem_wf s \<Longrightarrow> ?thesis"
    by (auto simp: idem_lookup_def split: option.split)
next
  case (E_Sweep at)
  then show "idem_wf s \<Longrightarrow> ?thesis"
    using sweep_records_wf [of s at "idem_all s" 0]
    by (simp add: idem_sweep_def case_prod_beta Let_def)
qed (auto simp: wf_begin idem_reset_def intro: wf_known wf_fold_remove)

interpretation idem_runs: step_system idem_step idem_wf
  by unfold_locales (rule wf_step)

text \<open>An event that reads the clock reads it before \<open>T\<close>.\<close>

fun idem_before :: "int \<Rightarrow> idem_event \<Rightarrow> bool" where
  "idem_before T (E_Begin now _ _) = (now < T)"
| "idem_before T (E_Lookup now _) = (now < T)"
| "idem_before T (E_Sweep at) = (at < T)"
| "idem_before T _ = True"

text \<open>A response the write leaves as it is.\<close>

definition stable_response :: "json \<Rightarrow> bool" where
  "stable_response v = (json_clone (persisted_response v) = v)"

lemma object_persisted [simp]: "is_object v \<Longrightarrow> is_object (json_clone (persisted_response v))"
  by (cases v) (simp_all add: persisted_response_def redact_def MAX_REDACT_DEPTH_def)

text \<open>What later events keep of a record: its identity, and its outcome once it has one.\<close>

definition idem_kept :: "idem_record \<Rightarrow> idem_record \<Rightarrow> bool" where
  "idem_kept r r' =
     (idem_hash r' = idem_hash r \<and> idem_operation r' = idem_operation r \<and>
      idem_expiresAt r' = idem_expiresAt r \<and>
      (idem_status r \<noteq> In_Flight \<longrightarrow> idem_status r' = idem_status r \<and>
         idem_errorCode r' = idem_errorCode r \<and>
         (is_object (idem_response r) \<longrightarrow> is_object (idem_response r')) \<and>
         (stable_response (idem_response r) \<longrightarrow> idem_response r' = idem_response r)))"

lemma idem_kept_refl [simp]: "idem_kept r r"
  by (simp add: idem_kept_def)

lemma idem_kept_trans: "idem_kept r r' \<Longrightarrow> idem_kept r' r'' \<Longrightarrow> idem_kept r r''"
  by (auto simp: idem_kept_def)

lemma begin_kept:
  assumes wf: "idem_wf s" and r: "idem_read s k = Some r" and T: "T \<le> idem_expiresAt r" "now < T"
  shows "\<exists>r'. idem_read (fst (snd (idem_begin s now cid q))) k = Some r' \<and> idem_kept r r'"
proof (cases "\<exists>k' e. req_key q = Some k' \<and> k' \<noteq> [] \<and> isValidIdempotencyKey k' \<and> idem_read s k' = Some e")
  case False
  then show ?thesis
    using r by (auto simp: idem_begin_def claim_def Let_def read_save claim_record_def
        split: option.split)
next
  case True
  then obtain k' e where k': "req_key q = Some k'" "k' \<noteq> []" "isValidIdempotencyKey k'"
    "idem_read s k' = Some e" by blast
  from idem_wf_read [OF wf k'(4)] have e: "idem_key e = k'" "no_big (idem_response e)" by auto
  show ?thesis
  proof (cases "k' = k")
    case same: True
    with r k' have "e = r" by simp
    then show ?thesis
      using r k' e T same
      by (auto simp: idem_begin_def begin_existing_def Let_def read_save idem_kept_def stable_response_def)
  next
    case other: False
    then show ?thesis
      using r k' e
      by (auto simp: idem_begin_def begin_existing_def Let_def read_save read_remove)
  qed
qed

lemma settle_kept:
  assumes "idem_wf s" "idem_read s k = Some r"
  shows "\<exists>r'. idem_read (fst (snd (idem_complete s k' v))) k = Some r' \<and> idem_kept r r'"
    and "\<exists>r'. idem_read (fst (snd (idem_fail s k' c))) k = Some r' \<and> idem_kept r r'"
  using assms idem_wf_read [OF assms(1), of k']
  by (auto simp: idem_complete_def idem_fail_def Let_def read_write read_save idem_kept_def
      split: option.split)

lemma step_kept:
  assumes wf: "idem_wf s" and r: "idem_read s k = Some r" and T: "T \<le> idem_expiresAt r"
    and e: "idem_before T e" "e \<noteq> E_Reset" "idem_status r = In_Flight \<Longrightarrow> e \<noteq> E_Abandon k"
  shows "\<exists>r'. idem_read (idem_step s e) k = Some r' \<and> idem_kept r r'"
proof (cases e)
  case (E_Abandon k')
  with wf r e(3) show ?thesis
    by (cases "k' = k") (auto simp: idem_abandon_def read_remove split: option.split)
next
  case (E_Lookup now k')
  with wf r T e(1) idem_wf_read [OF wf, of k'] show ?thesis
    by (cases "k' = k") (auto simp: idem_lookup_def read_remove split: option.split)
next
  case (E_Sweep at)
  have "\<not> (\<exists>r' \<in> set (idem_all s). idem_key r' = k \<and> idem_expiresAt r' \<le> at)"
    using idem_all_read [OF wf] r T e(1) E_Sweep by fastforce
  with E_Sweep r show ?thesis
    by (auto simp: idem_sweep_def case_prod_beta Let_def sweep_records_read)
qed (use e r T begin_kept [OF wf r] settle_kept [OF wf r] in auto)

lemma run_kept:
  assumes "idem_wf s" "idem_read s k = Some r" "T \<le> idem_expiresAt r"
    "list_all (idem_before T) es" "E_Reset \<notin> set es"
    "idem_status r = In_Flight \<Longrightarrow> E_Abandon k \<notin> set es"
  shows "\<exists>r'. idem_read (foldl idem_step s es) k = Some r' \<and> idem_kept r r'"
  using assms
proof (induction es arbitrary: s r)
  case (Cons e es)
  then obtain r' where r': "idem_read (idem_step s e) k = Some r'" "idem_kept r r'"
    using step_kept [of s k r T e] by auto
  moreover have "idem_wf (idem_step s e)" by (rule wf_step) (rule Cons.prems)
  ultimately obtain r'' where "idem_read (foldl idem_step (idem_step s e) es) k = Some r''" "idem_kept r' r''"
    using Cons.IH [of "idem_step s e" r'] Cons.prems by (auto simp: idem_kept_def)
  with r'(2) idem_kept_trans show ?case by auto
qed auto

text \<open>The stores a client reaches through the operations before \<open>T\<close>, a reset excepted.\<close>

definition idem_reached :: "int \<Rightarrow> idem_store \<Rightarrow> idem_store \<Rightarrow> bool" where
  "idem_reached T s s' =
     (\<exists>es. s' = foldl idem_step s es \<and> list_all (idem_before T) es \<and> E_Reset \<notin> set es)"

lemma idem_reached_refl [simp]: "idem_reached T s s"
  unfolding idem_reached_def by (rule exI [of _ "[]"]) simp

lemma idem_reached_trans: "idem_reached T a b \<Longrightarrow> idem_reached T b c \<Longrightarrow> idem_reached T a c"
  unfolding idem_reached_def
proof (elim exE conjE)
  fix es es' assume "b = foldl idem_step a es" "list_all (idem_before T) es" "E_Reset \<notin> set es"
    "c = foldl idem_step b es'" "list_all (idem_before T) es'" "E_Reset \<notin> set es'"
  then show "\<exists>es. c = foldl idem_step a es \<and> list_all (idem_before T) es \<and> E_Reset \<notin> set es"
    by (intro exI [of _ "es @ es'"]) simp
qed

lemma idem_reached_step:
  "idem_before T e \<Longrightarrow> e \<noteq> E_Reset \<Longrightarrow> idem_reached T s (idem_step s e)"
  unfolding idem_reached_def by (rule exI [of _ "[e]"]) simp

lemma idem_reached_calls [intro]:
  "now < T \<Longrightarrow> idem_reached T s (fst (snd (idem_begin s now cid q)))"
  "idem_reached T s (fst (snd (idem_complete s k v)))"
  "idem_reached T s (fst (snd (idem_abandon s k)))"
  using idem_reached_step [of T "E_Begin now cid q" s] idem_reached_step [of T "E_Complete k v" s]
    idem_reached_step [of T "E_Abandon k" s]
  by simp_all

section \<open>Replay protection\<close>

lemma valid_key_nonempty: "isValidIdempotencyKey k \<Longrightarrow> k \<noteq> []"
  by (auto simp: isValidIdempotencyKey_def)

lemma begin_Claimed:
  "fst (idem_begin s now cid q) = Ok (Claimed r) \<longleftrightarrow>
     (\<exists>k. req_key q = Some k \<and> isValidIdempotencyKey k \<and> idem_read s k = None \<and>
        r = claim_record s now cid k q)"
  using valid_key_nonempty
  by (auto simp: idem_begin_def begin_existing_def claim_def Let_def split: option.split)

lemma begin_claims_store:
  assumes "idem_begin s now cid q = (Ok (Claimed r), s', fx)" "req_key q = Some k"
  shows "idem_read s' k = Some r \<and> idem_expiresAt r = now + idem_ttl s \<and> idem_status r = In_Flight"
  using assms
  by (auto simp: idem_begin_def begin_existing_def claim_def Let_def read_save claim_record_def
      persisted_response_def split: option.splits if_splits)

text \<open>
  C8. One claim per key: once a call claimed a key, no later call with that key is
  told to run the work again, whatever calls reach the store in between (for this or
  any other key), as long as the clock has not reached the expiry of the claim and
  the claim was neither abandoned nor the store reset.
\<close>

theorem claimed_once:
  assumes "idem_wf s" "req_key q = Some k"
    and claimed: "idem_begin s now cid q = (Ok (Claimed r), s', fx)"
    and later: "list_all (idem_before (now + idem_ttl s)) es" "E_Reset \<notin> set es" "E_Abandon k \<notin> set es"
    and again: "req_key q' = Some k"
  shows "fst (idem_begin (foldl idem_step s' es) now' cid' q') \<noteq> Ok (Claimed r')"
proof
  assume fresh: "fst (idem_begin (foldl idem_step s' es) now' cid' q') = Ok (Claimed r')"
  have "idem_wf s'" using wf_begin [OF assms(1), of now cid q] claimed by simp
  with begin_claims_store [OF claimed assms(2)] later
  obtain r'' where "idem_read (foldl idem_step s' es) k = Some r''"
    using run_kept [of s' k r "now + idem_ttl s" es] by auto
  with fresh again show False by (auto simp: begin_Claimed)
qed

text \<open>What a run leaves in the store, and what a later attempt is answered with.\<close>

definition recorded_result :: "json run_outcome \<Rightarrow> (json, wrapper_error) result" where
  "recorded_result run =
     (case run of
        Settled (Ok v) \<Rightarrow>
          if no_big (persisted_response v) then Ok (json_clone (persisted_response v))
          else Err (Run_Error ''TypeError'')
      | Settled (Err c) \<Rightarrow> Err (Run_Error c)
      | Raised e \<Rightarrow> Err (Run_Error (thrown_text e)))"

definition answers :: "idem_record \<Rightarrow> (json, wrapper_error) result" where
  "answers r =
     (if idem_status r = Failed
      then Err (Run_Error (case idem_errorCode r of Some c \<Rightarrow> c | None \<Rightarrow> ''idempotency_replay_failed''))
      else Ok (idem_response r))"

definition stable_outcome :: "json run_outcome \<Rightarrow> bool" where
  "stable_outcome run =
     (case run of Settled (Ok v) \<Rightarrow> stable_response (json_clone (persisted_response v)) | _ \<Rightarrow> True)"

lemma settle_records:
  assumes "idem_wf s" "idem_read s k = Some r" "idem_status r = In_Flight"
    "withIdempotency_settle s k run = (res, s', fx)"
  shows "\<exists>r'. idem_read s' k = Some r' \<and> idem_status r' \<noteq> In_Flight \<and> idem_hash r' = idem_hash r \<and>
    idem_operation r' = idem_operation r \<and> idem_expiresAt r' = idem_expiresAt r \<and>
    answers r' = recorded_result run \<and>
    (idem_status r' \<noteq> Failed \<longrightarrow> stable_outcome run \<longrightarrow> stable_response (idem_response r'))"
proof -
  from idem_wf_read [OF assms(1,2)] have r: "idem_key r = k" "no_big (idem_response r)" by auto
  have fail: "idem_read (fst (snd (idem_fail s k c))) k =
      Some (r\<lparr>idem_status := Failed, idem_errorCode := Some c,
        idem_response := json_clone (persisted_response (idem_response r))\<rparr>)"
    "fst (idem_fail s k c) = Ok (r\<lparr>idem_status := Failed, idem_errorCode := Some c\<rparr>)" for c
    using assms(2,3) r by (auto simp: idem_fail_def Let_def read_save)
  have complete: "\<exists>s'' fx. idem_complete s k v =
      (Returns (Ok (r\<lparr>idem_status := Completed, idem_response := v\<rparr>)), s'', fx) \<and>
      idem_read s'' k = Some (r\<lparr>idem_status := Completed,
        idem_response := json_clone (persisted_response v)\<rparr>)"
    if "no_big (persisted_response v)" for v
    using assms(2,3) r that
    by (auto simp: idem_complete_def Let_def idem_write_def idem_read_def map_get_set)
  show ?thesis
  proof (cases "\<exists>v. run = Settled (Ok v) \<and> no_big (persisted_response v)")
    case True
    then obtain v where v: "run = Settled (Ok v)" "no_big (persisted_response v)" by blast
    from complete [OF v(2)] assms(4) v(1)
    have stored: "idem_read s' k = Some (r\<lparr>idem_status := Completed,
        idem_response := json_clone (persisted_response v)\<rparr>)"
      by (auto simp: withIdempotency_settle_def)
    show ?thesis
      by (intro exI conjI, rule stored) (simp_all add: v answers_def recorded_result_def stable_outcome_def)
  next
    case False
    then obtain c where "s' = fst (snd (idem_fail s k c))" "recorded_result run = Err (Run_Error c)"
      using assms(2-4) fail(2)
      by (cases run; auto simp: withIdempotency_settle_def idem_complete_def Let_def idem_write_def
          recorded_result_def case_prod_beta split: result.splits prod.splits if_splits)
        (metis fst_conv)+
    then show ?thesis using fail(1) [of c] by (simp add: answers_def)
  qed
qed

lemma wf_settle: "idem_wf s \<Longrightarrow> idem_wf (fst (snd (withIdempotency_settle s k run)))"
  using wf_step [of s "E_Complete k _"] wf_step [of _ "E_Fail k _"]
  by (auto simp: withIdempotency_settle_def Let_def case_prod_beta
      split: run_outcome.split result.split js_call.split prod.split)

lemma begin_answers:
  assumes "idem_read s k = Some r" "idem_status r \<noteq> In_Flight" "now < idem_expiresAt r"
    "isValidIdempotencyKey k" "req_key q = Some k"
    "requestDigest (or_null (req_request q)) = idem_hash r" "req_operation q = idem_operation r"
  shows "\<exists>x s' fx. withIdempotency_begin s now cid q = (Wrapper_Returned x, s', fx) \<and>
    mapOk x out_value = answers r \<and> (\<forall>y. x = Ok y \<longrightarrow> out_replayed y)"
  using assms valid_key_nonempty [OF assms(4)]
  by (auto simp: withIdempotency_begin_def idem_begin_def begin_existing_def Let_def answers_def)

lemma kept_answers:
  "idem_kept r r' \<Longrightarrow> idem_status r \<noteq> In_Flight \<Longrightarrow>
     (idem_status r \<noteq> Failed \<longrightarrow> stable_response (idem_response r)) \<Longrightarrow> answers r' = answers r"
  by (simp add: idem_kept_def answers_def)


text \<open>
  A key that expired is refused once: the refusal removes the record, so the very
  next call with the same key claims it and runs the work a second time.
\<close>

lemma expired_key_claims_again:
  assumes "idem_wf s" "idem_begin s now cid q = (Err Key_Expired, s', fx)"
  shows "\<exists>r. fst (idem_begin s' now' cid' q) = Ok (Claimed r)"
proof -
  obtain k r where k: "req_key q = Some k" "isValidIdempotencyKey k" "idem_read s k = Some r"
      "s' = idem_remove (idem_key r) s"
    using assms(2) by (auto simp: idem_begin_def begin_existing_def claim_def Let_def
        split: option.splits if_splits)
  with idem_wf_read [OF assms(1) k(3)] have "idem_read s' k = None" by (simp add: read_remove)
  with k(1,2) show ?thesis by (auto simp: begin_Claimed)
qed

text \<open>
  The digest of a request does not depend on the order in which the entries of
  its object were written.
\<close>

lemma requestDigest_order:
  assumes "distinct (map fst es)" "mset es = mset fs"
  shows "requestDigest (JObj es) = requestDigest (JObj fs)"
  using json_norm_reorder [OF assms] by (simp add: requestDigest_def canonicalize_norm)

section \<open>Witnesses\<close>

definition w_request :: begin_request where
  "w_request = \<lparr>req_key = Some ''job-0001'', req_operation = ''worker.enqueue'',
     req_request = JObj [(''queue'', JStr ''x'')], req_correlationId = Some ''c1''\<rparr>"

definition w_store :: idem_store where
  "w_store = createIdempotencyStore (Some 1000) [] False"

lemma w_store_wf: "idem_wf w_store"
  by (simp add: w_store_def createIdempotencyStore_def idem_wf_def idem_read_def)

lemma w_key_valid: "isValidIdempotencyKey ''job-0001''"
  by code_simp

definition w_record :: idem_record where
  "w_record = claim_record w_store 5 ''id'' ''job-0001'' w_request"

lemma w_claim: "\<exists>fx. idem_begin w_store 5 ''id'' w_request =
    (Ok (Claimed w_record), snd (claim w_store 5 ''id'' ''job-0001'' w_request), fx)"
proof -
  have "idem_read w_store ''job-0001'' = None"
    by (simp add: w_store_def createIdempotencyStore_def idem_read_def)
  then show ?thesis
    using w_key_valid by (simp add: idem_begin_def w_request_def w_record_def claim_def Let_def)
qed

theorem claimed_once_witness:
  "\<exists>s' fx. idem_begin w_store 5 ''id'' w_request = (Ok (Claimed w_record), s', fx) \<and>
     (\<forall>r'. fst (idem_begin (foldl idem_step s' [E_Sweep 900, E_Fail ''job-0001'' ''boom'']) 950 ''id2'' w_request)
       \<noteq> Ok (Claimed r'))"
proof -
  from w_claim obtain s' fx where c: "idem_begin w_store 5 ''id'' w_request = (Ok (Claimed w_record), s', fx)"
    by blast
  have "fst (idem_begin (foldl idem_step s' [E_Sweep 900, E_Fail ''job-0001'' ''boom'']) 950 ''id2'' w_request)
      \<noteq> Ok (Claimed r')" for r'
    by (rule claimed_once [OF w_store_wf _ c, where k = "''job-0001''"])
      (simp_all add: w_request_def w_store_def createIdempotencyStore_def)
  with c show ?thesis by blast
qed

definition w_claimed :: idem_store where
  "w_claimed = snd (claim w_store 5 ''id'' ''job-0001'' w_request)"

lemma w_claimed_read: "idem_read w_claimed ''job-0001'' = Some w_record" "idem_wf w_claimed"
  "idem_expiresAt w_record = 1005" "idem_status w_record = In_Flight"
proof -
  obtain fx where c: "idem_begin w_store 5 ''id'' w_request = (Ok (Claimed w_record), w_claimed, fx)"
    using w_claim unfolding w_claimed_def by blast
  from begin_claims_store [OF c, of "''job-0001''"] show "idem_read w_claimed ''job-0001'' = Some w_record"
    "idem_expiresAt w_record = 1005" "idem_status w_record = In_Flight"
    by (simp_all add: w_request_def w_store_def createIdempotencyStore_def)
  from wf_begin [OF w_store_wf, of 5 "''id''" w_request] c show "idem_wf w_claimed" by simp
qed

lemma w_request_matches: "requestDigest (or_null (req_request w_request)) = idem_hash w_record"
  "req_operation w_request = idem_operation w_record" "req_key w_request = Some ''job-0001''"
  by (simp_all add: w_record_def claim_record_def w_request_def)


lemma expired_key_claims_again_witness:
  "\<exists>s' fx r. idem_begin w_claimed 2000 ''id2'' w_request = (Err Key_Expired, s', fx) \<and>
     fst (idem_begin s' 2001 ''id3'' w_request) = Ok (Claimed r)"
proof -
  have "\<exists>s' fx. idem_begin w_claimed 2000 ''id2'' w_request = (Err Key_Expired, s', fx)"
    using w_key_valid w_claimed_read
    by (simp add: idem_begin_def w_request_matches begin_existing_def)
  then obtain s' fx where x: "idem_begin w_claimed 2000 ''id2'' w_request = (Err Key_Expired, s', fx)" by blast
  from expired_key_claims_again [OF w_claimed_read(2) x, of 2001 "''id3''"] x show ?thesis by blast
qed

lemma requestDigest_order_witness:
  "requestDigest (JObj [(''a'', JNum 1), (''b'', JNum 2)]) =
     requestDigest (JObj [(''b'', JNum 2), (''a'', JNum 1)])"
  by (rule requestDigest_order) simp_all

text \<open>A response that redaction shortens, and what a second redaction makes of it.\<close>

definition noted :: "string \<Rightarrow> json" where
  "noted t = JObj [(''note'', JStr t)]"

definition shortened :: string where
  "shortened = CHR ''S'' # replicate 80 CHR ''x'' @ redacted"

lemma persisted_note: "json_clone (persisted_response (noted t)) = noted (scrubString t)"
  "no_big (persisted_response (noted t))" "no_big (noted t)"
proof -
  have "\<not> isSensitiveKey ''note''" by code_simp
  then show "json_clone (persisted_response (noted t)) = noted (scrubString t)"
    "no_big (persisted_response (noted t))" "no_big (noted t)"
    by (simp_all add: persisted_response_def noted_def redact_def MAX_REDACT_DEPTH_def defined_def)
qed

lemma replay_response:
  assumes "idem_wf s" "idem_read s ''job-0001'' = Some r" "idem_status r = Completed"
    "idem_kept w_record r" "now < 1005"
  shows "\<exists>s' fx r'. idem_begin s now cid w_request = (Ok (Replayed r'), s', fx) \<and>
    idem_response r' = idem_response r \<and> idem_wf s' \<and>
    (\<exists>r''. idem_read s' ''job-0001'' = Some r'' \<and> idem_status r'' = Completed \<and>
       idem_kept w_record r'' \<and>
       idem_response r'' = json_clone (persisted_response (idem_response r)))"
proof -
  from idem_wf_read [OF assms(1,2)] have r: "idem_key r = ''job-0001''" "no_big (idem_response r)" by auto
  have k: "req_key w_request = Some ''job-0001''" "''job-0001'' \<noteq> []" by (simp_all add: w_request_def)
  let ?r' = "r\<lparr>idem_replays := idem_replays r + 1\<rparr>"
  have "idem_begin s now cid w_request = (Ok (Replayed ?r'), idem_save ?r' s,
      [emitTelemetry ''idempotency.replayed'' ''system'' True None])"
    using assms(2-5) k w_key_valid w_request_matches w_claimed_read(3)
    by (simp add: idem_begin_def begin_existing_def idem_kept_def Let_def)
  moreover have "idem_wf (idem_save ?r' s)" using assms(1) by (rule wf_save)
  moreover have "idem_read (idem_save ?r' s) ''job-0001'' =
      Some (?r'\<lparr>idem_response := json_clone (persisted_response (idem_response r))\<rparr>)"
    using r by (simp add: read_save)
  ultimately show ?thesis
    using assms(3,4) w_claimed_read(4) by (auto simp: idem_kept_def)
qed

text \<open>
  A recorded response is not always replayed unchanged: a replay writes the
  record back through redaction once more, so a response that redaction shortened can
  be replaced as a whole, and the second replay answers with a different value than
  the first.
\<close>

lemma replay_drifts:
  "\<exists>r s fx r1 s1 fx1 r2 s2 fx2.
     idem_complete w_claimed ''job-0001'' (noted twice_redacted) = (Returns (Ok r), s, fx) \<and>
     idem_begin s 10 ''a'' w_request = (Ok (Replayed r1), s1, fx1) \<and>
     idem_begin s1 11 ''b'' w_request = (Ok (Replayed r2), s2, fx2) \<and>
     idem_response r1 = noted shortened \<and> idem_response r2 = noted redacted"
proof -
  let ?r = "w_record\<lparr>idem_status := Completed, idem_response := noted twice_redacted\<rparr>"
  have "\<exists>s fx. idem_complete w_claimed ''job-0001'' (noted twice_redacted) = (Returns (Ok ?r), s, fx) \<and>
      idem_wf s \<and> idem_read s ''job-0001'' = Some (?r\<lparr>idem_response := noted shortened\<rparr>)"
  proof -
    have key: "idem_key ?r = ''job-0001''" using idem_wf_read [OF w_claimed_read(2,1)] by simp
    obtain s where s: "idem_write ?r w_claimed = Some s"
      using write_no_big [of ?r w_claimed] persisted_note by auto
    have "idem_read s ''job-0001'' = Some (?r\<lparr>idem_response := noted shortened\<rparr>)"
      using read_write [OF s, of "''job-0001''"] key
      by (simp add: persisted_note scrub_once shortened_def)
    with s wf_write [OF w_claimed_read(2) s] show ?thesis
      using w_claimed_read by (auto simp: idem_complete_def Let_def)
  qed
  then obtain s fx where s: "idem_complete w_claimed ''job-0001'' (noted twice_redacted) = (Returns (Ok ?r), s, fx)"
    "idem_wf s" "idem_read s ''job-0001'' = Some (?r\<lparr>idem_response := noted shortened\<rparr>)" by blast
  have "idem_kept w_record (?r\<lparr>idem_response := noted shortened\<rparr>)"
    using w_claimed_read(4) by (simp add: idem_kept_def)
  from replay_response [OF s(2,3) _ this, of 10 "''a''"]
  obtain r1 s1 fx1 r' where one: "idem_begin s 10 ''a'' w_request = (Ok (Replayed r1), s1, fx1)"
    "idem_response r1 = noted shortened" "idem_wf s1" "idem_read s1 ''job-0001'' = Some r'"
    "idem_status r' = Completed" "idem_kept w_record r'" "idem_response r' = noted redacted"
    by (auto simp: persisted_note scrub_again shortened_def)
  from replay_response [OF one(3,4,5,6), of 11 "''b''"] one(1,2,7) s(1) show ?thesis by auto
qed

end
