(* ===== verification/Lifecycle.thy ===== *)
theory Lifecycle
  imports Effects
begin

text \<open>
  The declarative lifecycle machine of \<open>core/lifecycle/lifecycle.ts\<close>: a table of
  \<open>(from, event) -> to\<close> rules is validated once by \<open>createLifecycle\<close>, which builds a
  rule index keyed by the text \<open>from|event\<close> and the per-state event order; every
  mutating path of the program goes through \<open>applyTransition\<close>.

  The interface other components use is the locale \<open>lifecycle_table\<close>: an accepted
  table whose state names do not contain the key separator.
\<close>

section \<open>Definitions and machines\<close>

datatype lifecycle_error =
    unknown_record_kind
  | unknown_state
  | unknown_event
  | invalid_transition
  | terminal_state

fun lifecycle_code :: "lifecycle_error \<Rightarrow> string" where
  "lifecycle_code unknown_record_kind = ''unknown_record_kind''"
| "lifecycle_code unknown_state = ''unknown_state''"
| "lifecycle_code unknown_event = ''unknown_event''"
| "lifecycle_code invalid_transition = ''invalid_transition''"
| "lifecycle_code terminal_state = ''terminal_state''"

record transition_rule =
  rule_from :: string
  rule_event :: string
  rule_to :: string

record lifecycle_definition =
  def_name :: string
  def_initial :: string
  def_states :: "string list"
  def_terminal :: "string list"
  def_transitions :: "transition_rule list"

text \<open>The errors \<open>validateDefinition\<close> throws, in place of their English text.\<close>

datatype definition_error =
    Initial_Undeclared
  | Terminal_Undeclared string
  | Rule_Leaves_States transition_rule
  | Rule_Leaves_Terminal transition_rule
  | Duplicate_Rule string

definition transition_key :: "string \<Rightarrow> string \<Rightarrow> string" where
  "transition_key from event = from @ ''|'' @ event"

definition rule_key :: "transition_rule \<Rightarrow> string" where
  "rule_key r = transition_key (rule_from r) (rule_event r)"

fun check_terminals :: "string list \<Rightarrow> string list \<Rightarrow> definition_error option" where
  "check_terminals states [] = None"
| "check_terminals states (t # ts) =
     (if t \<notin> set states then Some (Terminal_Undeclared t) else check_terminals states ts)"

fun check_rules :: "string list \<Rightarrow> string list \<Rightarrow> transition_rule list \<Rightarrow> definition_error option" where
  "check_rules states terminal [] = None"
| "check_rules states terminal (r # rs) =
     (if rule_from r \<notin> set states \<or> rule_to r \<notin> set states then Some (Rule_Leaves_States r)
      else if rule_from r \<in> set terminal then Some (Rule_Leaves_Terminal r)
      else check_rules states terminal rs)"

fun check_duplicates :: "string list \<Rightarrow> transition_rule list \<Rightarrow> definition_error option" where
  "check_duplicates seen [] = None"
| "check_duplicates seen (r # rs) =
     (if rule_key r \<in> set seen then Some (Duplicate_Rule (rule_key r))
      else check_duplicates (rule_key r # seen) rs)"

definition validateDefinition :: "lifecycle_definition \<Rightarrow> definition_error option" where
  "validateDefinition d =
     (if def_initial d \<notin> set (def_states d) then Some Initial_Undeclared
      else case check_terminals (def_states d) (def_terminal d) of
        Some e \<Rightarrow> Some e
      | None \<Rightarrow>
          (case check_rules (def_states d) (def_terminal d) (def_transitions d) of
             Some e \<Rightarrow> Some e
           | None \<Rightarrow> check_duplicates [] (def_transitions d)))"

record lifecycle_machine =
  mach_definition :: lifecycle_definition
  mach_rules :: "(string, transition_rule) js_map"
  mach_order :: "(string, string list) js_map"

definition build_rules :: "transition_rule list \<Rightarrow> (string, transition_rule) js_map" where
  "build_rules rs = foldl (\<lambda>m r. map_set (rule_key r) r m) [] rs"

definition add_event ::
  "(string, string list) js_map \<Rightarrow> transition_rule \<Rightarrow> (string, string list) js_map" where
  "add_event m r =
     map_set (rule_from r)
       ((case map_get m (rule_from r) of None \<Rightarrow> [] | Some es \<Rightarrow> es) @ [rule_event r]) m"

definition build_order :: "transition_rule list \<Rightarrow> (string, string list) js_map" where
  "build_order rs = foldl add_event [] rs"

definition createLifecycle ::
  "lifecycle_definition \<Rightarrow> (lifecycle_machine, definition_error) result" where
  "createLifecycle d =
     (case validateDefinition d of
        Some e \<Rightarrow> Err e
      | None \<Rightarrow> Ok \<lparr>mach_definition = d, mach_rules = build_rules (def_transitions d),
                   mach_order = build_order (def_transitions d)\<rparr>)"

definition initial :: "lifecycle_machine \<Rightarrow> string" where
  "initial m = def_initial (mach_definition m)"

definition isState :: "lifecycle_machine \<Rightarrow> string \<Rightarrow> bool" where
  "isState m s = (s \<in> set (def_states (mach_definition m)))"

definition isTerminal :: "lifecycle_machine \<Rightarrow> string \<Rightarrow> bool" where
  "isTerminal m s = (s \<in> set (def_terminal (mach_definition m)))"

definition allowedEvents :: "lifecycle_machine \<Rightarrow> string \<Rightarrow> string list" where
  "allowedEvents m s =
     (if \<not> isState m s then []
      else (case map_get (mach_order m) s of None \<Rightarrow> [] | Some es \<Rightarrow> es))"

definition resolve :: "lifecycle_machine \<Rightarrow> string \<Rightarrow> string \<Rightarrow> (string, lifecycle_error) result" where
  "resolve m from event =
     (if \<not> isState m from then Err unknown_state
      else if event = [] then Err unknown_event
      else case map_get (mach_rules m) (transition_key from event) of
        None \<Rightarrow> Err (if isTerminal m from then terminal_state else invalid_transition)
      | Some r \<Rightarrow> Ok (rule_to r))"

definition canTransition :: "lifecycle_machine \<Rightarrow> string \<Rightarrow> string \<Rightarrow> (bool, lifecycle_error) result" where
  "canTransition m from event =
     (case resolve m from event of Ok _ \<Rightarrow> Ok True | Err c \<Rightarrow> Err c)"

text \<open>An untrusted value is a string or something that is not one (\<open>None\<close>).\<close>

definition parseState :: "lifecycle_machine \<Rightarrow> string option \<Rightarrow> (string, lifecycle_error) result" where
  "parseState m v =
     (case v of None \<Rightarrow> Err unknown_state
      | Some s \<Rightarrow> if isState m s then Ok s else Err unknown_state)"

datatype tone = Tone_Success | Tone_Info | Tone_Warning | Tone_Danger | Tone_Muted

definition toneFor :: "string \<Rightarrow> tone" where
  "toneFor s =
     (if s \<in> {''succeeded'', ''completed'', ''read'', ''passed'', ''reported''} then Tone_Success
      else if s \<in> {''running'', ''queued'', ''pending'', ''generated'', ''unread''} then Tone_Info
      else if s \<in> {''retrying'', ''retrying_later'', ''skipped'', ''collected'', ''expired''}
        then Tone_Warning
      else if s \<in> {''failed'', ''dead_lettered'', ''purged'', ''revoked''} then Tone_Danger
      else Tone_Muted)"

record lifecycle_view =
  view_kind :: string
  view_state :: string
  view_label :: string
  view_tone :: tone
  view_terminal :: bool
  view_allowedEvents :: "string list"

definition view :: "lifecycle_machine \<Rightarrow> string \<Rightarrow> (string \<times> string) list \<Rightarrow> lifecycle_view" where
  "view m s labels =
     (let safe = (if isState m s then s else ''unknown'') in
      \<lparr>view_kind = def_name (mach_definition m), view_state = safe,
       view_label = (case map_of labels safe of
          Some l \<Rightarrow> l
        | None \<Rightarrow> map (\<lambda>c. if c = CHR ''_'' then CHR '' '' else c) safe),
       view_tone = toneFor safe, view_terminal = isTerminal m safe,
       view_allowedEvents = allowedEvents m safe\<rparr>)"

section \<open>Applying a transition\<close>

text \<open>\<open>AUDITED_LIFECYCLE_EVENTS\<close> and \<open>AUDITED_MANUAL_EVENTS\<close> of \<open>core/audit/audit.ts\<close>.\<close>

definition AUDITED_LIFECYCLE_EVENTS :: "string list" where
  "AUDITED_LIFECYCLE_EVENTS = [''dead_letter'', ''exhaust'', ''purge'', ''archive'', ''expire'']"

definition AUDITED_MANUAL_EVENTS :: "string list" where
  "AUDITED_MANUAL_EVENTS = [''retry'', ''fail'']"

definition isAuditedLifecycleEvent :: "string \<Rightarrow> actor_kind \<Rightarrow> bool" where
  "isAuditedLifecycleEvent event kind =
     (if event \<in> set AUDITED_LIFECYCLE_EVENTS then True
      else if event \<in> set AUDITED_MANUAL_EVENTS then kind \<noteq> System
      else False)"

definition actorOf :: "string option \<Rightarrow> audit_actor" where
  "actorOf actor =
     (case actor of
        None \<Rightarrow> \<lparr>actor_kind = System, actor_id = Some ''system''\<rparr>
      | Some a \<Rightarrow>
          if a = [] \<or> a = ''system'' then \<lparr>actor_kind = System, actor_id = Some ''system''\<rparr>
          else if startsWith a ''maintainer:''
            then \<lparr>actor_kind = Maintainer, actor_id = Some (drop (length ''maintainer:'') a)\<rparr>
          else if startsWith a ''account:''
            then \<lparr>actor_kind = User, actor_id = Some (drop 8 a)\<rparr>
          else \<lparr>actor_kind = System, actor_id = Some a\<rparr>)"

record transition_context =
  ctx_at :: "string option"
  ctx_actor :: "string option"
  ctx_scope :: "audit_scope option"
  ctx_audited :: bool
  ctx_reason :: "string option"
  ctx_correlationId :: "string option"

definition no_context :: transition_context where
  "no_context = \<lparr>ctx_at = None, ctx_actor = None, ctx_scope = None, ctx_audited = False,
     ctx_reason = None, ctx_correlationId = None\<rparr>"

record transition_record =
  tr_recordKind :: string
  tr_from :: string
  tr_to :: string
  tr_event :: string
  tr_at :: string
  tr_actor :: string
  tr_reason :: "string option"
  tr_correlationId :: string

definition denied_audit ::
  "lifecycle_machine \<Rightarrow> string \<Rightarrow> string \<Rightarrow> string \<Rightarrow> lifecycle_error \<Rightarrow> transition_context \<Rightarrow> audit_input" where
  "denied_audit m rid from event code ctx =
     \<lparr>in_action = ''record.transition_denied'', in_actor = actorOf (ctx_actor ctx),
      in_scope = ctx_scope ctx, in_target_kind = def_name (mach_definition m),
      in_target_id = rid, in_reason = ctx_reason ctx, in_outcome = Some Denied,
      in_before = None, in_after = Some [(''from'', SStr from), (''event'', SStr event)],
      in_at = ctx_at ctx, in_correlationId = ctx_correlationId ctx,
      in_errorCode = Some (lifecycle_code code)\<rparr>"

definition changed_audit ::
  "lifecycle_machine \<Rightarrow> string \<Rightarrow> transition_record \<Rightarrow> transition_context \<Rightarrow> audit_input" where
  "changed_audit m rid t ctx =
     \<lparr>in_action = ''record.state_changed'', in_actor = actorOf (ctx_actor ctx),
      in_scope = ctx_scope ctx, in_target_kind = def_name (mach_definition m),
      in_target_id = rid, in_reason = ctx_reason ctx, in_outcome = None,
      in_before = Some [(''state'', SStr (tr_from t))],
      in_after = Some [(''state'', SStr (tr_to t)), (''event'', SStr (tr_event t))],
      in_at = Some (tr_at t), in_correlationId = Some (tr_correlationId t),
      in_errorCode = None\<rparr>"

text \<open>
  \<open>clock\<close> is what \<open>new Date().toISOString()\<close> and \<open>cid\<close> what \<open>newCorrelationId()\<close>
  answer during the call. The record is its id and its current state.
\<close>

definition applyTransition ::
  "string \<Rightarrow> string \<Rightarrow> lifecycle_machine \<Rightarrow> string \<Rightarrow> string \<Rightarrow> string \<Rightarrow> transition_context \<Rightarrow>
     (transition_record, lifecycle_error) result \<times> effect list" where
  "applyTransition clock cid m rid rstate event ctx =
     (case parseState m (Some rstate) of
        Err c \<Rightarrow> (Err c, [])
      | Ok from \<Rightarrow>
          (case resolve m from event of
             Err c \<Rightarrow>
               (Err c,
                [Audit (denied_audit m rid from event c ctx),
                 emitTelemetry ''lifecycle.transition_rejected'' ''system'' False
                   (Some (lifecycle_code c))])
           | Ok target \<Rightarrow>
               (let t = \<lparr>tr_recordKind = def_name (mach_definition m), tr_from = from,
                         tr_to = target, tr_event = event,
                         tr_at = (case ctx_at ctx of Some a \<Rightarrow> a | None \<Rightarrow> clock),
                         tr_actor = (case ctx_actor ctx of Some a \<Rightarrow> a | None \<Rightarrow> ''system''),
                         tr_reason = ctx_reason ctx,
                         tr_correlationId =
                           (case ctx_correlationId ctx of Some c \<Rightarrow> c | None \<Rightarrow> cid)\<rparr>
                in (Ok t,
                    (if ctx_audited ctx
                        \<or> isAuditedLifecycleEvent event (actor_kind (actorOf (ctx_actor ctx)))
                     then [Audit (changed_audit m rid t ctx)] else [])
                    @ [emitTelemetry ''lifecycle.transition'' ''system'' True None]))))"

definition allowedTransitions :: "lifecycle_machine \<Rightarrow> (string \<times> string \<times> string) list" where
  "allowedTransitions m =
     map (\<lambda>r. (rule_from r, rule_event r, rule_to r)) (def_transitions (mach_definition m))"

section \<open>The abstract transition relation\<close>

text \<open>What a table means, independently of the index \<open>createLifecycle\<close> builds from it.\<close>

inductive lifecycle_step :: "lifecycle_definition \<Rightarrow> string \<Rightarrow> string \<Rightarrow> string \<Rightarrow> bool"
  for d :: lifecycle_definition where
  declared: "r \<in> set (def_transitions d) \<Longrightarrow>
     lifecycle_step d (rule_from r) (rule_event r) (rule_to r)"

inductive lifecycle_reach :: "lifecycle_definition \<Rightarrow> string \<Rightarrow> bool"
  for d :: lifecycle_definition where
  start: "lifecycle_reach d (def_initial d)"
| move: "lifecycle_reach d s \<Longrightarrow> lifecycle_step d s e t \<Longrightarrow> lifecycle_reach d t"

inductive_simps lifecycle_step_simps: "lifecycle_step d s e t"

text \<open>A record driven by a sequence of requested events: a refused event leaves it alone.\<close>

definition drive :: "lifecycle_machine \<Rightarrow> string \<Rightarrow> string \<Rightarrow> string" where
  "drive m s e = (case resolve m s e of Ok t \<Rightarrow> t | Err _ \<Rightarrow> s)"

section \<open>The index and the table\<close>

lemma check_terminals_None: "check_terminals states ts = None \<longleftrightarrow> set ts \<subseteq> set states"
  by (induction ts) auto

lemma check_rules_None:
  "check_rules states terminal rs = None \<longleftrightarrow>
     (\<forall>r \<in> set rs. rule_from r \<in> set states \<and> rule_to r \<in> set states
        \<and> rule_from r \<notin> set terminal)"
  by (induction rs) auto

lemma check_duplicates_None:
  "check_duplicates seen rs = None \<longleftrightarrow>
     distinct (map rule_key rs) \<and> set (map rule_key rs) \<inter> set seen = {}"
  by (induction rs arbitrary: seen) auto

lemma validateDefinition_None:
  "validateDefinition d = None \<longleftrightarrow>
     def_initial d \<in> set (def_states d) \<and> set (def_terminal d) \<subseteq> set (def_states d)
     \<and> (\<forall>r \<in> set (def_transitions d). rule_from r \<in> set (def_states d)
          \<and> rule_to r \<in> set (def_states d) \<and> rule_from r \<notin> set (def_terminal d))
     \<and> distinct (map rule_key (def_transitions d))"
  by (auto simp: validateDefinition_def check_terminals_None [symmetric]
      check_rules_None [symmetric] check_duplicates_None split: option.splits)

lemma createLifecycle_Ok:
  "createLifecycle d = Ok m \<longleftrightarrow>
     validateDefinition d = None \<and>
     m = \<lparr>mach_definition = d, mach_rules = build_rules (def_transitions d),
          mach_order = build_order (def_transitions d)\<rparr>"
  by (auto simp: createLifecycle_def split: option.splits)

lemma foldl_rules_get:
  "distinct (map rule_key rs) \<Longrightarrow>
     map_get (foldl (\<lambda>m r. map_set (rule_key r) r m) m0 rs) k =
       (case find (\<lambda>r. rule_key r = k) rs of Some r \<Rightarrow> Some r | None \<Rightarrow> map_get m0 k)"
proof (induction rs arbitrary: m0)
  case Nil
  then show ?case by simp
next
  case (Cons r rs)
  show ?case
  proof (cases "rule_key r = k")
    case True
    with Cons.prems have "find (\<lambda>r. rule_key r = k) rs = None"
      by (auto simp: find_None_all) (metis image_eqI)
    with True Cons show ?thesis by simp
  next
    case False
    with Cons show ?thesis by (simp split: option.split)
  qed
qed

lemma build_rules_get:
  assumes "distinct (map rule_key rs)"
  shows "map_get (build_rules rs) k = Some r \<longleftrightarrow> r \<in> set rs \<and> rule_key r = k"
proof
  assume "map_get (build_rules rs) k = Some r"
  then show "r \<in> set rs \<and> rule_key r = k"
    using foldl_rules_get [OF assms, of "[]" k]
    by (auto simp: build_rules_def dest: find_SomeD split: option.splits)
next
  assume r: "r \<in> set rs \<and> rule_key r = k"
  then obtain r' where f: "find (\<lambda>r. rule_key r = k) rs = Some r'"
    by (cases "find (\<lambda>r. rule_key r = k) rs") (auto simp: find_None_all)
  with find_SomeD [OF f] assms r have "r' = r"
    by (auto simp: distinct_map inj_on_def)
  with f show "map_get (build_rules rs) k = Some r"
    using foldl_rules_get [OF assms, of "[]" k] by (simp add: build_rules_def)
qed

lemma foldl_order_get:
  "map_get (foldl add_event m0 rs) s =
     (let es = map rule_event (filter (\<lambda>r. rule_from r = s) rs) in
      if es = [] then map_get m0 s
      else Some ((case map_get m0 s of None \<Rightarrow> [] | Some e0 \<Rightarrow> e0) @ es))"
  by (induction rs arbitrary: m0) (auto simp: add_event_def Let_def map_get_set)

lemma build_order_get:
  "(case map_get (build_order rs) s of None \<Rightarrow> [] | Some es \<Rightarrow> es) =
     map rule_event (filter (\<lambda>r. rule_from r = s) rs)"
  by (simp add: build_order_def foldl_order_get Let_def)

lemma transition_key_inj:
  assumes "CHR ''|'' \<notin> set s" "CHR ''|'' \<notin> set t" "transition_key s e = transition_key t f"
  shows "s = t \<and> e = f"
proof -
  have "takeWhile (\<lambda>c. c \<noteq> CHR ''|'') (transition_key s e) = s"
    "takeWhile (\<lambda>c. c \<noteq> CHR ''|'') (transition_key t f) = t"
    using assms(1,2) by (auto simp: transition_key_def takeWhile_append2 takeWhile_append
        intro!: takeWhile_eq_all_conv [THEN iffD2])
  with assms(3) show ?thesis by (auto simp: transition_key_def)
qed

section \<open>Accepted tables\<close>

text \<open>
  The interface of a machine: the table was accepted, and the text key of a rule
  determines the rule because no state name contains the separator.
\<close>

locale lifecycle_table =
  fixes d :: lifecycle_definition and m :: lifecycle_machine
  assumes accepted: "createLifecycle d = Ok m"
    and separator_free: "s \<in> set (def_states d) \<Longrightarrow> CHR ''|'' \<notin> set s"
begin

lemma valid: "validateDefinition d = None"
  using accepted by (simp add: createLifecycle_Ok)

lemma machine_fields:
  "mach_definition m = d" "mach_rules m = build_rules (def_transitions d)"
  "mach_order m = build_order (def_transitions d)"
  using accepted by (simp_all add: createLifecycle_Ok)

lemma isState_iff: "isState m s \<longleftrightarrow> s \<in> set (def_states d)"
  by (simp add: isState_def machine_fields)

lemma isTerminal_iff: "isTerminal m s \<longleftrightarrow> s \<in> set (def_terminal d)"
  by (simp add: isTerminal_def machine_fields)

lemma rule_states:
  "r \<in> set (def_transitions d) \<Longrightarrow>
     rule_from r \<in> set (def_states d) \<and> rule_to r \<in> set (def_states d)
     \<and> rule_from r \<notin> set (def_terminal d)"
  using valid by (simp add: validateDefinition_None)

lemma step_states:
  "lifecycle_step d s e t \<Longrightarrow>
     s \<in> set (def_states d) \<and> t \<in> set (def_states d) \<and> s \<notin> set (def_terminal d)"
  by (auto simp: lifecycle_step_simps dest: rule_states)

lemma rule_lookup:
  assumes "s \<in> set (def_states d)"
  shows "map_get (mach_rules m) (transition_key s e) = Some r \<longleftrightarrow>
    r \<in> set (def_transitions d) \<and> rule_from r = s \<and> rule_event r = e"
proof -
  have "distinct (map rule_key (def_transitions d))"
    using valid by (simp add: validateDefinition_None)
  then have "map_get (mach_rules m) (transition_key s e) = Some r \<longleftrightarrow>
      r \<in> set (def_transitions d) \<and> rule_key r = transition_key s e"
    by (simp add: machine_fields build_rules_get)
  also have "\<dots> \<longleftrightarrow> r \<in> set (def_transitions d) \<and> rule_from r = s \<and> rule_event r = e"
    using transition_key_inj separator_free rule_states assms
    unfolding rule_key_def by metis
  finally show ?thesis .
qed

lemma resolve_Ok_iff: "resolve m s e = Ok t \<longleftrightarrow> e \<noteq> [] \<and> lifecycle_step d s e t"
proof (cases "s \<in> set (def_states d)")
  case True
  have "lifecycle_step d s e t \<longleftrightarrow>
      (\<exists>r. map_get (mach_rules m) (transition_key s e) = Some r \<and> rule_to r = t)"
    using rule_lookup [OF True] by (auto simp: lifecycle_step_simps)
  with True show ?thesis
    by (auto simp: resolve_def isState_iff split: option.splits)
next
  case False
  then show ?thesis
    using step_states by (auto simp: resolve_def isState_iff)
qed

lemma resolve_deterministic:
  "lifecycle_step d s e t \<Longrightarrow> lifecycle_step d s e u \<Longrightarrow> e \<noteq> [] \<Longrightarrow> t = u"
  by (metis resolve_Ok_iff result.inject(1))

lemma resolve_terminal:
  assumes "s \<in> set (def_terminal d)" "e \<noteq> []"
  shows "resolve m s e = Err terminal_state"
proof -
  have s: "s \<in> set (def_states d)"
    using valid assms(1) by (auto simp: validateDefinition_None)
  then have "map_get (mach_rules m) (transition_key s e) = None"
    using assms(1) rule_states by (metis not_Some_eq rule_lookup)
  with s assms show ?thesis
    by (simp add: resolve_def isState_iff isTerminal_iff)
qed

lemma allowedEvents_eq:
  "allowedEvents m s = map rule_event (filter (\<lambda>r. rule_from r = s) (def_transitions d))"
proof (cases "s \<in> set (def_states d)")
  case True
  then show ?thesis
    using build_order_get [of "def_transitions d" s]
    by (simp add: allowedEvents_def isState_iff machine_fields)
next
  case False
  then have "filter (\<lambda>r. rule_from r = s) (def_transitions d) = []"
    using rule_states by (auto simp: filter_empty_conv)
  with False show ?thesis by (simp add: allowedEvents_def isState_iff)
qed

lemma allowedEvents_resolve: "e \<noteq> [] \<Longrightarrow> e \<in> set (allowedEvents m s) \<longleftrightarrow> isOk (resolve m s e)"
  by (auto simp: allowedEvents_eq isOk_iff resolve_Ok_iff lifecycle_step_simps image_iff)

lemma terminal_no_events: "s \<in> set (def_terminal d) \<Longrightarrow> allowedEvents m s = []"
  using rule_states by (auto simp: allowedEvents_eq filter_empty_conv)

lemma drive_state: "isState m s \<Longrightarrow> isState m (drive m s e)"
  using step_states by (auto simp: drive_def isState_iff resolve_Ok_iff split: result.splits)

lemma drive_terminal: "isTerminal m s \<Longrightarrow> drive m s e = s"
  using step_states
  by (auto simp: drive_def isTerminal_iff resolve_Ok_iff split: result.splits)

lemma reach_declared: "lifecycle_reach d s \<Longrightarrow> s \<in> set (def_states d)"
proof (induction rule: lifecycle_reach.induct)
  case start
  then show ?case using valid by (simp add: validateDefinition_None)
next
  case (move s e t)
  then show ?case by (auto dest: step_states)
qed

lemma drive_reach: "lifecycle_reach d s \<Longrightarrow> lifecycle_reach d (drive m s e)"
  by (auto simp: drive_def resolve_Ok_iff intro: lifecycle_reach.move split: result.splits)

end

text \<open>
  A driven record is a step system: its state stays declared, and once terminal it
  never changes.
\<close>

sublocale lifecycle_table \<subseteq> driven: monotone_system "drive m" "isState m"
    "\<lambda>s t. isTerminal m s \<longrightarrow> t = s"
  by unfold_locales (auto simp: drive_state drive_terminal)

context lifecycle_table
begin

lemma drive_run_terminal: "isState m s \<Longrightarrow> isTerminal m s \<Longrightarrow> foldl (drive m) s es = s"
  using driven.run_leq by blast

lemma drive_run_reach: "lifecycle_reach d s \<Longrightarrow> lifecycle_reach d (foldl (drive m) s es)"
  by (induction es arbitrary: s) (auto intro: drive_reach)

end

section \<open>What applyTransition does\<close>

lemma applyTransition_result:
  "fst (applyTransition clock cid m rid s e ctx) = Ok t \<Longrightarrow>
     isState m s \<and> resolve m s e = Ok (tr_to t) \<and> tr_from t = s \<and> tr_event t = e"
  by (auto simp: applyTransition_def parseState_def Let_def split: result.splits if_splits)

lemma applyTransition_Err:
  "fst (applyTransition clock cid m rid s e ctx) = Err c \<longleftrightarrow> resolve m s e = Err c"
  by (auto simp: applyTransition_def parseState_def Let_def resolve_def
      split: result.splits if_splits option.splits)

lemma applyTransition_Ok_iff:
  "(\<exists>t. fst (applyTransition clock cid m rid s e ctx) = Ok t \<and> tr_to t = u) \<longleftrightarrow> resolve m s e = Ok u"
  by (auto simp: applyTransition_def parseState_def Let_def resolve_def
      split: result.splits if_splits option.splits)

section \<open>Properties\<close>

text \<open>
  C27. The index \<open>createLifecycle\<close> builds is faithful to the table: for an accepted
  table whose state names do not contain the key separator, \<open>resolve\<close> answers a target
  exactly when the table declares the move and the event is not empty.
\<close>

theorem resolve_iff_declared:
  assumes "createLifecycle d = Ok m"
    and "\<forall>s \<in> set (def_states d). CHR ''|'' \<notin> set s"
  shows "resolve m s e = Ok t \<longleftrightarrow> e \<noteq> [] \<and> lifecycle_step d s e t"
proof -
  have "lifecycle_table d m"
    using assms by unfold_locales auto
  then show ?thesis by (rule lifecycle_table.resolve_Ok_iff)
qed

text \<open>
  A settled record never moves again: from a terminal state of an accepted table
  no event is offered, every non-empty event is refused with \<open>terminal_state\<close>, and a
  record driven by any sequence of events stays where it is.
\<close>

lemma settled_stays_settled:
  assumes "createLifecycle d = Ok m"
    and "\<forall>s \<in> set (def_states d). CHR ''|'' \<notin> set s"
    and "isTerminal m s"
  shows "allowedEvents m s = []
    \<and> (\<forall>e. e \<noteq> [] \<longrightarrow> resolve m s e = Err terminal_state)
    \<and> foldl (drive m) s es = s"
proof -
  have table: "lifecycle_table d m"
    using assms(1,2) by unfold_locales auto
  then have t: "s \<in> set (def_terminal d)"
    using assms(3) by (simp add: lifecycle_table.isTerminal_iff)
  moreover have "isState m s"
    using t lifecycle_table.valid [OF table]
    by (auto simp: lifecycle_table.isState_iff [OF table] validateDefinition_None)
  ultimately show ?thesis
    using table assms(3)
    by (simp add: lifecycle_table.terminal_no_events lifecycle_table.resolve_terminal
        lifecycle_table.drive_run_terminal)
qed


end
