(* ===== verification/Lifecycle_Records.thy ===== *)
theory Lifecycle_Records
  imports Lifecycle
begin

text \<open>
  The record kinds of \<open>core/lifecycle/records.ts\<close>: the five tables, their labels, the
  registry \<open>RECORD_MACHINES\<close>, and the entry points \<open>recordMachine\<close>, \<open>stateView\<close>
  and \<open>transitionRecord\<close> every consumer calls. Each table is an interpretation of
  \<open>lifecycle_table\<close>, so the general lemmas hold of it.
\<close>

abbreviation rule :: "string \<Rightarrow> string \<Rightarrow> string \<Rightarrow> transition_rule" where
  "rule f e t \<equiv> \<lparr>rule_from = f, rule_event = e, rule_to = t\<rparr>"

definition worker_job_definition :: lifecycle_definition where
  "worker_job_definition =
     \<lparr>def_name = ''worker_job'', def_initial = ''queued'',
      def_states = [''queued'', ''running'', ''retrying'', ''succeeded'', ''dead_lettered''],
      def_terminal = [''succeeded'', ''dead_lettered''],
      def_transitions =
        [rule ''queued'' ''start'' ''running'',
         rule ''queued'' ''fail'' ''retrying'',
         rule ''queued'' ''dead_letter'' ''dead_lettered'',
         rule ''running'' ''succeed'' ''succeeded'',
         rule ''running'' ''fail'' ''retrying'',
         rule ''running'' ''exhaust'' ''dead_lettered'',
         rule ''running'' ''dead_letter'' ''dead_lettered'',
         rule ''retrying'' ''start'' ''running'',
         rule ''retrying'' ''fail'' ''retrying'',
         rule ''retrying'' ''exhaust'' ''dead_lettered'',
         rule ''retrying'' ''retry'' ''queued'',
         rule ''retrying'' ''dead_letter'' ''dead_lettered'']\<rparr>"

definition notification_definition :: lifecycle_definition where
  "notification_definition =
     \<lparr>def_name = ''notification'', def_initial = ''unread'',
      def_states = [''unread'', ''read'', ''archived'', ''purged''],
      def_terminal = [''purged''],
      def_transitions =
        [rule ''unread'' ''read'' ''read'',
         rule ''unread'' ''archive'' ''archived'',
         rule ''unread'' ''purge'' ''purged'',
         rule ''read'' ''archive'' ''archived'',
         rule ''read'' ''purge'' ''purged'',
         rule ''archived'' ''purge'' ''purged'']\<rparr>"

definition export_envelope_definition :: lifecycle_definition where
  "export_envelope_definition =
     \<lparr>def_name = ''export_envelope'', def_initial = ''generated'',
      def_states = [''generated'', ''expired'', ''purged''],
      def_terminal = [''purged''],
      def_transitions =
        [rule ''generated'' ''expire'' ''expired'',
         rule ''generated'' ''purge'' ''purged'',
         rule ''expired'' ''purge'' ''purged'']\<rparr>"

definition operation_definition :: lifecycle_definition where
  "operation_definition =
     \<lparr>def_name = ''operation'', def_initial = ''started'',
      def_states = [''started'', ''succeeded'', ''failed''],
      def_terminal = [''succeeded'', ''failed''],
      def_transitions =
        [rule ''started'' ''succeed'' ''succeeded'',
         rule ''started'' ''fail'' ''failed'']\<rparr>"

definition ownership_transfer_definition :: lifecycle_definition where
  "ownership_transfer_definition =
     \<lparr>def_name = ''ownership_transfer'', def_initial = ''pending'',
      def_states = [''pending'', ''accepted'', ''cancelled'', ''rejected'', ''expired''],
      def_terminal = [''accepted'', ''cancelled'', ''rejected'', ''expired''],
      def_transitions =
        [rule ''pending'' ''accept'' ''accepted'',
         rule ''pending'' ''cancel'' ''cancelled'',
         rule ''pending'' ''reject'' ''rejected'',
         rule ''pending'' ''expire'' ''expired'']\<rparr>"

lemmas record_definitions =
  worker_job_definition_def notification_definition_def export_envelope_definition_def
  operation_definition_def ownership_transfer_definition_def

text \<open>
  \<open>createLifecycle\<close> runs at module load; a refused table would abort the load. The
  machine of an accepted table:
\<close>

definition machine_of :: "lifecycle_definition \<Rightarrow> lifecycle_machine" where
  "machine_of d =
     \<lparr>mach_definition = d, mach_rules = build_rules (def_transitions d),
      mach_order = build_order (def_transitions d)\<rparr>"

definition workerJobMachine :: lifecycle_machine where
  "workerJobMachine = machine_of worker_job_definition"

definition notificationMachine :: lifecycle_machine where
  "notificationMachine = machine_of notification_definition"

definition exportEnvelopeMachine :: lifecycle_machine where
  "exportEnvelopeMachine = machine_of export_envelope_definition"

definition operationMachine :: lifecycle_machine where
  "operationMachine = machine_of operation_definition"

definition ownershipTransferMachine :: lifecycle_machine where
  "ownershipTransferMachine = machine_of ownership_transfer_definition"

definition LIFECYCLE_LABELS :: "(string \<times> (string \<times> string) list) list" where
  "LIFECYCLE_LABELS =
     [(''worker_job'',
        [(''queued'', ''Queued''), (''running'', ''Running''), (''retrying'', ''Retrying''),
         (''succeeded'', ''Succeeded''), (''dead_lettered'', ''Dead-lettered'')]),
      (''notification'',
        [(''unread'', ''Unread''), (''read'', ''Read''), (''archived'', ''Archived''),
         (''purged'', ''Purged'')]),
      (''export_envelope'',
        [(''generated'', ''Generated''), (''expired'', ''Expired''), (''purged'', ''Purged'')]),
      (''operation'',
        [(''started'', ''Started''), (''succeeded'', ''Succeeded''), (''failed'', ''Failed'')]),
      (''ownership_transfer'',
        [(''pending'', ''Pending Acceptance''), (''accepted'', ''Accepted''),
         (''cancelled'', ''Cancelled''), (''rejected'', ''Rejected''), (''expired'', ''Expired'')])]"

definition RECORD_MACHINES :: "(string \<times> lifecycle_machine) list" where
  "RECORD_MACHINES =
     [(''worker_job'', workerJobMachine), (''notification'', notificationMachine),
      (''export_envelope'', exportEnvelopeMachine), (''operation'', operationMachine),
      (''ownership_transfer'', ownershipTransferMachine)]"

text \<open>
  \<open>recordMachine\<close> answers with whatever truthy value the lookup finds, an inherited
  property included.
\<close>

definition recordMachine ::
  "string \<Rightarrow> (lifecycle_machine property, lifecycle_error) result" where
  "recordMachine kind =
     (case obj_get RECORD_MACHINES kind of
        Own_Property m \<Rightarrow> Ok (Own_Property m)
      | Inherited_Property k \<Rightarrow> Ok (Inherited_Property k)
      | No_Property \<Rightarrow> Err unknown_record_kind)"

text \<open>The labels of a registered kind; the lookup is only reached for one.\<close>

definition labelsFor :: "string \<Rightarrow> (string \<times> string) list" where
  "labelsFor kind = (case map_of LIFECYCLE_LABELS kind of Some l \<Rightarrow> l | None \<Rightarrow> [])"

definition stateView :: "string \<Rightarrow> string \<Rightarrow> lifecycle_view js_call" where
  "stateView kind s =
     (case obj_get RECORD_MACHINES kind of
        No_Property \<Rightarrow>
          Returns \<lparr>view_kind = kind, view_state = ''unknown'', view_label = ''Unknown'',
            view_tone = Tone_Muted, view_terminal = False, view_allowedEvents = []\<rparr>
      | Own_Property m \<Rightarrow> Returns (view m s (labelsFor kind))
      | Inherited_Property _ \<Rightarrow> Throws_TypeError)"

definition transitionRecord ::
  "string \<Rightarrow> string \<Rightarrow> string \<Rightarrow> string \<Rightarrow> string \<Rightarrow> string \<Rightarrow> transition_context \<Rightarrow>
     (((string \<times> string), lifecycle_error) result \<times> effect list) js_call" where
  "transitionRecord clock cid kind rid s event ctx =
     (case recordMachine kind of
        Err c \<Rightarrow> Returns (Err c, [])
      | Ok (Own_Property m) \<Rightarrow>
          (case applyTransition clock cid m rid s event ctx of
             (outcome, effects) \<Rightarrow>
               Returns (mapOk outcome (\<lambda>t. (tr_to t, tr_at t)), effects))
      | Ok (Inherited_Property _) \<Rightarrow> Throws_TypeError
      | Ok No_Property \<Rightarrow> Throws_TypeError)"

section \<open>The tables are lifecycle tables\<close>

lemma machine_of_accepted: "validateDefinition d = None \<Longrightarrow> createLifecycle d = Ok (machine_of d)"
  by (simp add: createLifecycle_Ok machine_of_def)

lemmas table_eval =
  validateDefinition_def record_definitions rule_key_def transition_key_def machine_of_accepted

interpretation worker_job: lifecycle_table worker_job_definition workerJobMachine
  by unfold_locales (auto simp: workerJobMachine_def table_eval)

interpretation notification: lifecycle_table notification_definition notificationMachine
  by unfold_locales (auto simp: notificationMachine_def table_eval)

interpretation export_envelope: lifecycle_table export_envelope_definition exportEnvelopeMachine
  by unfold_locales (auto simp: exportEnvelopeMachine_def table_eval)

interpretation operation: lifecycle_table operation_definition operationMachine
  by unfold_locales (auto simp: operationMachine_def table_eval)

interpretation ownership_transfer:
  lifecycle_table ownership_transfer_definition ownershipTransferMachine
  by unfold_locales (auto simp: ownershipTransferMachine_def table_eval)

section \<open>Witnesses and properties\<close>

lemmas machine_eval =
  workerJobMachine_def machine_of_def build_rules_def build_order_def add_event_def
  map_set_def map_get_def rule_key_def transition_key_def record_definitions

theorem resolve_iff_declared_witness:
  "resolve workerJobMachine ''retrying'' ''retry'' = Ok ''queued''
   \<and> \<not> lifecycle_step worker_job_definition ''queued'' ''succeed'' ''succeeded''"
proof
  note eq = resolve_iff_declared [OF worker_job.accepted, simplified Ball_def]
  have step: "lifecycle_step worker_job_definition ''retrying'' ''retry'' ''queued''"
    using lifecycle_step.declared [of "rule ''retrying'' ''retry'' ''queued''" worker_job_definition]
    by (simp add: worker_job_definition_def)
  show "resolve workerJobMachine ''retrying'' ''retry'' = Ok ''queued''"
    using step by (subst eq) (auto dest: worker_job.separator_free)
  have "resolve workerJobMachine ''queued'' ''succeed'' = Err invalid_transition"
    by (simp add: resolve_def isState_def isTerminal_def machine_eval)
  then show "\<not> lifecycle_step worker_job_definition ''queued'' ''succeed'' ''succeeded''"
    using eq [of "''queued''" "''succeed''" "''succeeded''"]
    by (auto dest: worker_job.separator_free)
qed

lemma settled_stays_settled_witness:
  "foldl (drive workerJobMachine) ''succeeded'' [''start'', ''retry'', ''fail''] = ''succeeded''"
proof -
  have "isTerminal workerJobMachine ''succeeded''"
    by (simp add: worker_job.isTerminal_iff worker_job_definition_def)
  then show ?thesis
    using settled_stays_settled [OF worker_job.accepted] worker_job.separator_free by blast
qed


lemma reach_step: "lifecycle_reach d s \<Longrightarrow> rule s e t \<in> set (def_transitions d) \<Longrightarrow> lifecycle_reach d t"
  using lifecycle_reach.move [of d s e t] lifecycle_step.declared [of "rule s e t" d] by simp

lemma worker_job_reach: "s \<in> set (def_states worker_job_definition) \<Longrightarrow> lifecycle_reach worker_job_definition s"
proof -
  note table = worker_job_definition_def
  have q: "lifecycle_reach worker_job_definition ''queued''"
    using lifecycle_reach.start [of worker_job_definition] by (simp add: table)
  have r: "lifecycle_reach worker_job_definition ''running''"
    by (rule reach_step [OF q, of "''start''"]) (simp add: table)
  have "lifecycle_reach worker_job_definition ''retrying''"
    by (rule reach_step [OF r, of "''fail''"]) (simp add: table)
  moreover have "lifecycle_reach worker_job_definition ''succeeded''"
    by (rule reach_step [OF r, of "''succeed''"]) (simp add: table)
  moreover have "lifecycle_reach worker_job_definition ''dead_lettered''"
    by (rule reach_step [OF r, of "''exhaust''"]) (simp add: table)
  moreover assume "s \<in> set (def_states worker_job_definition)"
  ultimately show ?thesis using q r by (auto simp: table)
qed

text \<open>
  The \<open>worker_job\<close> table has no dead state and no hidden one: the states a job can
  reach from \<open>queued\<close> are exactly the declared ones, and a job driven by any events
  from its initial state is in one of them.
\<close>

lemma worker_job_states_reachable:
  "(lifecycle_reach worker_job_definition s \<longleftrightarrow> s \<in> set (def_states worker_job_definition))
   \<and> foldl (drive workerJobMachine) (initial workerJobMachine) es
       \<in> set (def_states worker_job_definition)"
proof
  show "lifecycle_reach worker_job_definition s \<longleftrightarrow> s \<in> set (def_states worker_job_definition)"
    using worker_job_reach worker_job.reach_declared by blast
  have "initial workerJobMachine = def_initial worker_job_definition"
    by (simp add: initial_def workerJobMachine_def machine_of_def)
  then show "foldl (drive workerJobMachine) (initial workerJobMachine) es
      \<in> set (def_states worker_job_definition)"
    using worker_job.drive_run_reach [OF lifecycle_reach.start] worker_job.reach_declared by simp
qed

text \<open>
  \<open>stateView\<close> and \<open>transitionRecord\<close> answer for every kind except the names of the
  properties \<open>Object.prototype\<close> provides: the registry is an object literal indexed
  without an own-property test, so for those kinds the inherited value passes the
  truthiness test and the method call on it throws.
\<close>

lemma inherited_kind_throws:
  "(stateView kind s = Throws_TypeError \<longleftrightarrow> kind \<in> set object_prototype_keys)
   \<and> (transitionRecord clock cid kind rid s event ctx = Throws_TypeError
        \<longleftrightarrow> kind \<in> set object_prototype_keys)"
  by (auto simp: stateView_def transitionRecord_def recordMachine_def obj_get_def
      RECORD_MACHINES_def object_prototype_keys_def split: option.splits prod.splits if_splits)

text \<open>The moves of a worker job, evaluated: the declared ones, and no move otherwise.\<close>

lemma worker_moves [simp]:
  "drive workerJobMachine ''queued'' ''start'' = ''running''"
  "drive workerJobMachine ''queued'' ''succeed'' = ''queued''"
  "drive workerJobMachine ''queued'' ''fail'' = ''retrying''"
  "drive workerJobMachine ''queued'' ''exhaust'' = ''queued''"
  "drive workerJobMachine ''queued'' ''retry'' = ''queued''"
  "drive workerJobMachine ''queued'' ''dead_letter'' = ''dead_lettered''"
  "drive workerJobMachine ''running'' ''start'' = ''running''"
  "drive workerJobMachine ''running'' ''succeed'' = ''succeeded''"
  "drive workerJobMachine ''running'' ''fail'' = ''retrying''"
  "drive workerJobMachine ''running'' ''exhaust'' = ''dead_lettered''"
  "drive workerJobMachine ''running'' ''retry'' = ''running''"
  "drive workerJobMachine ''running'' ''dead_letter'' = ''dead_lettered''"
  "drive workerJobMachine ''retrying'' ''start'' = ''running''"
  "drive workerJobMachine ''retrying'' ''succeed'' = ''retrying''"
  "drive workerJobMachine ''retrying'' ''fail'' = ''retrying''"
  "drive workerJobMachine ''retrying'' ''exhaust'' = ''dead_lettered''"
  "drive workerJobMachine ''retrying'' ''retry'' = ''queued''"
  "drive workerJobMachine ''retrying'' ''dead_letter'' = ''dead_lettered''"
  "drive workerJobMachine ''succeeded'' ''start'' = ''succeeded''"
  "drive workerJobMachine ''succeeded'' ''succeed'' = ''succeeded''"
  "drive workerJobMachine ''succeeded'' ''fail'' = ''succeeded''"
  "drive workerJobMachine ''succeeded'' ''exhaust'' = ''succeeded''"
  "drive workerJobMachine ''succeeded'' ''retry'' = ''succeeded''"
  "drive workerJobMachine ''succeeded'' ''dead_letter'' = ''succeeded''"
  "drive workerJobMachine ''dead_lettered'' ''start'' = ''dead_lettered''"
  "drive workerJobMachine ''dead_lettered'' ''succeed'' = ''dead_lettered''"
  "drive workerJobMachine ''dead_lettered'' ''fail'' = ''dead_lettered''"
  "drive workerJobMachine ''dead_lettered'' ''exhaust'' = ''dead_lettered''"
  "drive workerJobMachine ''dead_lettered'' ''retry'' = ''dead_lettered''"
  "drive workerJobMachine ''dead_lettered'' ''dead_letter'' = ''dead_lettered''"
  by code_simp+

end
