(* ===== verification/Ownership.thy ===== *)
theory Ownership
  imports Idempotency Lifecycle_Records
begin

text \<open>
  \<open>core/ownership/ownership.ts\<close>: the two-step transfer of a resource, over the idempotency
  store. Instants are in the range of \<open>Date\<close>; the texts of \<open>createdAt\<close>, \<open>expiresAt\<close> and
  \<open>settledAt\<close> are kept as the instants they name, which is what \<open>Date\<close> reads back. The part
  of an id after \<open>ot-\<close> is \<open>gen\<close> of a counter. An operation returns its measured outcome, the
  store and its effects; \<open>Raised\<close> is the exception of the idempotency write.
\<close>

section \<open>State\<close>

datatype transfer_status = Transfer_Pending | Transfer_Accepted | Transfer_Cancelled | Transfer_Rejected | Transfer_Expired

fun transfer_status_text :: "transfer_status \<Rightarrow> string" where
  "transfer_status_text Transfer_Pending = ''pending''"
| "transfer_status_text Transfer_Accepted = ''accepted''"
| "transfer_status_text Transfer_Cancelled = ''cancelled''"
| "transfer_status_text Transfer_Rejected = ''rejected''"
| "transfer_status_text Transfer_Expired = ''expired''"

datatype owner_kind = Owner_User | Owner_Maintainer | Owner_Service | Owner_Contract

record ownership_actor =
  oa_kind :: owner_kind
  oa_id :: string

record transfer_proposal =
  ot_id :: string
  ot_resourceId :: string
  ot_resourceType :: string
  ot_currentOwner :: string
  ot_proposedOwner :: string
  ot_status :: transfer_status
  ot_createdAt :: int
  ot_expiresAt :: int
  ot_settledAt :: "int option"
  ot_priceStroops :: "int option"
  ot_memo :: "string option"
  ot_idempotencyKey :: "string option"
  ot_correlationId :: string
  ot_metadata :: "(string \<times> json) list option"

record initiate_params =
  oi_resourceId :: string
  oi_resourceType :: "string option"
  oi_currentOwner :: string
  oi_proposedOwner :: string
  oi_expiresInMs :: "int option"
  oi_priceStroops :: "int option"
  oi_memo :: "string option"
  oi_idempotencyKey :: "string option"
  oi_actor :: ownership_actor
  oi_metadata :: "(string \<times> json) list option"

record answer_params =
  oc_transferId :: string
  oc_actor :: ownership_actor
  oc_reason :: "string option"
  oc_idempotencyKey :: "string option"

record transfer_filter =
  of_resourceId :: "string option"
  of_resourceType :: "string option"
  of_currentOwner :: "string option"
  of_proposedOwner :: "string option"
  of_status :: "transfer_status option"
  of_activeOnly :: bool

record ownership_store =
  os_proposals :: "(string, transfer_proposal) js_map"
  os_active :: "(string, string) js_map"
  os_idempotency :: idem_store
  os_nextId :: nat

text \<open>A proposal, or the response a replay answers with.\<close>

datatype transfer_answer = Proposal transfer_proposal | Replay json

section \<open>Principals and keys\<close>

definition OWNERSHIP_DEFAULT_EXPIRY_MS :: int where
  "OWNERSHIP_DEFAULT_EXPIRY_MS = 24 * 60 * 60 * 1000"

definition MIN_EXPIRY_MS :: int where
  "MIN_EXPIRY_MS = 60 * 1000"

definition MAX_EXPIRY_MS :: int where
  "MAX_EXPIRY_MS = 30 * 24 * 60 * 60 * 1000"

definition normalizePrincipal :: "string \<Rightarrow> string" where
  "normalizePrincipal i =
     (let trimmed = trim i in if startsWith trimmed ''account:'' then drop (length ''account:'') trimmed else trimmed)"

definition ownership_isValidPrincipal :: "string \<Rightarrow> bool" where
  "ownership_isValidPrincipal i =
     (let norm = normalizePrincipal i in
      \<not> length norm < 4 \<and> length norm \<le> 70 \<and>
      list_all (\<lambda>c. is_upper c \<or> is_lower c \<or> is_digit c \<or> c \<in> set ''_.-'') norm)"

definition createOwnershipStore :: "idem_store \<Rightarrow> ownership_store" where
  "createOwnershipStore idem = \<lparr>os_proposals = [], os_active = [], os_idempotency = idem, os_nextId = 0\<rparr>"

definition resourceKey :: "string \<Rightarrow> string \<Rightarrow> string" where
  "resourceKey resourceType resourceId = resourceType @ '':'' @ resourceId"

definition proposal_key :: "transfer_proposal \<Rightarrow> string" where
  "proposal_key p = resourceKey (ot_resourceType p) (ot_resourceId p)"

text \<open>Store a proposal that left the pending state and clear the pointer of its resource.\<close>

definition settle_proposal :: "transfer_proposal \<Rightarrow> ownership_store \<Rightarrow> ownership_store" where
  "settle_proposal p s =
     s\<lparr>os_proposals := map_set (ot_id p) p (os_proposals s),
       os_active := (if map_get (os_active s) (proposal_key p) = Some (ot_id p)
         then map_remove (proposal_key p) (os_active s) else os_active s)\<rparr>"

definition lapsed :: "transfer_proposal \<Rightarrow> int \<Rightarrow> bool" where
  "lapsed p nowMs = (ot_status p = Transfer_Pending \<and> nowMs \<ge> ot_expiresAt p)"

definition checkExpiration ::
  "ownership_store \<Rightarrow> transfer_proposal \<Rightarrow> int \<Rightarrow> transfer_proposal \<times> ownership_store" where
  "checkExpiration s p nowMs =
     (if lapsed p nowMs
      then let expired = p\<lparr>ot_status := Transfer_Expired, ot_settledAt := Some nowMs\<rparr> in (expired, settle_proposal expired s)
      else (p, s))"

section \<open>Idempotency\<close>

fun idem_error_text :: "idem_error \<Rightarrow> string" where
  "idem_error_text Key_Missing = ''idempotency_key_missing''"
| "idem_error_text Key_Invalid = ''idempotency_key_invalid''"
| "idem_error_text Key_Expired = ''idempotency_key_expired''"
| "idem_error_text Key_Conflict = ''idempotency_key_conflict''"
| "idem_error_text Key_In_Flight = ''idempotency_in_flight''"
| "idem_error_text Key_Not_Found = ''idempotency_not_found''"

definition opt_str :: "string option \<Rightarrow> json" where
  "opt_str v = (case v of None \<Rightarrow> JUndef | Some s \<Rightarrow> JStr s)"

definition proposal_json :: "transfer_proposal \<Rightarrow> json" where
  "proposal_json p =
     JObj [(''id'', JStr (ot_id p)), (''resourceId'', JStr (ot_resourceId p)), (''resourceType'', JStr (ot_resourceType p)),
       (''currentOwner'', JStr (ot_currentOwner p)), (''proposedOwner'', JStr (ot_proposedOwner p)),
       (''status'', JStr (transfer_status_text (ot_status p))), (''createdAt'', JStr (toISOString (ot_createdAt p))),
       (''expiresAt'', JStr (toISOString (ot_expiresAt p))),
       (''priceStroops'', case ot_priceStroops p of None \<Rightarrow> JUndef | Some n \<Rightarrow> JNum n), (''memo'', opt_str (ot_memo p)),
       (''idempotencyKey'', opt_str (ot_idempotencyKey p)), (''correlationId'', JStr (ot_correlationId p)),
       (''metadata'', case ot_metadata p of None \<Rightarrow> JUndef | Some es \<Rightarrow> JObj es),
       (''settledAt'', case ot_settledAt p of None \<Rightarrow> JUndef | Some t \<Rightarrow> JStr (toISOString t))]"

text \<open>\<open>Ok None\<close>: the operation goes on. A missing or empty key skips the store.\<close>

definition begin_transfer ::
  "ownership_store \<Rightarrow> int \<Rightarrow> string \<Rightarrow> string \<Rightarrow> string option \<Rightarrow> json \<Rightarrow>
   (json option, string) result \<times> ownership_store \<times> effect list" where
  "begin_transfer s wall cid operation key request =
     (if key = None \<or> key = Some [] then (Ok None, s, [])
      else
        let (begun, idem, fx) = idem_begin (os_idempotency s) wall cid
              \<lparr>req_key = key, req_operation = operation, req_request = request, req_correlationId = Some cid\<rparr>;
            s' = s\<lparr>os_idempotency := idem\<rparr>
        in (case begun of
              Err e \<Rightarrow> Err (idem_error_text e)
            | Ok (Replayed record) \<Rightarrow> Ok (if json_truthy (idem_response record) then Some (idem_response record) else None)
            | Ok (Claimed record) \<Rightarrow> Ok None,
            s', fx))"

definition complete_transfer ::
  "ownership_store \<Rightarrow> string option \<Rightarrow> transfer_proposal \<Rightarrow> transfer_answer run_outcome \<times> ownership_store \<times> effect list" where
  "complete_transfer s key p =
     (case key of
        None \<Rightarrow> (Settled (Ok (Proposal p)), s, [])
      | Some k \<Rightarrow>
          if k = [] then (Settled (Ok (Proposal p)), s, [])
          else let (r, idem, fx) = idem_complete (os_idempotency s) k (proposal_json p) in
            (case r of
               Throws_TypeError \<Rightarrow> Raised \<lparr>thrown_code = None, thrown_name = Some ''TypeError''\<rparr>
             | Returns _ \<Rightarrow> Settled (Ok (Proposal p)),
             s\<lparr>os_idempotency := idem\<rparr>, fx))"

text \<open>\<open>measureSync\<close> around the body of an operation.\<close>

definition measured ::
  "string \<Rightarrow> transfer_answer run_outcome \<times> ownership_store \<times> effect list \<Rightarrow>
   transfer_answer run_outcome \<times> ownership_store \<times> effect list" where
  "measured op body =
     (let (run, s, fx) = body; (run', fx') = measureSync op ''user'' run in (run', s, fx @ fx'))"

definition failed_with :: "string \<Rightarrow> ownership_store \<Rightarrow> transfer_answer run_outcome \<times> ownership_store \<times> effect list" where
  "failed_with code s = (Settled (Err code), s, [])"

section \<open>Operations\<close>

definition speaks_for :: "ownership_actor \<Rightarrow> string \<Rightarrow> bool" where
  "speaks_for actor owner = (normalizePrincipal (oa_id actor) = normalizePrincipal owner \<or> oa_kind actor = Owner_Maintainer)"

definition initiate_error :: "initiate_params \<Rightarrow> string option" where
  "initiate_error params =
     (let curOwnerNorm = normalizePrincipal (oi_currentOwner params);
          propOwnerNorm = normalizePrincipal (oi_proposedOwner params);
          expiresInMs = (case oi_expiresInMs params of None \<Rightarrow> OWNERSHIP_DEFAULT_EXPIRY_MS | Some t \<Rightarrow> t)
      in if \<not> ownership_isValidPrincipal curOwnerNorm then Some ''invalid_owner''
         else if \<not> ownership_isValidPrincipal propOwnerNorm then Some ''invalid_recipient''
         else if \<not> speaks_for (oi_actor params) (oi_currentOwner params) then Some ''unauthorized_not_owner''
         else if curOwnerNorm = propOwnerNorm then Some ''cannot_transfer_to_self''
         else if expiresInMs < MIN_EXPIRY_MS \<or> expiresInMs > MAX_EXPIRY_MS then Some ''invalid_expiry_window''
         else None)"

definition new_proposal :: "string \<Rightarrow> int \<Rightarrow> string \<Rightarrow> initiate_params \<Rightarrow> transfer_proposal" where
  "new_proposal transferId nowMs cid params =
     \<lparr>ot_id = transferId, ot_resourceId = oi_resourceId params,
      ot_resourceType = (case oi_resourceType params of None \<Rightarrow> ''resource'' | Some t \<Rightarrow> t),
      ot_currentOwner = oi_currentOwner params, ot_proposedOwner = oi_proposedOwner params, ot_status = Transfer_Pending,
      ot_createdAt = nowMs,
      ot_expiresAt = nowMs + (case oi_expiresInMs params of None \<Rightarrow> OWNERSHIP_DEFAULT_EXPIRY_MS | Some t \<Rightarrow> t),
      ot_settledAt = None, ot_priceStroops = oi_priceStroops params, ot_memo = oi_memo params,
      ot_idempotencyKey = oi_idempotencyKey params, ot_correlationId = cid, ot_metadata = oi_metadata params\<rparr>"

text \<open>The conflict check: whether the resource has a transfer that is still pending.\<close>

definition active_conflict :: "ownership_store \<Rightarrow> string \<Rightarrow> int \<Rightarrow> bool \<times> ownership_store" where
  "active_conflict s resKey nowMs =
     (case map_get (os_active s) resKey of
        None \<Rightarrow> (False, s)
      | Some activeId \<Rightarrow>
          if activeId = [] then (False, s)
          else case map_get (os_proposals s) activeId of
            None \<Rightarrow> (False, s)
          | Some existing \<Rightarrow>
              let (evaluated, s') = checkExpiration s existing nowMs in (ot_status evaluated = Transfer_Pending, s'))"

definition transfer_id :: "(nat \<Rightarrow> string) \<Rightarrow> nat \<Rightarrow> string" where
  "transfer_id gen n = ''ot-'' @ gen n"

definition initiate_body ::
  "(nat \<Rightarrow> string) \<Rightarrow> ownership_store \<Rightarrow> int \<Rightarrow> string \<Rightarrow> initiate_params \<Rightarrow>
   transfer_answer run_outcome \<times> ownership_store \<times> effect list" where
  "initiate_body gen s nowMs cid params =
     (case initiate_error params of
        Some code \<Rightarrow> failed_with code s
      | None \<Rightarrow>
          let p = new_proposal (transfer_id gen (os_nextId s)) nowMs cid params;
              (conflict, s1) = active_conflict s (proposal_key p) nowMs
          in if conflict then failed_with ''transfer_active_conflict'' s1
             else complete_transfer
               (s1\<lparr>os_proposals := map_set (ot_id p) p (os_proposals s1),
                   os_active := map_set (proposal_key p) (ot_id p) (os_active s1), os_nextId := os_nextId s1 + 1\<rparr>)
               (oi_idempotencyKey params) p)"

definition initiate_request :: "initiate_params \<Rightarrow> json" where
  "initiate_request params =
     JObj [(''resourceId'', JStr (oi_resourceId params)),
       (''resourceType'', JStr (case oi_resourceType params of None \<Rightarrow> ''resource'' | Some t \<Rightarrow> t)),
       (''currentOwner'', JStr (oi_currentOwner params)), (''proposedOwner'', JStr (oi_proposedOwner params))]"

definition after_begin ::
  "(json option, string) result \<times> ownership_store \<times> effect list \<Rightarrow>
   (ownership_store \<Rightarrow> transfer_answer run_outcome \<times> ownership_store \<times> effect list) \<Rightarrow>
   transfer_answer run_outcome \<times> ownership_store \<times> effect list" where
  "after_begin begun body =
     (case begun of
        (Err code, s, fx) \<Rightarrow> (Settled (Err code), s, fx)
      | (Ok (Some response), s, fx) \<Rightarrow> (Settled (Ok (Replay response)), s, fx)
      | (Ok None, s, fx) \<Rightarrow> let (run, s', fx') = body s in (run, s', fx @ fx'))"

text \<open>\<open>wall\<close> is the clock of the idempotency store, \<open>nowMs\<close> the one of the transfer.\<close>

definition transfer_initiate ::
  "(nat \<Rightarrow> string) \<Rightarrow> ownership_store \<Rightarrow> int \<Rightarrow> int \<Rightarrow> string \<Rightarrow> initiate_params \<Rightarrow>
   transfer_answer run_outcome \<times> ownership_store \<times> effect list" where
  "transfer_initiate gen s wall nowMs cid params =
     measured ''ownership.propose''
       (after_begin (begin_transfer s wall cid ''ownership.propose'' (oi_idempotencyKey params) (initiate_request params))
         (\<lambda>s. initiate_body gen s nowMs cid params))"

text \<open>The transfer an answer is about, if it is still open.\<close>

definition open_transfer :: "ownership_store \<Rightarrow> string \<Rightarrow> int \<Rightarrow> (transfer_proposal, string) result \<times> ownership_store" where
  "open_transfer s transferId nowMs =
     (case map_get (os_proposals s) transferId of
        None \<Rightarrow> (Err ''transfer_not_found'', s)
      | Some raw \<Rightarrow>
          let (p, s') = checkExpiration s raw nowMs in
          (if ot_status p \<in> {Transfer_Accepted, Transfer_Cancelled, Transfer_Rejected} then Err ''transfer_already_settled''
           else if ot_status p = Transfer_Expired then Err ''transfer_expired'' else Ok p, s'))"

definition accept_body ::
  "ownership_store \<Rightarrow> int \<Rightarrow> answer_params \<Rightarrow> transfer_answer run_outcome \<times> ownership_store \<times> effect list" where
  "accept_body s nowMs params =
     (case open_transfer s (oc_transferId params) nowMs of
        (Err code, s1) \<Rightarrow> failed_with code s1
      | (Ok p, s1) \<Rightarrow>
          if \<not> speaks_for (oc_actor params) (ot_proposedOwner p) then failed_with ''unauthorized_not_recipient'' s1
          else let accepted = p\<lparr>ot_status := Transfer_Accepted, ot_settledAt := Some nowMs\<rparr> in
            complete_transfer (settle_proposal accepted s1) (oc_idempotencyKey params) accepted)"

definition transfer_accept ::
  "ownership_store \<Rightarrow> int \<Rightarrow> int \<Rightarrow> string \<Rightarrow> answer_params \<Rightarrow>
   transfer_answer run_outcome \<times> ownership_store \<times> effect list" where
  "transfer_accept s wall nowMs cid params =
     measured ''ownership.accept''
       (after_begin (begin_transfer s wall cid ''ownership.accept'' (oc_idempotencyKey params)
           (JObj [(''transferId'', JStr (oc_transferId params))]))
         (\<lambda>s. accept_body s nowMs params))"

definition with_reason :: "string \<Rightarrow> answer_params \<Rightarrow> transfer_proposal \<Rightarrow> (string \<times> json) list" where
  "with_reason key params p =
     map_set key (opt_str (oc_reason params)) (case ot_metadata p of None \<Rightarrow> [] | Some es \<Rightarrow> es)"

definition transfer_cancel ::
  "ownership_store \<Rightarrow> int \<Rightarrow> answer_params \<Rightarrow> transfer_answer run_outcome \<times> ownership_store \<times> effect list" where
  "transfer_cancel s nowMs params =
     measured ''ownership.cancel''
       (case open_transfer s (oc_transferId params) nowMs of
          (Err code, s1) \<Rightarrow> failed_with code s1
        | (Ok p, s1) \<Rightarrow>
            if \<not> speaks_for (oc_actor params) (ot_currentOwner p) then failed_with ''unauthorized_not_owner'' s1
            else let cancelled = p\<lparr>ot_status := Transfer_Cancelled, ot_settledAt := Some nowMs,
                  ot_metadata := Some (with_reason ''cancellationReason'' params p)\<rparr> in
              (Settled (Ok (Proposal cancelled)), settle_proposal cancelled s1, []))"

definition transfer_reject ::
  "ownership_store \<Rightarrow> int \<Rightarrow> answer_params \<Rightarrow> transfer_answer run_outcome \<times> ownership_store \<times> effect list" where
  "transfer_reject s nowMs params =
     measured ''ownership.reject''
       (case open_transfer s (oc_transferId params) nowMs of
          (Err code, s1) \<Rightarrow> failed_with code s1
        | (Ok p, s1) \<Rightarrow>
            if \<not> speaks_for (oc_actor params) (ot_proposedOwner p) then failed_with ''unauthorized_not_recipient'' s1
            else let rejected = p\<lparr>ot_status := Transfer_Rejected, ot_settledAt := Some nowMs,
                  ot_metadata := Some (with_reason ''rejectionReason'' params p)\<rparr> in
              (Settled (Ok (Proposal rejected)), settle_proposal rejected s1, []))"

definition getTransfer :: "ownership_store \<Rightarrow> string \<Rightarrow> int \<Rightarrow> transfer_proposal option \<times> ownership_store" where
  "getTransfer s transferId nowMs =
     (case map_get (os_proposals s) transferId of
        None \<Rightarrow> (None, s)
      | Some raw \<Rightarrow> let (p, s') = checkExpiration s raw nowMs in (Some p, s'))"

definition getActiveTransferForResource ::
  "ownership_store \<Rightarrow> string \<Rightarrow> string \<Rightarrow> int \<Rightarrow> transfer_proposal option \<times> ownership_store" where
  "getActiveTransferForResource s resourceType resourceId nowMs =
     (let resKey = resourceKey resourceType resourceId;
          unlink = (\<lambda>s. s\<lparr>os_active := map_remove resKey (os_active s)\<rparr>)
      in case map_get (os_active s) resKey of
           None \<Rightarrow> (None, s)
         | Some transferId \<Rightarrow>
             if transferId = [] then (None, s)
             else case map_get (os_proposals s) transferId of
               None \<Rightarrow> (None, unlink s)
             | Some raw \<Rightarrow>
                 let (evaluated, s') = checkExpiration s raw nowMs in
                 if ot_status evaluated \<noteq> Transfer_Pending then (None, unlink s') else (Some evaluated, s'))"

definition filter_text :: "string option \<Rightarrow> (string \<Rightarrow> bool) \<Rightarrow> bool" where
  "filter_text v P = (case v of None \<Rightarrow> True | Some t \<Rightarrow> t = [] \<or> P t)"

definition transfer_matches :: "transfer_filter \<Rightarrow> transfer_proposal \<Rightarrow> bool" where
  "transfer_matches f p =
     (filter_text (of_resourceId f) (\<lambda>t. ot_resourceId p = t) \<and>
      filter_text (of_resourceType f) (\<lambda>t. ot_resourceType p = t) \<and>
      filter_text (of_currentOwner f) (\<lambda>t. normalizePrincipal (ot_currentOwner p) = normalizePrincipal t) \<and>
      filter_text (of_proposedOwner f) (\<lambda>t. normalizePrincipal (ot_proposedOwner p) = normalizePrincipal t) \<and>
      (case of_status f of None \<Rightarrow> True | Some st \<Rightarrow> ot_status p = st) \<and>
      (of_activeOnly f \<longrightarrow> ot_status p = Transfer_Pending))"

text \<open>The values of the map; expiring one of them replaces it in place.\<close>

fun query_loop ::
  "transfer_filter \<Rightarrow> int \<Rightarrow> transfer_proposal list \<Rightarrow> ownership_store \<Rightarrow> transfer_proposal list \<times> ownership_store" where
  "query_loop f nowMs [] s = ([], s)"
| "query_loop f nowMs (raw # raws) s =
     (let (p, s1) = checkExpiration s raw nowMs;
          (results, s2) = query_loop f nowMs raws s1
      in (if transfer_matches f p then p # results else results, s2))"

definition queryTransfers :: "ownership_store \<Rightarrow> transfer_filter \<Rightarrow> int \<Rightarrow> transfer_proposal list \<times> ownership_store" where
  "queryTransfers s f nowMs = query_loop f nowMs (map_values (os_proposals s)) s"

fun sweep_loop :: "int \<Rightarrow> transfer_proposal list \<Rightarrow> nat \<times> ownership_store \<Rightarrow> nat \<times> ownership_store" where
  "sweep_loop nowMs [] (n, s) = (n, s)"
| "sweep_loop nowMs (p # ps) (n, s) =
     (if lapsed p nowMs
      then sweep_loop nowMs ps (n + 1, settle_proposal (p\<lparr>ot_status := Transfer_Expired, ot_settledAt := Some nowMs\<rparr>) s)
      else sweep_loop nowMs ps (n, s))"

definition sweepExpired :: "ownership_store \<Rightarrow> int \<Rightarrow> nat \<times> ownership_store" where
  "sweepExpired s nowMs = sweep_loop nowMs (map_values (os_proposals s)) (0, s)"

definition ownership_clear :: "ownership_store \<Rightarrow> ownership_store" where
  "ownership_clear s = s\<lparr>os_proposals := [], os_active := []\<rparr>"

end
