(* ===== verification/Ownership_Runs.thy ===== *)
theory Ownership_Runs
  imports Ownership
begin

text \<open>
  Runs of the ownership store: proposals, answers, queries and sweeps in any order and at
  any instants. Every operation changes the proposals by settling pending ones, and
  \<open>initiate\<close> adds one.
\<close>

section \<open>Runs\<close>

datatype ownership_event =
    Initiate int int string initiate_params
  | Accept int int string answer_params
  | Cancel int answer_params
  | Reject int answer_params
  | Get_Transfer string int
  | Get_Active string string int
  | Query transfer_filter int
  | Sweep int
  | Clear_Transfers

fun own_step :: "(nat \<Rightarrow> string) \<Rightarrow> ownership_store \<Rightarrow> ownership_event \<Rightarrow> ownership_store" where
  "own_step gen s (Initiate wall now cid params) = fst (snd (transfer_initiate gen s wall now cid params))"
| "own_step gen s (Accept wall now cid params) = fst (snd (transfer_accept s wall now cid params))"
| "own_step gen s (Cancel now params) = fst (snd (transfer_cancel s now params))"
| "own_step gen s (Reject now params) = fst (snd (transfer_reject s now params))"
| "own_step gen s (Get_Transfer i now) = snd (getTransfer s i now)"
| "own_step gen s (Get_Active ty i now) = snd (getActiveTransferForResource s ty i now)"
| "own_step gen s (Query f now) = snd (queryTransfers s f now)"
| "own_step gen s (Sweep now) = snd (sweepExpired s now)"
| "own_step gen s Clear_Transfers = ownership_clear s"

section \<open>The invariant\<close>

text \<open>A pending transfer is the one its resource points to; ids are the ones given out.\<close>

definition own_ok :: "(nat \<Rightarrow> string) \<Rightarrow> ownership_store \<Rightarrow> bool" where
  "own_ok gen s =
     (map_wf (os_proposals s) \<and>
      (\<forall>i p. map_get (os_proposals s) i = Some p \<longrightarrow>
         ot_id p = i \<and> (\<exists>n < os_nextId s. i = transfer_id gen n) \<and>
         (ot_status p = Transfer_Pending \<longrightarrow> map_get (os_active s) (proposal_key p) = Some i)))"

lemma own_okD:
  assumes "own_ok gen s" "map_get (os_proposals s) i = Some p"
  shows "ot_id p = i" "\<exists>n < os_nextId s. i = transfer_id gen n" "i \<noteq> []"
    "ot_status p = Transfer_Pending \<Longrightarrow> map_get (os_active s) (proposal_key p) = Some i"
  using assms by (auto simp: own_ok_def transfer_id_def)

text \<open>What a transfer keeps for life.\<close>

definition same_transfer :: "transfer_proposal \<Rightarrow> transfer_proposal \<Rightarrow> bool" where
  "same_transfer p q =
     (ot_id q = ot_id p \<and> ot_resourceId q = ot_resourceId p \<and> ot_resourceType q = ot_resourceType p \<and>
      ot_currentOwner q = ot_currentOwner p \<and> ot_proposedOwner q = ot_proposedOwner p \<and>
      ot_createdAt q = ot_createdAt p \<and> ot_expiresAt q = ot_expiresAt p)"

lemma same_key: "same_transfer p q \<Longrightarrow> proposal_key q = proposal_key p"
  by (simp add: same_transfer_def proposal_key_def)

text \<open>\<open>R\<close> relates a pending transfer to the settled one that replaces it.\<close>

definition settles :: "(transfer_proposal \<Rightarrow> transfer_proposal \<Rightarrow> bool) \<Rightarrow> transfer_proposal \<Rightarrow> transfer_proposal \<Rightarrow> bool" where
  "settles R p q = (ot_status p = Transfer_Pending \<and> ot_status q \<noteq> Transfer_Pending \<and> same_transfer p q \<and> R p q)"

definition changed ::
  "(nat \<Rightarrow> string) \<Rightarrow> (transfer_proposal \<Rightarrow> transfer_proposal \<Rightarrow> bool) \<Rightarrow> ownership_store \<Rightarrow> ownership_store \<Rightarrow> bool" where
  "changed gen R s t =
     (own_ok gen t \<and> os_nextId t = os_nextId s \<and>
      (\<forall>i. map_get (os_proposals s) i \<noteq> None \<longrightarrow> map_get (os_proposals t) i \<noteq> None) \<and>
      (\<forall>i q. map_get (os_proposals t) i = Some q \<longrightarrow> (\<exists>p. map_get (os_proposals s) i = Some p \<and> (q = p \<or> settles R p q))))"

lemma changed_refl: "own_ok gen s \<Longrightarrow> changed gen R s s"
  by (simp add: changed_def)

lemma changed_back:
  "changed gen R s t \<Longrightarrow> map_get (os_proposals t) i = Some q \<Longrightarrow>
     \<exists>p. map_get (os_proposals s) i = Some p \<and> (q = p \<or> settles R p q)"
  by (simp add: changed_def)

lemma changed_get:
  assumes "changed gen R s t" "map_get (os_proposals s) i = Some p"
  shows "\<exists>q. map_get (os_proposals t) i = Some q \<and> (q = p \<or> settles R p q)"
proof -
  have "map_get (os_proposals t) i \<noteq> None" using assms by (simp add: changed_def)
  then obtain q where q: "map_get (os_proposals t) i = Some q" by blast
  with changed_back [OF assms(1) q] assms(2) show ?thesis by simp
qed

lemma changed_ok: "changed gen R s t \<Longrightarrow> own_ok gen t" "changed gen R s t \<Longrightarrow> os_nextId t = os_nextId s"
  by (simp_all add: changed_def)

lemma changed_trans:
  assumes "changed gen R s t" "changed gen R t u"
  shows "changed gen R s u"
proof -
  have "\<exists>p. map_get (os_proposals s) i = Some p \<and> (r = p \<or> settles R p r)" if r: "map_get (os_proposals u) i = Some r" for i r
  proof -
    obtain q where q: "map_get (os_proposals t) i = Some q" "r = q \<or> settles R q r"
      using changed_back [OF assms(2) r] by blast
    obtain p where p: "map_get (os_proposals s) i = Some p" "q = p \<or> settles R p q"
      using changed_back [OF assms(1) q(1)] by blast
    with q(2) show ?thesis by (auto simp: settles_def)
  qed
  with assms show ?thesis by (simp add: changed_def)
qed

lemma changed_weaken:
  assumes "changed gen R s t" "\<And>p q. R p q \<Longrightarrow> R' p q"
  shows "changed gen R' s t"
proof -
  have "settles R p q \<Longrightarrow> settles R' p q" for p q using assms(2) by (simp add: settles_def)
  with assms(1) show ?thesis unfolding changed_def by blast
qed

lemma settle_changed:
  assumes ok: "own_ok gen s" and p: "map_get (os_proposals s) (ot_id q) = Some p" and "settles R p q"
  shows "changed gen R s (settle_proposal q s)"
proof -
  have key: "proposal_key q = proposal_key p" and q: "ot_status q \<noteq> Transfer_Pending"
    using assms(3) same_key by (auto simp: settles_def)
  have "map_get (os_active (settle_proposal q s)) (proposal_key r) = Some i"
    if "map_get (os_active s) (proposal_key r) = Some i" "i \<noteq> ot_id q" for r i
    using that by (auto simp: settle_proposal_def map_get_remove)
  then have "own_ok gen (settle_proposal q s)"
    using ok q own_okD(2) [OF ok p] by (auto simp: own_ok_def settle_proposal_def map_get_set)
  then show ?thesis
    using p assms(3) by (auto simp: changed_def settle_proposal_def map_get_set)
qed

definition expires :: "transfer_proposal \<Rightarrow> transfer_proposal \<Rightarrow> bool" where
  "expires p q = (ot_status q = Transfer_Expired)"

lemma lapse_changed:
  assumes "own_ok gen s" "map_get (os_proposals s) (ot_id p) = Some p" "lapsed p now"
  shows "changed gen expires s (settle_proposal (p\<lparr>ot_status := Transfer_Expired, ot_settledAt := Some now\<rparr>) s)"
  using assms by (intro settle_changed [of _ _ _ p]) (auto simp: settles_def expires_def same_transfer_def lapsed_def)

lemma check_changed:
  assumes "own_ok gen s" "map_get (os_proposals s) i = Some p"
  shows "changed gen expires s (snd (checkExpiration s p now))"
    and "map_get (os_proposals (snd (checkExpiration s p now))) i = Some (fst (checkExpiration s p now))"
    and "fst (checkExpiration s p now) = p \<or> ot_status (fst (checkExpiration s p now)) = Transfer_Expired"
    and "ot_status (fst (checkExpiration s p now)) = Transfer_Pending \<Longrightarrow> fst (checkExpiration s p now) = p \<and> now < ot_expiresAt p"
  using assms lapse_changed [of gen s p now] changed_refl [of gen s] own_okD(1) [OF assms]
  by (auto simp: checkExpiration_def Let_def settle_proposal_def lapsed_def)

lemma unlink_changed:
  assumes "own_ok gen s"
    "\<And>i p. map_get (os_active s) k = Some i \<Longrightarrow> map_get (os_proposals s) i = Some p \<Longrightarrow> ot_status p \<noteq> Transfer_Pending"
  shows "changed gen R s (s\<lparr>os_active := map_remove k (os_active s)\<rparr>)"
proof -
  have "own_ok gen (s\<lparr>os_active := map_remove k (os_active s)\<rparr>)"
    using assms by (auto simp: own_ok_def map_get_remove)
  then show ?thesis by (simp add: changed_def)
qed

lemma idem_changed: "own_ok gen s \<Longrightarrow> changed gen R s (s\<lparr>os_idempotency := idem\<rparr>)"
  by (simp add: changed_def own_ok_def)

section \<open>What the operations do\<close>

lemma check_other: "j \<noteq> ot_id p \<Longrightarrow> map_get (os_proposals (snd (checkExpiration s p now))) j = map_get (os_proposals s) j"
  by (simp add: checkExpiration_def settle_proposal_def Let_def)

lemma settle_other: "j \<noteq> ot_id q \<Longrightarrow> map_get (os_proposals (settle_proposal q s)) j = map_get (os_proposals s) j"
  by (simp add: settle_proposal_def)

lemma values_stored:
  assumes "own_ok gen s"
  shows "list_all (\<lambda>p. map_get (os_proposals s) (ot_id p) = Some p) (map_values (os_proposals s))"
    and "distinct (map ot_id (map_values (os_proposals s)))"
proof -
  have wf: "map_wf (os_proposals s)" using assms by (simp add: own_ok_def)
  have ids: "ot_id p = i" if "(i, p) \<in> set (os_proposals s)" for i p
    using that map_wf_get_iff [OF wf, of i p] own_okD(1) [OF assms, of i p] by simp
  then have "map ot_id (map_values (os_proposals s)) = map fst (os_proposals s)"
    by (auto simp: map_values_def)
  then show "distinct (map ot_id (map_values (os_proposals s)))" using wf by (simp add: map_wf_def)
  show "list_all (\<lambda>p. map_get (os_proposals s) (ot_id p) = Some p) (map_values (os_proposals s))"
    using ids by (auto simp: list_all_iff map_values_def map_wf_get_iff [OF wf])
qed

lemma other_ids: "distinct (map ot_id (p # ps)) \<Longrightarrow> q \<in> set ps \<Longrightarrow> ot_id q \<noteq> ot_id p"
  by (auto simp: image_iff)

lemma query_changed:
  assumes "own_ok gen s" "list_all (\<lambda>p. map_get (os_proposals s) (ot_id p) = Some p) ps" "distinct (map ot_id ps)"
  shows "changed gen expires s (snd (query_loop f now ps s))"
  using assms
proof (induction ps arbitrary: s)
  case (Cons p ps)
  let ?s = "snd (checkExpiration s p now)"
  have c: "changed gen expires s ?s" using Cons.prems by (intro check_changed(1) [of gen s "ot_id p"]) simp_all
  have "list_all (\<lambda>q. map_get (os_proposals ?s) (ot_id q) = Some q) ps"
    using Cons.prems(2) other_ids [OF Cons.prems(3)] by (simp add: list_all_iff check_other)
  with Cons.IH [of ?s] Cons.prems(3) changed_ok(1) [OF c] have "changed gen expires ?s (snd (query_loop f now ps ?s))" by simp
  with changed_trans [OF c] show ?case by (simp add: split_beta Let_def)
qed (simp add: changed_refl)

lemma sweep_changed:
  assumes "own_ok gen s" "list_all (\<lambda>p. map_get (os_proposals s) (ot_id p) = Some p) ps" "distinct (map ot_id ps)"
  shows "changed gen expires s (snd (sweep_loop now ps (n, s)))"
  using assms
proof (induction ps arbitrary: s n)
  case (Cons p ps)
  show ?case
  proof (cases "lapsed p now")
    case True
    let ?s = "settle_proposal (p\<lparr>ot_status := Transfer_Expired, ot_settledAt := Some now\<rparr>) s"
    have c: "changed gen expires s ?s" using Cons.prems True by (intro lapse_changed) simp_all
    have "list_all (\<lambda>q. map_get (os_proposals ?s) (ot_id q) = Some q) ps"
      using Cons.prems(2) other_ids [OF Cons.prems(3)] by (simp add: list_all_iff settle_other)
    then have "changed gen expires ?s (snd (sweep_loop now ps (n + 1, ?s)))"
      using Cons.prems(3) changed_ok(1) [OF c] by (intro Cons.IH) simp_all
    then have "changed gen expires s (snd (sweep_loop now ps (n + 1, ?s)))" by (rule changed_trans [OF c])
    then show ?thesis by (simp add: True)
  next
    case False
    with Cons show ?thesis by simp
  qed
qed (simp add: changed_refl)

lemma open_changed:
  assumes "own_ok gen s"
  shows "changed gen expires s (snd (open_transfer s i now))"
    and "fst (open_transfer s i now) = Ok p \<Longrightarrow> map_get (os_proposals s) i = Some p \<and> ot_status p = Transfer_Pending \<and>
      now < ot_expiresAt p \<and> map_get (os_proposals (snd (open_transfer s i now))) i = Some p"
proof -
  show "changed gen expires s (snd (open_transfer s i now))"
    using check_changed(1) [OF assms] changed_refl [OF assms]
    by (auto simp: open_transfer_def split_beta Let_def split: option.split)
  assume *: "fst (open_transfer s i now) = Ok p"
  then obtain raw where raw: "map_get (os_proposals s) i = Some raw" "p = fst (checkExpiration s raw now)"
      "ot_status p \<notin> {Transfer_Accepted, Transfer_Cancelled, Transfer_Rejected, Transfer_Expired}"
    by (auto simp: open_transfer_def split_beta Let_def split: option.splits if_splits)
  then have "ot_status p = Transfer_Pending" by (cases "ot_status p") simp_all
  with check_changed(2,4) [OF assms raw(1), of now] raw
  show "map_get (os_proposals s) i = Some p \<and> ot_status p = Transfer_Pending \<and>
      now < ot_expiresAt p \<and> map_get (os_proposals (snd (open_transfer s i now))) i = Some p"
    by (simp add: open_transfer_def split_beta Let_def)
qed

lemma answer_changed:
  assumes ok: "own_ok gen s" and op: "open_transfer s i now = (Ok p, s1)"
    and q: "same_transfer p q" "ot_status q \<noteq> Transfer_Pending" "R p q" and R: "\<And>p q. expires p q \<Longrightarrow> R p q"
  shows "changed gen R s (settle_proposal q s1)"
proof -
  have c: "changed gen R s s1" using changed_weaken [OF open_changed(1) [OF ok, of i now]] R op by simp
  have p: "map_get (os_proposals s1) i = Some p" "ot_status p = Transfer_Pending"
    using open_changed(2) [OF ok, of i now p] op by simp_all
  have "ot_id q = i" using own_okD(1) [OF changed_ok(1) [OF c] p(1)] q(1) by (simp add: same_transfer_def)
  with p q have "changed gen R s1 (settle_proposal q s1)"
    by (intro settle_changed [OF changed_ok(1) [OF c], of _ p]) (simp_all add: settles_def)
  with c show ?thesis by (rule changed_trans)
qed

lemma measured_parts [simp]: "fst (measured op b) = fst b" "fst (snd (measured op b)) = fst (snd b)"
  by (simp_all add: measured_def measureSync_def split_beta Let_def)

lemma begin_store: "\<exists>idem. fst (snd (begin_transfer s wall cid op key req)) = s\<lparr>os_idempotency := idem\<rparr>"
proof (cases "key = None \<or> key = Some []")
  case True
  then show ?thesis by (intro exI [of _ "os_idempotency s"]) (auto simp: begin_transfer_def)
qed (auto simp: begin_transfer_def split_beta Let_def)

lemma complete_store: "\<exists>idem. fst (snd (complete_transfer s key p)) = s\<lparr>os_idempotency := idem\<rparr>"
proof (cases "key = None \<or> key = Some []")
  case True
  then show ?thesis by (intro exI [of _ "os_idempotency s"]) (auto simp: complete_transfer_def)
qed (auto simp: complete_transfer_def split_beta Let_def split: option.split)

lemma after_begin_store:
  "fst (snd (after_begin b body)) = fst (snd b) \<or> fst (snd (after_begin b body)) = fst (snd (body (fst (snd b))))"
  by (auto simp: after_begin_def split_beta Let_def split: prod.split result.split option.split)

section \<open>Steps\<close>

definition accepts :: "answer_params \<Rightarrow> int \<Rightarrow> transfer_proposal \<Rightarrow> transfer_proposal \<Rightarrow> bool" where
  "accepts params now p q =
     (ot_status q = Transfer_Accepted \<and> oc_transferId params = ot_id p \<and> speaks_for (oc_actor params) (ot_proposedOwner p) \<and>
      now < ot_expiresAt p \<and> ot_settledAt q = Some now)"

fun settled_by :: "ownership_event \<Rightarrow> transfer_proposal \<Rightarrow> transfer_proposal \<Rightarrow> bool" where
  "settled_by (Accept wall now cid params) p q = (expires p q \<or> accepts params now p q)"
| "settled_by (Cancel now params) p q = (expires p q \<or> ot_status q = Transfer_Cancelled \<and>
     oc_transferId params = ot_id p \<and> speaks_for (oc_actor params) (ot_currentOwner p))"
| "settled_by (Reject now params) p q = (expires p q \<or> ot_status q = Transfer_Rejected \<and>
     oc_transferId params = ot_id p \<and> speaks_for (oc_actor params) (ot_proposedOwner p))"
| "settled_by _ p q = expires p q"

lemma expires_settled: "expires p q \<Longrightarrow> settled_by e p q"
  by (cases e) simp_all

lemma expired_changes: "changed gen expires s t \<Longrightarrow> changed gen (settled_by e) s t"
  using changed_weaken [of gen expires s t "settled_by e"] expires_settled by blast

lemma begun_changed:
  assumes "own_ok gen s" "\<And>s1. own_ok gen s1 \<Longrightarrow> changed gen R s1 (fst (snd (body s1)))"
  shows "changed gen R s (fst (snd (after_begin (begin_transfer s wall cid op key req) body)))"
proof -
  obtain idem where b: "fst (snd (begin_transfer s wall cid op key req)) = s\<lparr>os_idempotency := idem\<rparr>" using begin_store by blast
  have c: "changed gen R s (s\<lparr>os_idempotency := idem\<rparr>)" by (rule idem_changed [OF assms(1)])
  have "changed gen R s (fst (snd (body (s\<lparr>os_idempotency := idem\<rparr>))))"
    using changed_trans [OF c assms(2) [OF changed_ok(1) [OF c]]] .
  with after_begin_store [of "begin_transfer s wall cid op key req" body] b c show ?thesis by auto
qed

lemma completed_changed:
  assumes "changed gen R s t"
  shows "changed gen R s (fst (snd (complete_transfer t key p)))"
proof -
  obtain idem where "fst (snd (complete_transfer t key p)) = t\<lparr>os_idempotency := idem\<rparr>" using complete_store by blast
  then show ?thesis using changed_trans [OF assms idem_changed [OF changed_ok(1) [OF assms]]] by simp
qed

text \<open>An answer settles the transfer it names when it is open and the caller may give it.\<close>

lemma answered_changed:
  assumes ok: "own_ok gen s" and R: "\<And>p q. expires p q \<Longrightarrow> R p q"
    and f: "\<And>p. allowed p \<Longrightarrow> ot_id p = i \<Longrightarrow> now < ot_expiresAt p \<Longrightarrow>
      same_transfer p (f p) \<and> ot_status (f p) \<noteq> Transfer_Pending \<and> R p (f p)"
  shows "changed gen R s (case open_transfer s i now of
      (Err code, s1) \<Rightarrow> s1 | (Ok p, s1) \<Rightarrow> if allowed p then settle_proposal (f p) s1 else s1)"
proof -
  obtain r s1 where o: "open_transfer s i now = (r, s1)" by fastforce
  have c: "changed gen R s s1" using changed_weaken [OF open_changed(1) [OF ok, of i now], of R] R o by simp
  show ?thesis
  proof (cases "\<exists>p. r = Ok p \<and> allowed p")
    case True
    then obtain p where p: "r = Ok p" "allowed p" by blast
    then have q: "map_get (os_proposals s) i = Some p" "now < ot_expiresAt p"
      using open_changed(2) [OF ok, of i now p] o by simp_all
    from f [OF p(2) own_okD(1) [OF ok q(1)] q(2)]
    have "changed gen R s (settle_proposal (f p) s1)"
      using R o p(1) by (intro answer_changed [OF ok, of i now p s1]) simp_all
    with o p show ?thesis by simp
  next
    case False
    with o c show ?thesis by (cases r) simp_all
  qed
qed

lemma accept_changed:
  assumes "own_ok gen s"
  shows "changed gen (settled_by (Accept wall now cid params)) s (fst (snd (accept_body s now params)))"
proof -
  let ?f = "\<lambda>p. p\<lparr>ot_status := Transfer_Accepted, ot_settledAt := Some now\<rparr>"
  obtain r s1 where o: "open_transfer s (oc_transferId params) now = (r, s1)" by fastforce
  let ?t = "case r of Err code \<Rightarrow> s1 | Ok p \<Rightarrow> if speaks_for (oc_actor params) (ot_proposedOwner p) then settle_proposal (?f p) s1 else s1"
  have "changed gen (settled_by (Accept wall now cid params)) s ?t"
    using answered_changed [OF assms, where R = "settled_by (Accept wall now cid params)" and i = "oc_transferId params" and
        now = now and allowed = "\<lambda>p. speaks_for (oc_actor params) (ot_proposedOwner p)" and f = ?f] o
    by (simp add: same_transfer_def accepts_def)
  moreover have "fst (snd (accept_body s now params)) = ?t \<or> (\<exists>k p. fst (snd (accept_body s now params)) = fst (snd (complete_transfer ?t k p)))"
    by (cases r) (auto simp: accept_body_def failed_with_def o Let_def)
  ultimately show ?thesis using completed_changed by auto
qed

lemma cancel_changed:
  assumes "own_ok gen s"
  shows "changed gen (settled_by (Cancel now params)) s (fst (snd (transfer_cancel s now params)))"
proof -
  let ?f = "\<lambda>p. p\<lparr>ot_status := Transfer_Cancelled, ot_settledAt := Some now, ot_metadata := Some (with_reason ''cancellationReason'' params p)\<rparr>"
  have "fst (snd (transfer_cancel s now params)) = (case open_transfer s (oc_transferId params) now of
      (Err code, s1) \<Rightarrow> s1 | (Ok p, s1) \<Rightarrow> if speaks_for (oc_actor params) (ot_currentOwner p) then settle_proposal (?f p) s1 else s1)"
    by (simp add: transfer_cancel_def failed_with_def Let_def split: prod.split result.split)
  then show ?thesis
    using answered_changed [OF assms, where R = "settled_by (Cancel now params)" and i = "oc_transferId params" and now = now and
        allowed = "\<lambda>p. speaks_for (oc_actor params) (ot_currentOwner p)" and f = ?f]
    by (simp add: same_transfer_def)
qed

lemma reject_changed:
  assumes "own_ok gen s"
  shows "changed gen (settled_by (Reject now params)) s (fst (snd (transfer_reject s now params)))"
proof -
  let ?f = "\<lambda>p. p\<lparr>ot_status := Transfer_Rejected, ot_settledAt := Some now, ot_metadata := Some (with_reason ''rejectionReason'' params p)\<rparr>"
  have "fst (snd (transfer_reject s now params)) = (case open_transfer s (oc_transferId params) now of
      (Err code, s1) \<Rightarrow> s1 | (Ok p, s1) \<Rightarrow> if speaks_for (oc_actor params) (ot_proposedOwner p) then settle_proposal (?f p) s1 else s1)"
    by (simp add: transfer_reject_def failed_with_def Let_def split: prod.split result.split)
  then show ?thesis
    using answered_changed [OF assms, where R = "settled_by (Reject now params)" and i = "oc_transferId params" and now = now and
        allowed = "\<lambda>p. speaks_for (oc_actor params) (ot_proposedOwner p)" and f = ?f]
    by (simp add: same_transfer_def)
qed

text \<open>
  The new transfer in the store, added to one in which its resource has no pending
  transfer.
\<close>

definition added :: "(nat \<Rightarrow> string) \<Rightarrow> initiate_params \<Rightarrow> int \<Rightarrow> string \<Rightarrow> ownership_store \<Rightarrow> ownership_store \<Rightarrow> bool" where
  "added gen params now cid s t =
     (let p = new_proposal (transfer_id gen (os_nextId s)) now cid params in
      initiate_error params = None \<and> os_proposals t = map_set (ot_id p) p (os_proposals s) \<and>
      os_active t = map_set (proposal_key p) (ot_id p) (os_active s) \<and> os_nextId t = os_nextId s + 1 \<and>
      (\<forall>i q. map_get (os_proposals s) i = Some q \<and> ot_status q = Transfer_Pending \<longrightarrow> proposal_key q \<noteq> proposal_key p))"

lemma conflict_changed:
  assumes "own_ok gen s" "active_conflict s k now = (conflict, s1)"
  shows "changed gen expires s s1"
    "\<not> conflict \<Longrightarrow> map_get (os_proposals s1) i = Some q \<Longrightarrow> ot_status q = Transfer_Pending \<Longrightarrow> proposal_key q \<noteq> k"
proof -
  have "changed gen expires s s1 \<and> (\<not> conflict \<longrightarrow> map_get (os_proposals s1) i = Some q \<longrightarrow>
      ot_status q = Transfer_Pending \<longrightarrow> proposal_key q \<noteq> k)"
  proof (cases "\<exists>j p. map_get (os_active s) k = Some j \<and> j \<noteq> [] \<and> map_get (os_proposals s) j = Some p")
    case False
    then have "s1 = s" using assms(2) by (auto simp: active_conflict_def split: option.splits if_splits)
    moreover have "proposal_key q \<noteq> k" if "map_get (os_proposals s) i = Some q" "ot_status q = Transfer_Pending"
      using False own_okD(3,4) [OF assms(1) that(1)] that by blast
    ultimately show ?thesis using changed_refl [OF assms(1)] by blast
  next
    case True
    then obtain j p where j: "map_get (os_active s) k = Some j" "j \<noteq> []" "map_get (os_proposals s) j = Some p" by blast
    then have s1: "s1 = snd (checkExpiration s p now)" "conflict = (ot_status (fst (checkExpiration s p now)) = Transfer_Pending)"
      using assms(2) by (simp_all add: active_conflict_def split_beta Let_def)
    have c: "changed gen expires s s1" unfolding s1 by (rule check_changed(1) [OF assms(1) j(3)])
    have "proposal_key q \<noteq> k" if "\<not> conflict" "map_get (os_proposals s1) i = Some q" "ot_status q = Transfer_Pending"
    proof
      assume k: "proposal_key q = k"
      have "map_get (os_proposals s) i = Some q" using changed_back [OF c that(2)] that(3) by (auto simp: settles_def)
      then have "i = j" using own_okD(4) [OF assms(1) _ that(3)] k j(1) by simp
      then show False using check_changed(2) [OF assms(1) j(3), of now] that s1 by simp
    qed
    with c show ?thesis by blast
  qed
  then show "changed gen expires s s1"
    "\<not> conflict \<Longrightarrow> map_get (os_proposals s1) i = Some q \<Longrightarrow> ot_status q = Transfer_Pending \<Longrightarrow> proposal_key q \<noteq> k" by blast+
qed

lemma initiate_cases:
  assumes "own_ok gen s"
  obtains (refused) "changed gen expires s (fst (snd (initiate_body gen s now cid params)))"
  | (created) s1 where "changed gen expires s s1" "added gen params now cid s1 (fst (snd (initiate_body gen s now cid params)))"
proof -
  let ?p = "new_proposal (transfer_id gen (os_nextId s)) now cid params"
  obtain conflict s1 where a: "active_conflict s (proposal_key ?p) now = (conflict, s1)" by fastforce
  note c = conflict_changed [OF assms a]
  show ?thesis
  proof (cases "initiate_error params = None \<and> \<not> conflict")
    case True
    have "os_nextId s1 = os_nextId s" by (rule changed_ok(2) [OF c(1)])
    moreover have "fst (snd (initiate_body gen s now cid params)) = fst (snd (complete_transfer
        (s1\<lparr>os_proposals := map_set (ot_id ?p) ?p (os_proposals s1), os_active := map_set (proposal_key ?p) (ot_id ?p) (os_active s1),
           os_nextId := os_nextId s1 + 1\<rparr>) (oi_idempotencyKey params) ?p))"
      using True a by (simp add: initiate_body_def Let_def)
    then obtain idem where "fst (snd (initiate_body gen s now cid params)) =
        (s1\<lparr>os_proposals := map_set (ot_id ?p) ?p (os_proposals s1), os_active := map_set (proposal_key ?p) (ot_id ?p) (os_active s1),
           os_nextId := os_nextId s1 + 1\<rparr>)\<lparr>os_idempotency := idem\<rparr>"
      using complete_store by metis
    ultimately have "added gen params now cid s1 (fst (snd (initiate_body gen s now cid params)))"
      using True c(2) by (auto simp: added_def Let_def)
    with c(1) show ?thesis by (rule created)
  next
    case False
    then show ?thesis
      using a c(1) changed_refl [OF assms]
      by (intro refused) (auto simp: initiate_body_def failed_with_def Let_def split: option.split)
  qed
qed

lemma added_ok:
  assumes "own_ok gen s" "added gen params now cid s t"
  shows "own_ok gen t"
proof -
  let ?p = "new_proposal (transfer_id gen (os_nextId s)) now cid params"
  have t: "os_proposals t = map_set (ot_id ?p) ?p (os_proposals s)" "os_active t = map_set (proposal_key ?p) (ot_id ?p) (os_active s)"
    "os_nextId t = os_nextId s + 1"
    and free: "\<And>i q. map_get (os_proposals s) i = Some q \<Longrightarrow> ot_status q = Transfer_Pending \<Longrightarrow> proposal_key q \<noteq> proposal_key ?p"
    using assms(2) by (auto simp: added_def Let_def)
  have "ot_id q = i \<and> (\<exists>n < os_nextId t. i = transfer_id gen n) \<and>
      (ot_status q = Transfer_Pending \<longrightarrow> map_get (os_active t) (proposal_key q) = Some i)"
    if g: "map_get (os_proposals t) i = Some q" for i q
  proof (cases "i = ot_id ?p")
    case True
    with g have "q = ?p" by (simp add: t)
    with True show ?thesis by (auto simp: t new_proposal_def)
  next
    case False
    with g have q: "map_get (os_proposals s) i = Some q" by (simp add: t)
    from own_okD(2) [OF assms(1) q] obtain n where n: "n < os_nextId s" "i = transfer_id gen n" by blast
    have "map_get (os_active t) (proposal_key q) = Some i" if "ot_status q = Transfer_Pending"
      using own_okD(4) [OF assms(1) q that] free [OF q that] by (simp add: t)
    with own_okD(1) [OF assms(1) q] n show ?thesis by (auto simp: t intro: exI [of _ n])
  qed
  moreover have "map_wf (os_proposals t)" using assms(1) by (simp add: t own_ok_def)
  ultimately show ?thesis unfolding own_ok_def by blast
qed

text \<open>A step settles pending transfers as its event allows, and may add one or clear all.\<close>

lemma step_cases:
  assumes "own_ok gen s"
  obtains (changes) "changed gen (settled_by e) s (own_step gen s e)" "e \<noteq> Clear_Transfers"
  | (creates) wall now cid params s1 where "e = Initiate wall now cid params" "changed gen expires s s1"
      "added gen params now cid s1 (own_step gen s e)"
  | (clears) "e = Clear_Transfers" "own_step gen s e = ownership_clear s"
proof (cases e)
  case (Initiate wall now cid params)
  let ?b = "begin_transfer s wall cid ''ownership.propose'' (oi_idempotencyKey params) (initiate_request params)"
  obtain idem where b: "fst (snd ?b) = s\<lparr>os_idempotency := idem\<rparr>" using begin_store by blast
  have c: "changed gen expires s (fst (snd ?b))" unfolding b by (rule idem_changed [OF assms])
  have r: "settled_by e = expires" by (intro ext) (simp add: Initiate)
  have "own_step gen s e = fst (snd ?b) \<or> own_step gen s e = fst (snd (initiate_body gen (fst (snd ?b)) now cid params))"
    using after_begin_store by (simp add: Initiate transfer_initiate_def)
  then show ?thesis
  proof
    assume step: "own_step gen s e = fst (snd ?b)"
    have "changed gen (settled_by e) s (own_step gen s e)" unfolding r step by (rule c)
    then show ?thesis by (rule changes) (simp add: Initiate)
  next
    assume step: "own_step gen s e = fst (snd (initiate_body gen (fst (snd ?b)) now cid params))"
    show ?thesis
    proof (rule initiate_cases [OF changed_ok(1) [OF c], of now cid params])
      assume refused: "changed gen expires (fst (snd ?b)) (fst (snd (initiate_body gen (fst (snd ?b)) now cid params)))"
      have "changed gen (settled_by e) s (own_step gen s e)" unfolding r step by (rule changed_trans [OF c refused])
      then show ?thesis by (rule changes) (simp add: Initiate)
    next
      fix s1 assume "changed gen expires (fst (snd ?b)) s1"
        "added gen params now cid s1 (fst (snd (initiate_body gen (fst (snd ?b)) now cid params)))"
      then show ?thesis using creates [OF Initiate changed_trans [OF c]] step by simp
    qed
  qed
next
  case (Accept wall now cid params)
  show ?thesis
    by (rule changes) (auto simp: Accept transfer_accept_def intro!: begun_changed [OF assms] accept_changed simp del: settled_by.simps)
next
  case (Cancel now params)
  then show ?thesis using changes cancel_changed [OF assms] by (simp del: settled_by.simps)
next
  case (Reject now params)
  then show ?thesis using changes reject_changed [OF assms] by (simp del: settled_by.simps)
next
  case (Get_Transfer i now)
  have "changed gen expires s (snd (getTransfer s i now))"
    using check_changed(1) [OF assms] changed_refl [OF assms] by (auto simp: getTransfer_def split_beta Let_def split: option.split)
  then have "changed gen expires s (own_step gen s e)" by (simp add: Get_Transfer)
  from expired_changes [OF this] show ?thesis by (rule changes) (simp add: Get_Transfer)
next
  case (Get_Active ty i now)
  have "changed gen expires s (snd (getActiveTransferForResource s ty i now))"
  proof (cases "map_get (os_active s) (resourceKey ty i)")
    case None
    then show ?thesis using changed_refl [OF assms] by (simp add: getActiveTransferForResource_def)
  next
    case (Some j)
    show ?thesis
    proof (cases "map_get (os_proposals s) j")
      case None
      have "changed gen expires s (s\<lparr>os_active := map_remove (resourceKey ty i) (os_active s)\<rparr>)"
        using Some None by (intro unlink_changed [OF assms]) simp
      then show ?thesis
        using Some None changed_refl [OF assms] by (simp add: getActiveTransferForResource_def Let_def)
    next
      case p: (Some p)
      note c = check_changed [OF assms p, of now]
      have act: "map_get (os_active (snd (checkExpiration s p now))) (resourceKey ty i) \<in> {None, Some j}"
        using Some by (auto simp: checkExpiration_def settle_proposal_def Let_def map_get_remove)
      have "changed gen expires s ((snd (checkExpiration s p now))\<lparr>os_active := map_remove (resourceKey ty i) (os_active (snd (checkExpiration s p now)))\<rparr>)"
        if "ot_status (fst (checkExpiration s p now)) \<noteq> Transfer_Pending"
        using that act c(2) by (intro changed_trans [OF c(1)] unlink_changed changed_ok(1) [OF c(1)]) auto
      then show ?thesis
        using Some p c(1) changed_refl [OF assms] by (simp add: getActiveTransferForResource_def Let_def split_beta)
    qed
  qed
  then have "changed gen expires s (own_step gen s e)" by (simp add: Get_Active)
  from expired_changes [OF this] show ?thesis by (rule changes) (simp add: Get_Active)
next
  case (Query f now)
  have "changed gen expires s (own_step gen s e)"
    using query_changed [OF assms values_stored [OF assms]] by (simp add: Query queryTransfers_def)
  from expired_changes [OF this] show ?thesis by (rule changes) (simp add: Query)
next
  case (Sweep now)
  have "changed gen expires s (own_step gen s e)"
    using sweep_changed [OF assms values_stored [OF assms]] by (simp add: Sweep sweepExpired_def)
  from expired_changes [OF this] show ?thesis by (rule changes) (simp add: Sweep)
next
  case Clear_Transfers
  then show ?thesis using clears by simp
qed

lemma own_step_ok: "own_ok gen s \<Longrightarrow> own_ok gen (own_step gen s e)"
proof -
  assume ok: "own_ok gen s"
  show ?thesis
  proof (rule step_cases [OF ok, of e])
    assume "changed gen (settled_by e) s (own_step gen s e)"
    then show ?thesis by (rule changed_ok(1))
  next
    fix wall now cid params s1 assume "changed gen expires s s1" "added gen params now cid s1 (own_step gen s e)"
    then show ?thesis using added_ok [OF changed_ok(1)] by blast
  next
    assume "own_step gen s e = ownership_clear s"
    then show ?thesis by (simp add: own_ok_def ownership_clear_def)
  qed
qed

interpretation own_runs: step_system "own_step gen" "own_ok gen"
  by unfold_locales (rule own_step_ok)

lemma fresh_store_ok: "own_ok gen (createOwnershipStore idem)"
  by (simp add: own_ok_def createOwnershipStore_def)

text \<open>
  C38. A resource has at most one pending transfer, whatever is proposed, answered, queried
  and swept, and however the clocks run.
\<close>

theorem one_pending_transfer:
  assumes "s = foldl (own_step gen) (createOwnershipStore idem) es"
    "map_get (os_proposals s) i = Some p" "map_get (os_proposals s) j = Some q"
    "ot_status p = Transfer_Pending" "ot_status q = Transfer_Pending"
    "ot_resourceType p = ot_resourceType q" "ot_resourceId p = ot_resourceId q"
  shows "i = j"
proof -
  have ok: "own_ok gen s" unfolding assms(1) by (rule own_runs.run_keeps [OF fresh_store_ok])
  have "proposal_key p = proposal_key q" using assms(6,7) by (simp add: proposal_key_def)
  with own_okD(4) [OF ok assms(2,4)] own_okD(4) [OF ok assms(3,5)] show ?thesis by simp
qed

section \<open>Both sides\<close>

definition proposed_in :: "ownership_event list \<Rightarrow> transfer_proposal \<Rightarrow> bool" where
  "proposed_in h p =
     (\<exists>wall now cid params. Initiate wall now cid params \<in> set h \<and> speaks_for (oi_actor params) (ot_currentOwner p) \<and>
        oi_resourceId params = ot_resourceId p \<and> oi_currentOwner params = ot_currentOwner p \<and>
        oi_proposedOwner params = ot_proposedOwner p \<and>
        normalizePrincipal (ot_currentOwner p) \<noteq> normalizePrincipal (ot_proposedOwner p) \<and> ot_createdAt p = now \<and>
        now + MIN_EXPIRY_MS \<le> ot_expiresAt p \<and> ot_expiresAt p \<le> now + MAX_EXPIRY_MS)"

definition accepted_in :: "ownership_event list \<Rightarrow> transfer_proposal \<Rightarrow> bool" where
  "accepted_in h p =
     (\<exists>wall now cid params. Accept wall now cid params \<in> set h \<and> oc_transferId params = ot_id p \<and>
        speaks_for (oc_actor params) (ot_proposedOwner p) \<and> now < ot_expiresAt p \<and> ot_settledAt p = Some now)"

lemma proposed_mono: "proposed_in h p \<Longrightarrow> set h \<subseteq> set h' \<Longrightarrow> proposed_in h' p"
  unfolding proposed_in_def by blast

lemma accepted_mono: "accepted_in h p \<Longrightarrow> set h \<subseteq> set h' \<Longrightarrow> accepted_in h' p"
  unfolding accepted_in_def by blast

lemma proposed_same: "same_transfer p q \<Longrightarrow> proposed_in h p \<Longrightarrow> proposed_in h q"
  by (simp add: same_transfer_def proposed_in_def)

lemma new_proposed:
  assumes "initiate_error params = None" "Initiate wall now cid params \<in> set h"
  shows "proposed_in h (new_proposal i now cid params)"
  unfolding proposed_in_def using assms
  by (intro exI [of _ wall] exI [of _ now] exI [of _ cid] exI [of _ params])
    (auto simp: new_proposal_def initiate_error_def Let_def split: if_splits)

fun both_sides :: "ownership_store \<times> ownership_event list \<Rightarrow> bool" where
  "both_sides (s, h) =
     (\<forall>i p. map_get (os_proposals s) i = Some p \<longrightarrow> proposed_in h p \<and> (ot_status p = Transfer_Accepted \<longrightarrow> accepted_in h p))"

lemma both_sides_changed:
  assumes "both_sides (s, h)" "changed gen (settled_by e) s t"
  shows "both_sides (t, h @ [e])"
proof -
  have "proposed_in (h @ [e]) q \<and> (ot_status q = Transfer_Accepted \<longrightarrow> accepted_in (h @ [e]) q)"
    if q: "map_get (os_proposals t) i = Some q" for i q
  proof -
    from changed_back [OF assms(2) q] obtain p where p: "map_get (os_proposals s) i = Some p" "q = p \<or> settles (settled_by e) p q"
      by blast
    then have old: "proposed_in (h @ [e]) p" "ot_status p = Transfer_Accepted \<Longrightarrow> accepted_in (h @ [e]) p"
      using assms(1) proposed_mono [of h p "h @ [e]"] accepted_mono [of h p "h @ [e]"] by auto
    show ?thesis
    proof (cases "q = p")
      case False
      then have st: "same_transfer p q" "settled_by e p q" using p(2) by (auto simp: settles_def)
      have "accepted_in (h @ [e]) q" if acc: "ot_status q = Transfer_Accepted"
      proof -
        have "\<exists>wall now cid params. e = Accept wall now cid params \<and> accepts params now p q"
          using st(2) acc by (cases e) (auto simp: expires_def)
        then obtain wall now cid params where "e = Accept wall now cid params" "accepts params now p q" by blast
        then show ?thesis
          unfolding accepted_in_def using st(1)
          by (intro exI [of _ wall] exI [of _ now] exI [of _ cid] exI [of _ params]) (auto simp: accepts_def same_transfer_def)
      qed
      with proposed_same [OF st(1) old(1)] show ?thesis by blast
    qed (use old in blast)
  qed
  then show ?thesis by simp
qed

lemma both_sides_expired:
  assumes "both_sides (s, h)" "changed gen expires s t"
  shows "both_sides (t, h)"
proof -
  have "proposed_in h q \<and> (ot_status q = Transfer_Accepted \<longrightarrow> accepted_in h q)" if q: "map_get (os_proposals t) i = Some q" for i q
  proof -
    from changed_back [OF assms(2) q] obtain p where p: "map_get (os_proposals s) i = Some p" "q = p \<or> settles expires p q"
      by blast
    then show ?thesis using assms(1) proposed_same [of p q h] by (auto simp: settles_def expires_def)
  qed
  then show ?thesis by simp
qed

fun traced_step ::
  "(nat \<Rightarrow> string) \<Rightarrow> ownership_store \<times> ownership_event list \<Rightarrow> ownership_event \<Rightarrow> ownership_store \<times> ownership_event list" where
  "traced_step gen (s, h) e = (own_step gen s e, h @ [e])"

lemma both_sides_step:
  assumes "own_ok gen (fst x) \<and> both_sides x"
  shows "own_ok gen (fst (traced_step gen x e)) \<and> both_sides (traced_step gen x e)"
proof (cases x)
  case (Pair s h)
  have ok: "own_ok gen s" and bs: "both_sides (s, h)" using assms by (simp_all add: Pair)
  have "both_sides (own_step gen s e, h @ [e])"
  proof (rule step_cases [OF ok, of e])
    assume "changed gen (settled_by e) s (own_step gen s e)"
    with bs show ?thesis by (rule both_sides_changed)
  next
    fix wall now cid params s1
    assume e: "e = Initiate wall now cid params" and c: "changed gen expires s s1" and a: "added gen params now cid s1 (own_step gen s e)"
    let ?p = "new_proposal (transfer_id gen (os_nextId s1)) now cid params"
    have p: "os_proposals (own_step gen s e) = map_set (ot_id ?p) ?p (os_proposals s1)" "initiate_error params = None"
      using a by (simp_all add: added_def Let_def)
    have new: "proposed_in (h @ [e]) ?p" using p(2) by (intro new_proposed [of _ wall]) (simp_all add: e)
    have "proposed_in (h @ [e]) q \<and> (ot_status q = Transfer_Accepted \<longrightarrow> accepted_in (h @ [e]) q)"
      if "map_get (os_proposals (own_step gen s e)) i = Some q" for i q
    proof (cases "i = ot_id ?p")
      case True
      with that have "q = ?p" by (simp add: p)
      with new show ?thesis by (simp add: new_proposal_def)
    next
      case False
      with that have "map_get (os_proposals s1) i = Some q" by (simp add: p)
      with both_sides_expired [OF bs c] show ?thesis
        using proposed_mono [of h q "h @ [e]"] accepted_mono [of h q "h @ [e]"] by auto
    qed
    then show ?thesis by simp
  next
    assume "own_step gen s e = ownership_clear s"
    then show ?thesis by (simp add: ownership_clear_def)
  qed
  with own_step_ok [OF ok] show ?thesis by (simp add: Pair)
qed

interpretation both_runs: step_system "traced_step gen" "\<lambda>x. own_ok gen (fst x) \<and> both_sides x"
  by unfold_locales (rule both_sides_step)

lemma traced_run: "foldl (traced_step gen) (s, h) es = (foldl (own_step gen) s es, h @ es)"
  by (induction es arbitrary: s h) simp_all


section \<open>The declared lifecycle\<close>

definition moved :: "transfer_proposal \<Rightarrow> transfer_proposal \<Rightarrow> bool" where
  "moved p q = (q = p \<or> ot_status p = Transfer_Pending \<and> ot_status q \<noteq> Transfer_Pending \<and> same_transfer p q)"

lemma moved_trans: "moved p q \<Longrightarrow> moved q r \<Longrightarrow> moved p r"
  by (auto simp: moved_def)

lemma settles_moved: "q = p \<or> settles R p q \<Longrightarrow> moved p q"
  by (auto simp: moved_def settles_def)

lemma step_moved:
  assumes ok: "own_ok gen s" and gen: "inj gen" and p: "map_get (os_proposals s) i = Some p" and e: "e \<noteq> Clear_Transfers"
  shows "\<exists>q. map_get (os_proposals (own_step gen s e)) i = Some q \<and> moved p q"
proof (rule step_cases [OF ok, of e])
  assume "changed gen (settled_by e) s (own_step gen s e)"
  from changed_get [OF this p] show ?thesis using settles_moved by blast
next
  fix wall now cid params s1
  assume c: "changed gen expires s s1" and a: "added gen params now cid s1 (own_step gen s e)"
  from changed_get [OF c p] obtain q where q: "map_get (os_proposals s1) i = Some q" "moved p q" using settles_moved by blast
  obtain n where "n < os_nextId s1" "i = transfer_id gen n" using own_okD(2) [OF changed_ok(1) [OF c] q(1)] by blast
  then have "i \<noteq> transfer_id gen (os_nextId s1)" using gen by (auto simp: transfer_id_def dest: injD)
  then have "map_get (os_proposals (own_step gen s e)) i = Some q"
    using a q(1) by (simp add: added_def Let_def new_proposal_def)
  with q(2) show ?thesis by blast
next
  assume "e = Clear_Transfers"
  with e show ?thesis by simp
qed

lemma run_moved:
  assumes "own_ok gen s" "inj gen" "map_get (os_proposals s) i = Some p" "Clear_Transfers \<notin> set es"
  shows "\<exists>q. map_get (os_proposals (foldl (own_step gen) s es)) i = Some q \<and> moved p q"
  using assms
proof (induction es arbitrary: s p)
  case (Cons e es)
  from step_moved [OF Cons.prems(1-3), of e] Cons.prems(4)
  obtain q where q: "map_get (os_proposals (own_step gen s e)) i = Some q" "moved p q" by auto
  from Cons.IH [OF own_step_ok [OF Cons.prems(1)] Cons.prems(2) q(1)] Cons.prems(4)
  obtain r where "map_get (os_proposals (foldl (own_step gen) (own_step gen s e) es)) i = Some r" "moved q r" by auto
  with moved_trans [OF q(2)] show ?case by auto
qed (simp add: moved_def)

lemma transfer_declared:
  assumes "st \<noteq> Transfer_Pending"
  shows "\<exists>event. resolve ownershipTransferMachine ''pending'' event = Ok (transfer_status_text st)"
proof -
  have "\<exists>event. event \<noteq> [] \<and> rule ''pending'' event (transfer_status_text st) \<in> set (def_transitions ownership_transfer_definition)"
    using assms by (cases st) (auto simp: ownership_transfer_definition_def)
  then obtain event where "event \<noteq> []" "lifecycle_step ownership_transfer_definition ''pending'' event (transfer_status_text st)"
    using lifecycle_step.declared [of "rule ''pending'' _ (transfer_status_text st)" ownership_transfer_definition] by auto
  then show ?thesis using ownership_transfer.resolve_Ok_iff by blast
qed

text \<open>
  C39. A transfer follows the declared lifecycle: after any further run it is still there, the
  same transfer between the same parties, and its status is the old one or one the table
  of the record kind moves the old one to; a settled transfer is never touched again.
\<close>

theorem transfer_follows_lifecycle:
  assumes "inj gen" "s = foldl (own_step gen) (createOwnershipStore idem) es" "map_get (os_proposals s) i = Some p"
    "Clear_Transfers \<notin> set es'"
  shows "\<exists>q. map_get (os_proposals (foldl (own_step gen) s es')) i = Some q \<and> same_transfer p q \<and>
    (q = p \<or> (\<exists>event. resolve ownershipTransferMachine (transfer_status_text (ot_status p)) event =
      Ok (transfer_status_text (ot_status q))))"
proof -
  have "own_ok gen s" unfolding assms(2) by (rule own_runs.run_keeps [OF fresh_store_ok])
  from run_moved [OF this assms(1,3,4)] obtain q where
    q: "map_get (os_proposals (foldl (own_step gen) s es')) i = Some q" "moved p q" by blast
  with transfer_declared show ?thesis by (auto simp: moved_def same_transfer_def)
qed

section \<open>One proposal per key\<close>

fun own_before :: "int \<Rightarrow> ownership_event \<Rightarrow> bool" where
  "own_before T (Initiate wall now cid params) = (wall < T)"
| "own_before T (Accept wall now cid params) = (wall < T)"
| "own_before T _ = True"

lemma settle_idem [simp]: "os_idempotency (settle_proposal p s) = os_idempotency s"
  by (simp add: settle_proposal_def)

lemma check_idem [simp]: "os_idempotency (snd (checkExpiration s p now)) = os_idempotency s"
  by (simp add: checkExpiration_def Let_def)

lemma open_idem [simp]: "os_idempotency (snd (open_transfer s i now)) = os_idempotency s"
  by (simp add: open_transfer_def split_beta Let_def split: option.split)

lemma conflict_idem [simp]: "os_idempotency (snd (active_conflict s k now)) = os_idempotency s"
  by (simp add: active_conflict_def split_beta Let_def split: option.split)

lemma query_idem [simp]: "os_idempotency (snd (query_loop f now ps s)) = os_idempotency s"
  by (induction ps arbitrary: s) (simp_all add: split_beta Let_def)

lemma sweep_idem [simp]: "os_idempotency (snd (sweep_loop now ps (n, s))) = os_idempotency s"
  by (induction ps arbitrary: s n) simp_all

lemma complete_reached: "idem_reached T (os_idempotency s) (os_idempotency (fst (snd (complete_transfer s key p))))"
  by (auto simp: complete_transfer_def split_beta Let_def split: option.split)

lemma begin_reached:
  "wall < T \<Longrightarrow> idem_reached T (os_idempotency s) (os_idempotency (fst (snd (begin_transfer s wall cid op key req))))"
  by (auto simp: begin_transfer_def split_beta Let_def)

lemma body_reached:
  "idem_reached T (os_idempotency s) (os_idempotency (fst (snd (initiate_body gen s now cid params))))"
  "idem_reached T (os_idempotency s) (os_idempotency (fst (snd (accept_body s now answer))))"
proof -
  obtain conflict s1 where a: "active_conflict s (proposal_key (new_proposal (transfer_id gen (os_nextId s)) now cid params)) now = (conflict, s1)"
    by fastforce
  have "os_idempotency s1 = os_idempotency s"
    using conflict_idem [of s "proposal_key (new_proposal (transfer_id gen (os_nextId s)) now cid params)" now] a by simp
  then show "idem_reached T (os_idempotency s) (os_idempotency (fst (snd (initiate_body gen s now cid params))))"
    using complete_reached [of T "s1\<lparr>os_proposals := _, os_active := _, os_nextId := _\<rparr>"]
    by (auto simp: initiate_body_def failed_with_def Let_def a split: option.split)
  obtain r s1 where o: "open_transfer s (oc_transferId answer) now = (r, s1)" by fastforce
  have "os_idempotency s1 = os_idempotency s" using open_idem [of s "oc_transferId answer" now] o by simp
  then show "idem_reached T (os_idempotency s) (os_idempotency (fst (snd (accept_body s now answer))))"
    using complete_reached [of T "settle_proposal _ s1"] by (cases r) (auto simp: accept_body_def failed_with_def Let_def o)
qed

lemma step_reached:
  assumes "own_before T e"
  shows "idem_reached T (os_idempotency s) (os_idempotency (own_step gen s e))"
proof (cases e)
  case (Initiate wall now cid params)
  let ?b = "begin_transfer s wall cid ''ownership.propose'' (oi_idempotencyKey params) (initiate_request params)"
  have b: "idem_reached T (os_idempotency s) (os_idempotency (fst (snd ?b)))" using assms Initiate by (intro begin_reached) simp
  from after_begin_store [of ?b "\<lambda>s. initiate_body gen s now cid params"] show ?thesis
    using b idem_reached_trans [OF b body_reached(1)] by (auto simp: Initiate transfer_initiate_def)
next
  case (Accept wall now cid params)
  let ?b = "begin_transfer s wall cid ''ownership.accept'' (oc_idempotencyKey params) (JObj [(''transferId'', JStr (oc_transferId params))])"
  have b: "idem_reached T (os_idempotency s) (os_idempotency (fst (snd ?b)))" using assms Accept by (intro begin_reached) simp
  from after_begin_store [of ?b "\<lambda>s. accept_body s now params"] show ?thesis
    using b idem_reached_trans [OF b body_reached(2)] by (auto simp: Accept transfer_accept_def)
next
  case (Cancel now params)
  obtain r s1 where o: "open_transfer s (oc_transferId params) now = (r, s1)" by fastforce
  then show ?thesis using open_idem [of s "oc_transferId params" now]
    by (cases r) (simp_all add: Cancel transfer_cancel_def failed_with_def Let_def)
next
  case (Reject now params)
  obtain r s1 where o: "open_transfer s (oc_transferId params) now = (r, s1)" by fastforce
  then show ?thesis using open_idem [of s "oc_transferId params" now]
    by (cases r) (simp_all add: Reject transfer_reject_def failed_with_def Let_def)
qed (simp_all add: getTransfer_def getActiveTransferForResource_def queryTransfers_def sweepExpired_def ownership_clear_def
    split_beta Let_def split: option.split)

lemma run_reached:
  "list_all (own_before T) es \<Longrightarrow> idem_reached T (os_idempotency s) (os_idempotency (foldl (own_step gen) s es))"
proof (induction es arbitrary: s)
  case (Cons e es)
  then show ?case using idem_reached_trans [OF step_reached [of T e s gen] Cons.IH [of "own_step gen s e"]] by simp
qed simp

text \<open>The first use of a key claims it.\<close>

lemma first_use:
  assumes "idem_read (os_idempotency s) k = None" "isValidIdempotencyKey k"
  obtains idem r fx where "begin_transfer s wall cid op (Some k) req = (Ok None, s\<lparr>os_idempotency := idem\<rparr>, fx)"
    "idem_read idem k = Some r" "idem_status r = In_Flight" "idem_key r = k" "idem_hash r = requestDigest (or_null req)"
    "idem_operation r = op" "idem_expiresAt r = wall + idem_ttl (os_idempotency s)"
    "idem_wf (os_idempotency s) \<Longrightarrow> idem_wf idem"
proof -
  let ?q = "\<lparr>req_key = Some k, req_operation = op, req_request = req, req_correlationId = Some cid\<rparr>"
  let ?r = "claim_record (os_idempotency s) wall cid k ?q"
  have ne: "k \<noteq> []" by (rule valid_key_nonempty [OF assms(2)])
  obtain idem fx where b: "idem_begin (os_idempotency s) wall cid ?q = (Ok (Claimed ?r), idem, fx)"
    using assms ne by (auto simp: idem_begin_def claim_def Let_def)
  have "idem_read idem k = Some ?r" using begin_claims_store [OF b] by simp
  moreover have "begin_transfer s wall cid op (Some k) req = (Ok None, s\<lparr>os_idempotency := idem\<rparr>, fx)"
    using ne b by (simp add: begin_transfer_def)
  moreover have "idem_wf (os_idempotency s) \<Longrightarrow> idem_wf idem" using wf_begin [of "os_idempotency s" wall cid ?q] b by simp
  ultimately show ?thesis by (intro that [of idem fx ?r]) (simp_all add: claim_record_def)
qed

text \<open>Completing the claimed key records the proposal, unless the write throws.\<close>

lemma completed_record:
  assumes "idem_wf (os_idempotency s)" "idem_read (os_idempotency s) k = Some r" "idem_status r = In_Flight" "k \<noteq> []"
    "complete_transfer s (Some k) p = (Settled x, s', fx)"
  shows "\<exists>r'. idem_read (os_idempotency s') k = Some r' \<and> idem_status r' = Completed \<and> is_object (idem_response r') \<and>
    idem_hash r' = idem_hash r \<and> idem_operation r' = idem_operation r \<and> idem_expiresAt r' = idem_expiresAt r"
proof -
  let ?r = "r\<lparr>idem_status := Completed, idem_response := proposal_json p\<rparr>"
  have key: "idem_key r = k" using idem_wf_read [OF assms(1,2)] by simp
  obtain idem where w: "idem_write ?r (os_idempotency s) = Some idem" "os_idempotency s' = idem"
    using assms(2-5) by (auto simp: complete_transfer_def idem_complete_def Let_def split: option.splits)
  show ?thesis unfolding w(2) using read_write [OF w(1), of k] key by (simp add: proposal_json_def object_persisted del: json_clone.simps)
qed

lemma initiate_completes:
  assumes "initiate_body gen s now cid params = (Settled (Ok a), s', fx)"
  shows "\<exists>t p fx. os_idempotency t = os_idempotency s \<and> complete_transfer t (oi_idempotencyKey params) p = (Settled (Ok a), s', fx)"
proof -
  let ?p = "new_proposal (transfer_id gen (os_nextId s)) now cid params"
  obtain conflict s1 where a: "active_conflict s (proposal_key ?p) now = (conflict, s1)" by fastforce
  have i: "os_idempotency s1 = os_idempotency s" using conflict_idem [of s "proposal_key ?p" now] a by simp
  let ?t = "s1\<lparr>os_proposals := map_set (ot_id ?p) ?p (os_proposals s1),
      os_active := map_set (proposal_key ?p) (ot_id ?p) (os_active s1), os_nextId := os_nextId s1 + 1\<rparr>"
  have "complete_transfer ?t (oi_idempotencyKey params) ?p = (Settled (Ok a), s', fx)"
    using assms by (simp add: initiate_body_def failed_with_def a Let_def split: option.splits if_splits)
  moreover have "os_idempotency ?t = os_idempotency s" using i by simp
  ultimately show ?thesis by blast
qed

lemma wf_reached: "idem_reached T i j \<Longrightarrow> idem_wf i \<Longrightarrow> idem_wf j"
  using idem_runs.run_keeps by (auto simp: idem_reached_def)

lemma replayed:
  assumes "idem_read (os_idempotency s) k = Some r" "idem_status r = Completed" "is_object (idem_response r)"
    "idem_hash r = requestDigest (or_null req)" "idem_operation r = op" "wall < idem_expiresAt r" "isValidIdempotencyKey k"
  shows "\<exists>response idem fx. begin_transfer s wall cid op (Some k) req = (Ok (Some response), s\<lparr>os_idempotency := idem\<rparr>, fx)"
proof -
  have "json_truthy (idem_response r)" using assms(3) by (cases "idem_response r") (simp_all add: json_truthy_def)
  then show ?thesis
    using assms valid_key_nonempty [OF assms(7)] by (auto simp: begin_transfer_def idem_begin_def begin_existing_def Let_def)
qed


text \<open>
  A call that fails after it claimed its key leaves the key in flight: the corrected retry
  with the same key is refused until the key expires.
\<close>

lemma failed_key_stuck:
  assumes "idem_read (os_idempotency s) k = None" "isValidIdempotencyKey k" "oi_idempotencyKey params = Some k"
    "initiate_error params = Some code" "transfer_initiate gen s wall now cid params = (run, s1, fx)"
    "oi_idempotencyKey params' = Some k" "initiate_request params' = initiate_request params"
    "wall' < wall + idem_ttl (os_idempotency s)"
  shows "fst (transfer_initiate gen s1 wall' now' cid' params') = Settled (Err ''idempotency_in_flight'')"
proof -
  obtain idem r fx0 where b: "begin_transfer s wall cid ''ownership.propose'' (Some k) (initiate_request params) =
        (Ok None, s\<lparr>os_idempotency := idem\<rparr>, fx0)"
      "idem_read idem k = Some r" "idem_status r = In_Flight" "idem_hash r = requestDigest (or_null (initiate_request params))"
      "idem_operation r = ''ownership.propose''" "idem_expiresAt r = wall + idem_ttl (os_idempotency s)"
    using first_use [OF assms(1,2), of wall cid "''ownership.propose''" "initiate_request params"] by metis
  have s1: "s1 = s\<lparr>os_idempotency := idem\<rparr>"
    using assms(3-5) by (simp add: transfer_initiate_def measured_def measureSync_def after_begin_def b(1) initiate_body_def failed_with_def)
  have "fst (begin_transfer s1 wall' cid' ''ownership.propose'' (Some k) (initiate_request params')) = Err ''idempotency_in_flight''"
    using b assms(7,8) valid_key_nonempty [OF assms(2)] assms(2)
    by (simp add: s1 begin_transfer_def idem_begin_def begin_existing_def split_beta Let_def)
  then show ?thesis using assms(6) by (simp add: transfer_initiate_def after_begin_def split_beta)
qed

section \<open>Sample runs\<close>

definition w_transfer :: "string option \<Rightarrow> initiate_params" where
  "w_transfer key = \<lparr>oi_resourceId = ''t1'', oi_resourceType = None, oi_currentOwner = ''alice'', oi_proposedOwner = ''bobby'',
     oi_expiresInMs = None, oi_priceStroops = None, oi_memo = None, oi_idempotencyKey = key,
     oi_actor = \<lparr>oa_kind = Owner_User, oa_id = ''alice''\<rparr>, oi_metadata = None\<rparr>"

definition w_answer :: answer_params where
  "w_answer = \<lparr>oc_transferId = ''ot-'', oc_actor = \<lparr>oa_kind = Owner_User, oa_id = '' bobby''\<rparr>, oc_reason = None, oc_idempotencyKey = None\<rparr>"

definition w_gen :: "nat \<Rightarrow> string" where
  "w_gen n = replicate n CHR ''x''"

lemma w_gen_inject: "inj w_gen"
  by (rule injI) (metis w_gen_def length_replicate)

lemmas w_principals_eval = initiate_error_def speaks_for_def normalizePrincipal_def ownership_isValidPrincipal_def trim_def is_space_def
  startsWith_def is_upper_def is_lower_def is_digit_def code_of_def OWNERSHIP_DEFAULT_EXPIRY_MS_def MIN_EXPIRY_MS_def MAX_EXPIRY_MS_def

lemma w_no_error: "initiate_error (w_transfer key) = None"
  by (simp add: w_transfer_def w_principals_eval)

lemma w_may_accept: "speaks_for (oc_actor w_answer) ''bobby''"
  by (simp add: w_answer_def w_principals_eval)

text \<open>The same owner behind a doubled prefix passes for another one.\<close>

lemma self_transfer_accepted:
  "initiate_error ((w_transfer None)\<lparr>oi_proposedOwner := ''account:account:alice''\<rparr>) = None \<and>
   normalizePrincipal (normalizePrincipal ''account:account:alice'') = ''alice''"
  by (simp add: w_transfer_def w_principals_eval)

definition w_proposal :: "string option \<Rightarrow> transfer_proposal" where
  "w_proposal key = new_proposal ''ot-'' 0 ''c1'' (w_transfer key)"

definition w_proposed :: ownership_store where
  "w_proposed = foldl (own_step w_gen) (createOwnershipStore w_store) [Initiate 0 0 ''c1'' (w_transfer None)]"

lemma w_proposed_eq: "w_proposed = \<lparr>os_proposals = [(''ot-'', w_proposal None)], os_active = [(''resource:t1'', ''ot-'')],
    os_idempotency = w_store, os_nextId = 1\<rparr>"
proof -
  have "w_proposal None = new_proposal (transfer_id w_gen 0) 0 ''c1'' (w_transfer None)"
    by (simp add: w_proposal_def transfer_id_def w_gen_def)
  moreover have "proposal_key (w_proposal None) = ''resource:t1''" "ot_id (w_proposal None) = ''ot-''"
    by (simp_all add: w_proposal_def proposal_key_def resourceKey_def new_proposal_def w_transfer_def)
  ultimately show ?thesis
    using w_no_error [of None]
    by (simp add: w_proposed_def transfer_initiate_def begin_transfer_def after_begin_def initiate_body_def w_transfer_def
        createOwnershipStore_def active_conflict_def complete_transfer_def map_set_def split_beta Let_def)
qed

theorem one_pending_transfer_witness:
  "map_get (os_proposals w_proposed) ''ot-'' = Some (w_proposal None) \<and> ot_status (w_proposal None) = Transfer_Pending \<and>
   (\<exists>j. map_get (os_proposals w_proposed) j = Some (w_proposal None) \<and> ''ot-'' = j)"
proof -
  have p: "map_get (os_proposals w_proposed) ''ot-'' = Some (w_proposal None)" by (simp add: w_proposed_eq map_get_def)
  moreover have st: "ot_status (w_proposal None) = Transfer_Pending" by (simp add: w_proposal_def new_proposal_def)
  ultimately show ?thesis using one_pending_transfer [OF w_proposed_def p p st st] by blast
qed

definition w_accepted :: transfer_proposal where
  "w_accepted = (w_proposal None)\<lparr>ot_status := Transfer_Accepted, ot_settledAt := Some 5\<rparr>"

lemma w_accept: "map_get (os_proposals (foldl (own_step w_gen) w_proposed [Accept 0 5 ''c2'' w_answer])) ''ot-'' = Some w_accepted"
proof -
  have "ot_status (w_proposal None) = Transfer_Pending" "ot_expiresAt (w_proposal None) = 86400000"
    "ot_proposedOwner (w_proposal None) = ''bobby''" "ot_id (w_proposal None) = ''ot-''"
    by (simp_all add: w_proposal_def new_proposal_def w_transfer_def OWNERSHIP_DEFAULT_EXPIRY_MS_def)
  moreover from this have "open_transfer w_proposed (oc_transferId w_answer) 5 = (Ok (w_proposal None), w_proposed)"
    by (simp add: open_transfer_def w_answer_def w_proposed_eq map_get_def checkExpiration_def lapsed_def)
  moreover have "oc_idempotencyKey w_answer = None" by (simp add: w_answer_def)
  ultimately show ?thesis
    using w_may_accept
    by (simp add: transfer_accept_def begin_transfer_def after_begin_def accept_body_def complete_transfer_def settle_proposal_def
        w_accepted_def Let_def split_beta)
qed


theorem transfer_follows_lifecycle_witness:
  "\<exists>q. map_get (os_proposals (foldl (own_step w_gen) w_proposed [Accept 0 5 ''c2'' w_answer])) ''ot-'' = Some q \<and>
    same_transfer (w_proposal None) q \<and> ot_status q = Transfer_Accepted"
proof -
  have p: "map_get (os_proposals w_proposed) ''ot-'' = Some (w_proposal None)" by (simp add: w_proposed_eq map_get_def)
  have "Clear_Transfers \<notin> set [Accept 0 5 ''c2'' w_answer]" by simp
  from transfer_follows_lifecycle [OF w_gen_inject w_proposed_def p this] w_accept
  have "same_transfer (w_proposal None) w_accepted" by auto
  with w_accept show ?thesis by (simp add: w_accepted_def)
qed

lemma w_first_key:
  obtains p s1 fx where "transfer_initiate w_gen (createOwnershipStore w_store) 0 0 ''c1'' (w_transfer (Some ''job-0001'')) =
    (Settled (Ok (Proposal p)), s1, fx)"
proof -
  let ?k = "''job-0001''" and ?s = "createOwnershipStore w_store"
  let ?w = "w_transfer (Some ?k)"
  let ?p = "new_proposal (transfer_id w_gen 0) 0 ''c1'' ?w"
  have fresh: "idem_read (os_idempotency ?s) ?k = None"
    by (simp add: createOwnershipStore_def w_store_def createIdempotencyStore_def idem_read_def)
  obtain idem r fx where b: "begin_transfer ?s 0 ''c1'' ''ownership.propose'' (Some ?k) (initiate_request ?w) =
      (Ok None, ?s\<lparr>os_idempotency := idem\<rparr>, fx)" "idem_read idem ?k = Some r" "idem_status r = In_Flight"
    using first_use [OF fresh w_key_valid, of 0 "''c1''" "''ownership.propose''" "initiate_request ?w"] by metis
  have "no_big (persisted_response (proposal_json ?p))"
    unfolding persisted_response_def proposal_json_def json.case redact_def
    by (rule no_big_redact) (simp add: new_proposal_def w_transfer_def opt_str_def)
  then obtain idem' fx' where fin: "idem_complete idem ?k (proposal_json ?p) =
      (Returns (Ok (r\<lparr>idem_status := Completed, idem_response := proposal_json ?p\<rparr>)), idem', fx')"
    using b(2,3) by (simp add: idem_complete_def idem_write_def Let_def)
  have "\<exists>s1 fx. initiate_body w_gen (?s\<lparr>os_idempotency := idem\<rparr>) 0 ''c1'' ?w = (Settled (Ok (Proposal ?p)), s1, fx)"
    using w_no_error [of "Some ?k"] fin
    by (simp add: initiate_body_def createOwnershipStore_def active_conflict_def complete_transfer_def Let_def)
      (simp add: w_transfer_def)
  then obtain s1 fx1 where "initiate_body w_gen (?s\<lparr>os_idempotency := idem\<rparr>) 0 ''c1'' ?w = (Settled (Ok (Proposal ?p)), s1, fx1)" by blast
  moreover have "oi_idempotencyKey ?w = Some ?k" by (simp add: w_transfer_def)
  ultimately show ?thesis
    using b(1) that by (simp add: transfer_initiate_def measured_def measureSync_def after_begin_def split_beta Let_def)
qed


end
