(* ===== verification/Auth.thy ===== *)
theory Auth
  imports Utix_Prelude
begin

text \<open>
  \<open>core/auth/types.ts\<close> and \<open>core/auth/middleware.ts\<close>: the role table and the permission
  checks. A role is a string because it comes from the environment unchecked; the
  table lookup asks for an own property, so it is the lookup in the list of entries.
\<close>

definition ROLE_PERMISSIONS :: "(string \<times> string list) list" where
  "ROLE_PERMISSIONS =
     [(''viewer'', [''view:tools'', ''view:dashboard'']),
      (''maintainer'',
        [''view:tools'', ''view:dashboard'', ''admin:health'', ''admin:recovery'', ''admin:metrics'',
         ''admin:replay'', ''admin:config'']),
      (''service'', [''admin:health'', ''admin:metrics''])]"

definition hasPermission :: "string \<Rightarrow> string \<Rightarrow> bool" where
  "hasPermission role permission =
     (case map_of ROLE_PERMISSIONS role of Some ps \<Rightarrow> permission \<in> set ps | None \<Rightarrow> False)"

definition hasAnyPermission :: "string \<Rightarrow> string list \<Rightarrow> bool" where
  "hasAnyPermission role permissions = list_ex (hasPermission role) permissions"

definition hasAllPermissions :: "string \<Rightarrow> string list \<Rightarrow> bool" where
  "hasAllPermissions role permissions = list_all (hasPermission role) permissions"

record auth_context =
  auth_role :: string
  auth_userId :: "string option"

record unauthorized_error =
  ue_requiredPermission :: string
  ue_userRole :: string

text \<open>\<open>Err\<close> is the thrown \<open>UnauthorizedError\<close>.\<close>

definition requirePermission :: "auth_context \<Rightarrow> string \<Rightarrow> (unit, unauthorized_error) result" where
  "requirePermission context permission =
     (if \<not> hasPermission (auth_role context) permission
      then Err \<lparr>ue_requiredPermission = permission, ue_userRole = auth_role context\<rparr>
      else Ok ())"

text \<open>\<open>env\<close> is the value of \<open>UTIX_USER_ROLE\<close>; an empty text falls back like an absent one.\<close>

definition getAuthContext :: "string option \<Rightarrow> auth_context" where
  "getAuthContext env =
     \<lparr>auth_role = (case env of Some r \<Rightarrow> if r = [] then ''viewer'' else r | None \<Rightarrow> ''viewer''),
      auth_userId = None\<rparr>"

definition withPermission ::
  "string option \<Rightarrow> string \<Rightarrow> ('a \<Rightarrow> 'b) \<Rightarrow> 'a \<Rightarrow> ('b, unauthorized_error) result" where
  "withPermission env permission handler args =
     (case requirePermission (getAuthContext env) permission of
        Err e \<Rightarrow> Err e
      | Ok _ \<Rightarrow> Ok (handler args))"

lemma recovery_role: "hasPermission role ''admin:recovery'' \<longleftrightarrow> role = ''maintainer''"
  by (auto simp: hasPermission_def ROLE_PERMISSIONS_def)

text \<open>Every permission of a role is a permission of the maintainer.\<close>

lemma maintainer_has_all: "hasPermission role p \<Longrightarrow> hasPermission ''maintainer'' p"
  by (auto simp: hasPermission_def ROLE_PERMISSIONS_def split: if_splits option.splits)

lemma hasPermission_roles:
  "hasPermission role p \<Longrightarrow> role \<in> {''viewer'', ''maintainer'', ''service''}"
  by (auto simp: hasPermission_def ROLE_PERMISSIONS_def split: if_splits option.splits)

end
