(* ===== verification/Bounded_Cache.thy ===== *)
theory Bounded_Cache
  imports Auth Effects
begin

text \<open>
  \<open>core/cache/bounded-cache.ts\<close>: the least-recently-used cache of ledger projections. The
  asynchronous \<open>getOrLoad\<close> is split where the engine may run other code: the call itself,
  the callback on the loaded result and the final callback. A promise is a number, the
  loads that have not finished are part of the state. Sequences, instants and lifetimes are
  integers; only a lifetime can be given as a number the code refuses.
\<close>

section \<open>State\<close>

datatype cache_read_error = Cache_Miss | Cache_Expired

datatype cache_write_error = Cache_Stale_Write

datatype cache_flush_error = Cache_Unauthorized

record cache_options =
  co_maxEntries :: js_number
  co_ttlMs :: js_number
  co_schemaVersion :: "js_number option"
  co_name :: "string option"

record cache_write =
  wo_ttlMs :: "js_number option"
  wo_ledgerSequence :: "int option"
  wo_sourceEntityId :: "string option"

record 'v stored_entry =
  se_value :: 'v
  se_cachedAt :: int
  se_ttlMs :: int
  se_version :: int
  se_ledgerSequence :: "int option"
  se_sourceEntityId :: "string option"

text \<open>Entries as others see them; the instant of an entry from elsewhere may be a text.\<close>

datatype entry_instant = Entry_Ms int | Entry_Text string

record 'v cache_entry =
  ce_key :: string
  ce_value :: 'v
  ce_cachedAt :: entry_instant
  ce_ttlMs :: int
  ce_version :: int
  ce_ledgerSequence :: "int option"
  ce_sourceEntityId :: "string option"

record cache_stats =
  cs_size :: nat
  cs_hits :: nat
  cs_misses :: nat
  cs_evictions :: nat
  cs_invalidations :: nat

text \<open>A load between its start and its final callback; \<open>ld_settled\<close> after its first callback.\<close>

record cache_load =
  ld_key :: string
  ld_write :: cache_write
  ld_settled :: bool

record 'v bounded_cache =
  bc_maxEntries :: int
  bc_ttlMs :: int
  bc_schemaVersion :: int
  bc_name :: string
  bc_entries :: "(string, 'v stored_entry) js_map"
  bc_inflight :: "(string, nat) js_map"
  bc_hits :: nat
  bc_misses :: nat
  bc_evictions :: nat
  bc_invalidations :: nat
  bc_loads :: "(nat, cache_load) js_map"
  bc_nextRun :: nat

section \<open>Operations\<close>

text \<open>The outcome of code that may throw a \<open>RangeError\<close> about an argument.\<close>

datatype 'a range_checked = In_Range 'a | Range_Error string

definition requirePositiveInteger :: "js_number \<Rightarrow> int option" where
  "requirePositiveInteger value =
     (case value of JInt n \<Rightarrow> if \<bar>n\<bar> \<le> 9007199254740991 \<and> \<not> n < 1 then Some n else None | JNonInt \<Rightarrow> None)"

definition createBoundedCache :: "cache_options \<Rightarrow> 'v bounded_cache range_checked" where
  "createBoundedCache options =
     (case requirePositiveInteger (co_maxEntries options) of
        None \<Rightarrow> Range_Error ''maxEntries''
      | Some maxEntries \<Rightarrow>
      case requirePositiveInteger (co_ttlMs options) of
        None \<Rightarrow> Range_Error ''ttlMs''
      | Some ttlMs \<Rightarrow>
      case requirePositiveInteger (case co_schemaVersion options of None \<Rightarrow> JInt 1 | Some v \<Rightarrow> v) of
        None \<Rightarrow> Range_Error ''schemaVersion''
      | Some schemaVersion \<Rightarrow>
          In_Range \<lparr>bc_maxEntries = maxEntries, bc_ttlMs = ttlMs, bc_schemaVersion = schemaVersion,
            bc_name = (case co_name options of None \<Rightarrow> ''cache'' | Some n \<Rightarrow> n),
            bc_entries = [], bc_inflight = [], bc_hits = 0, bc_misses = 0, bc_evictions = 0, bc_invalidations = 0,
            bc_loads = [], bc_nextRun = 0\<rparr>)"

definition cache_isExpired :: "'v stored_entry \<Rightarrow> int \<Rightarrow> bool" where
  "cache_isExpired entry at = (at - se_cachedAt entry > se_ttlMs entry)"

definition toCacheEntry :: "string \<Rightarrow> 'v stored_entry \<Rightarrow> 'v cache_entry" where
  "toCacheEntry key entry =
     \<lparr>ce_key = key, ce_value = se_value entry, ce_cachedAt = Entry_Ms (se_cachedAt entry), ce_ttlMs = se_ttlMs entry,
      ce_version = se_version entry, ce_ledgerSequence = se_ledgerSequence entry,
      ce_sourceEntityId = se_sourceEntityId entry\<rparr>"

definition cache_get :: "int \<Rightarrow> 'v bounded_cache \<Rightarrow> string \<Rightarrow> ('v, cache_read_error) result \<times> 'v bounded_cache" where
  "cache_get now c key =
     (case map_get (bc_entries c) key of
        None \<Rightarrow> (Err Cache_Miss, c\<lparr>bc_misses := bc_misses c + 1\<rparr>)
      | Some entry \<Rightarrow>
          if cache_isExpired entry now
          then (Err Cache_Expired, c\<lparr>bc_entries := map_remove key (bc_entries c), bc_misses := bc_misses c + 1\<rparr>)
          else (Ok (se_value entry),
            c\<lparr>bc_entries := map_set key entry (map_remove key (bc_entries c)), bc_hits := bc_hits c + 1\<rparr>))"

definition stale_write :: "'v stored_entry \<Rightarrow> cache_write \<Rightarrow> int \<Rightarrow> bool" where
  "stale_write current write at =
     (\<not> cache_isExpired current at \<and>
      (case (se_ledgerSequence current, wo_ledgerSequence write) of
         (Some held, Some offered) \<Rightarrow> offered < held
       | _ \<Rightarrow> False))"

definition evict_oldest :: "'v bounded_cache \<Rightarrow> 'v bounded_cache" where
  "evict_oldest c =
     (if int (length (bc_entries c)) > bc_maxEntries c
      then c\<lparr>bc_entries := map_remove (hd (map_keys (bc_entries c))) (bc_entries c), bc_evictions := bc_evictions c + 1\<rparr>
      else c)"

definition written_entry :: "'v bounded_cache \<Rightarrow> int \<Rightarrow> 'v \<Rightarrow> int option \<Rightarrow> cache_write \<Rightarrow> 'v stored_entry" where
  "written_entry c at value ttl write =
     \<lparr>se_value = value, se_cachedAt = at, se_ttlMs = (case ttl of None \<Rightarrow> bc_ttlMs c | Some t \<Rightarrow> t),
      se_version = bc_schemaVersion c, se_ledgerSequence = wo_ledgerSequence write,
      se_sourceEntityId = wo_sourceEntityId write\<rparr>"

text \<open>The guard on the lifetime comes first: a \<open>RangeError\<close> leaves the cache as it was.\<close>

definition write_ttl :: "cache_write \<Rightarrow> int option range_checked" where
  "write_ttl write =
     (case wo_ttlMs write of
        None \<Rightarrow> In_Range None
      | Some v \<Rightarrow> (case requirePositiveInteger v of None \<Rightarrow> Range_Error ''ttlMs'' | Some t \<Rightarrow> In_Range (Some t)))"

definition cache_set ::
  "int \<Rightarrow> 'v bounded_cache \<Rightarrow> string \<Rightarrow> 'v \<Rightarrow> cache_write \<Rightarrow>
   ((unit, cache_write_error) result \<times> 'v bounded_cache) range_checked" where
  "cache_set at c key value write =
     (case write_ttl write of
        Range_Error name \<Rightarrow> Range_Error name
      | In_Range ttl \<Rightarrow>
          if (case map_get (bc_entries c) key of None \<Rightarrow> False | Some current \<Rightarrow> stale_write current write at)
          then In_Range (Err Cache_Stale_Write, c)
          else In_Range (Ok (), evict_oldest
            (c\<lparr>bc_entries := map_set key (written_entry c at value ttl write) (map_remove key (bc_entries c))\<rparr>)))"

text \<open>A call is answered from the cache, joins the load in flight or starts one.\<close>

datatype 'v load_answer = Cached 'v | Joined nat | Started nat

definition getOrLoad ::
  "int \<Rightarrow> 'v bounded_cache \<Rightarrow> string \<Rightarrow> cache_write \<Rightarrow> 'v load_answer \<times> 'v bounded_cache" where
  "getOrLoad now c key write =
     (case cache_get now c key of
        (Ok v, c') \<Rightarrow> (Cached v, c')
      | (Err _, c') \<Rightarrow>
          (case map_get (bc_inflight c') key of
             Some pending \<Rightarrow> (Joined pending, c')
           | None \<Rightarrow>
               let run = bc_nextRun c' in
               (Started run,
                c'\<lparr>bc_inflight := map_set key run (bc_inflight c'), bc_nextRun := Suc run,
                   bc_loads := map_set run \<lparr>ld_key = key, ld_write = write, ld_settled = False\<rparr> (bc_loads c')\<rparr>)))"

datatype ('v, 'e) load_outcome = Loaded 'v | Load_Failed 'e | Load_Threw

text \<open>What the promise of a load settles with; \<open>Run_Rejected\<close> when the loader or \<open>set\<close> threw.\<close>

datatype ('v, 'e) run_outcome = Run_Value 'v | Run_Failed 'e | Run_Stale cache_write_error | Run_Rejected

definition load_store ::
  "int \<Rightarrow> 'v bounded_cache \<Rightarrow> nat \<Rightarrow> cache_load \<Rightarrow> ('v, 'e) load_outcome \<Rightarrow> ('v, 'e) run_outcome \<times> 'v bounded_cache" where
  "load_store now c run ld outcome =
     (case outcome of
        Load_Threw \<Rightarrow> (Run_Rejected, c)
      | Load_Failed e \<Rightarrow> (Run_Failed e, c)
      | Loaded v \<Rightarrow>
          if map_get (bc_inflight c) (ld_key ld) \<noteq> Some run then (Run_Value v, c)
          else (case cache_set now c (ld_key ld) v (ld_write ld) of
              Range_Error _ \<Rightarrow> (Run_Rejected, c)
            | In_Range (Ok _, c') \<Rightarrow> (Run_Value v, c')
            | In_Range (Err e, c') \<Rightarrow> (Run_Stale e, c')))"

definition load_settles ::
  "int \<Rightarrow> 'v bounded_cache \<Rightarrow> nat \<Rightarrow> ('v, 'e) load_outcome \<Rightarrow> ('v, 'e) run_outcome option \<times> 'v bounded_cache" where
  "load_settles now c run outcome =
     (case map_get (bc_loads c) run of
        None \<Rightarrow> (None, c)
      | Some ld \<Rightarrow>
          if ld_settled ld then (None, c)
          else let (r, c') = load_store now c run ld outcome in
            (Some r, c'\<lparr>bc_loads := map_set run (ld\<lparr>ld_settled := True\<rparr>) (bc_loads c')\<rparr>))"

definition load_finally :: "'v bounded_cache \<Rightarrow> nat \<Rightarrow> 'v bounded_cache" where
  "load_finally c run =
     (case map_get (bc_loads c) run of
        None \<Rightarrow> c
      | Some ld \<Rightarrow>
          if \<not> ld_settled ld then c
          else (if map_get (bc_inflight c) (ld_key ld) = Some run
                then c\<lparr>bc_inflight := map_remove (ld_key ld) (bc_inflight c)\<rparr> else c)
               \<lparr>bc_loads := map_remove run (bc_loads c)\<rparr>)"

definition invalidate :: "'v bounded_cache \<Rightarrow> string \<Rightarrow> bool \<times> 'v bounded_cache" where
  "invalidate c key =
     (let removed = (map_get (bc_entries c) key \<noteq> None) in
      (removed,
       c\<lparr>bc_inflight := map_remove key (bc_inflight c), bc_entries := map_remove key (bc_entries c),
         bc_invalidations := bc_invalidations c + (if removed then 1 else 0)\<rparr>))"

definition invalidateWhere :: "'v bounded_cache \<Rightarrow> ('v cache_entry \<Rightarrow> bool) \<Rightarrow> nat \<times> 'v bounded_cache" where
  "invalidateWhere c predicate =
     (let keys = map fst (filter (\<lambda>(key, entry). predicate (toCacheEntry key entry)) (bc_entries c)) in
      (length keys,
       c\<lparr>bc_entries := fold map_remove keys (bc_entries c), bc_inflight := fold map_remove keys (bc_inflight c),
         bc_invalidations := bc_invalidations c + length keys\<rparr>))"

definition cache_clear ::
  "'v bounded_cache \<Rightarrow> auth_context \<Rightarrow> (nat, cache_flush_error) result \<times> 'v bounded_cache \<times> effect list" where
  "cache_clear c auth =
     (if \<not> hasPermission (auth_role auth) ''admin:recovery''
      then (Err Cache_Unauthorized, c, [emitTelemetry ''cache.flushed'' ''user'' False (Some ''cache_unauthorized'')])
      else (Ok (length (bc_entries c)),
        c\<lparr>bc_entries := [], bc_inflight := [], bc_invalidations := bc_invalidations c + length (bc_entries c)\<rparr>,
        [emitTelemetry ''cache.flushed'' ''user'' True None]))"

definition cache_snapshot :: "'v bounded_cache \<Rightarrow> 'v cache_entry list" where
  "cache_snapshot c = map (\<lambda>(key, entry). toCacheEntry key entry) (bc_entries c)"

definition cache_stats_of :: "'v bounded_cache \<Rightarrow> cache_stats" where
  "cache_stats_of c =
     \<lparr>cs_size = length (bc_entries c), cs_hits = bc_hits c, cs_misses = bc_misses c, cs_evictions = bc_evictions c,
      cs_invalidations = bc_invalidations c\<rparr>"

end
