(* ===== verification/Cache_Runs.thy ===== *)
theory Cache_Runs
  imports Bounded_Cache "HOL-Library.Sublist"
begin

text \<open>
  Runs of the cache: reads, writes, loads and their callbacks, invalidations and flushes in
  any interleaving. A history keeps what each call did to a key, and the entries are
  compared with it: their order is the order of last use, and an entry is the last write.
\<close>

section \<open>Runs and their history\<close>

datatype ('v, 'e) cache_event =
    Get int string
  | Set int string 'v cache_write
  | Get_Or_Load int string cache_write
  | Load_Settles int nat "('v, 'e) load_outcome"
  | Load_Finally nat
  | Invalidate string
  | Invalidate_Where "'v cache_entry \<Rightarrow> bool"
  | Clear auth_context

fun cache_step :: "'v bounded_cache \<Rightarrow> ('v, 'e) cache_event \<Rightarrow> 'v bounded_cache" where
  "cache_step c (Get now k) = snd (cache_get now c k)"
| "cache_step c (Set now k v w) = (case cache_set now c k v w of In_Range r \<Rightarrow> snd r | Range_Error _ \<Rightarrow> c)"
| "cache_step c (Get_Or_Load now k w) = snd (getOrLoad now c k w)"
| "cache_step c (Load_Settles now run outcome) = snd (load_settles now c run outcome)"
| "cache_step c (Load_Finally run) = load_finally c run"
| "cache_step c (Invalidate k) = snd (invalidate c k)"
| "cache_step c (Invalidate_Where p) = snd (invalidateWhere c p)"
| "cache_step c (Clear auth) = fst (snd (cache_clear c auth))"

text \<open>A write keeps the value, its instant and its lifetime.\<close>

datatype 'v cache_note = Used string | Stored string 'v int int | Dropped "string list" | Dropped_All

definition stored_note :: "int \<Rightarrow> 'v bounded_cache \<Rightarrow> string \<Rightarrow> 'v \<Rightarrow> cache_write \<Rightarrow> 'v cache_note list" where
  "stored_note now c k v w =
     (case cache_set now c k v w of
        In_Range (Ok _, _) \<Rightarrow> [Stored k v now (case wo_ttlMs w of Some (JInt t) \<Rightarrow> t | _ \<Rightarrow> bc_ttlMs c)]
      | _ \<Rightarrow> [])"

definition used_note :: "int \<Rightarrow> 'v bounded_cache \<Rightarrow> string \<Rightarrow> 'v cache_note list" where
  "used_note now c k = (if isOk (fst (cache_get now c k)) then [Used k] else [])"

fun cache_notes :: "'v bounded_cache \<Rightarrow> ('v, 'e) cache_event \<Rightarrow> 'v cache_note list" where
  "cache_notes c (Get now k) = used_note now c k"
| "cache_notes c (Set now k v w) = stored_note now c k v w"
| "cache_notes c (Get_Or_Load now k w) = used_note now c k"
| "cache_notes c (Load_Settles now run outcome) =
     (case (map_get (bc_loads c) run, outcome) of
        (Some ld, Loaded v) \<Rightarrow>
          if \<not> ld_settled ld \<and> map_get (bc_inflight c) (ld_key ld) = Some run
          then stored_note now c (ld_key ld) v (ld_write ld) else []
      | _ \<Rightarrow> [])"
| "cache_notes c (Load_Finally run) = []"
| "cache_notes c (Invalidate k) = [Dropped [k]]"
| "cache_notes c (Invalidate_Where p) = [Dropped (map ce_key (filter p (cache_snapshot c)))]"
| "cache_notes c (Clear auth) = (if hasPermission (auth_role auth) ''admin:recovery'' then [Dropped_All] else [])"

type_synonym 'v cache_trace = "'v bounded_cache \<times> 'v cache_note list"

fun trace_step :: "'v cache_trace \<Rightarrow> ('v, 'e) cache_event \<Rightarrow> 'v cache_trace" where
  "trace_step (c, h) e = (cache_step c e, h @ cache_notes c e)"

fun note_uses :: "'v cache_note \<Rightarrow> string list" where
  "note_uses (Used k) = [k]"
| "note_uses (Stored k _ _ _) = [k]"
| "note_uses _ = []"

definition uses :: "'v cache_note list \<Rightarrow> string list" where
  "uses h = concat (map note_uses h)"

fun note_write :: "(string \<Rightarrow> ('v \<times> int \<times> int) option) \<Rightarrow> 'v cache_note \<Rightarrow> string \<Rightarrow> ('v \<times> int \<times> int) option" where
  "note_write m (Used _) = m"
| "note_write m (Stored k v at t) = m(k \<mapsto> (v, at, t))"
| "note_write m (Dropped ks) = (\<lambda>k. if k \<in> set ks then None else m k)"
| "note_write m Dropped_All = (\<lambda>_. None)"

definition last_write :: "'v cache_note list \<Rightarrow> string \<Rightarrow> ('v \<times> int \<times> int) option" where
  "last_write h = foldl note_write (\<lambda>_. None) h"

lemma uses_simps [simp]: "uses [] = []" "uses (h @ [n]) = uses h @ note_uses n"
  by (simp_all add: uses_def)

lemma last_write_simps [simp]: "last_write [] = (\<lambda>_. None)" "last_write (h @ [n]) = note_write (last_write h) n"
  by (simp_all add: last_write_def)

section \<open>Entries against the history\<close>

definition write_of :: "'v stored_entry \<Rightarrow> 'v \<times> int \<times> int" where
  "write_of e = (se_value e, se_cachedAt e, se_ttlMs e)"

definition backed :: "'v cache_note list \<Rightarrow> (string, 'v stored_entry) js_map \<Rightarrow> bool" where
  "backed h m =
     (map_wf m \<and> subseq (map_keys m) (remdups (uses h)) \<and>
      (\<forall>k e. map_get m k = Some e \<longrightarrow> last_write h k = Some (write_of e)))"

lemma touch_eq: "map_set k e (map_remove k m) = map_remove k m @ [(k, e)]"
  by (induction m) (auto simp: map_set_def map_remove_def)

lemma keys_remove: "map_keys (map_remove k m) = filter (\<lambda>x. x \<noteq> k) (map_keys m)"
  by (induction m) (auto simp: map_keys_def map_remove_def)

lemma keys_touch: "map_keys (map_set k e (map_remove k m)) = filter (\<lambda>x. x \<noteq> k) (map_keys m) @ [k]"
  unfolding touch_eq using keys_remove [of k m] by (simp add: map_keys_def)

lemma remdups_use: "remdups (u @ [k]) = filter (\<lambda>x. x \<noteq> k) (remdups u) @ [k]"
  by (induction u) auto

lemma backed_remove: "backed h m \<Longrightarrow> backed h (map_remove k m)"
  by (auto simp: backed_def keys_remove map_get_remove subseq_order.order_trans [OF subseq_filter_left])

lemma backed_remove_all: "backed h m \<Longrightarrow> backed h (fold map_remove ks m)"
  by (induction ks arbitrary: m) (auto intro: backed_remove)

lemma backed_use:
  assumes "backed h m" "map_get m k = Some e"
  shows "backed (h @ [Used k]) (map_set k e (map_remove k m))"
  using assms
  by (auto simp: backed_def keys_touch remdups_use map_get_set map_get_remove intro: list_emb_append_mono subseq_filter)

lemma backed_store:
  assumes "backed h m" "write_of e = (v, at, t)"
  shows "backed (h @ [Stored k v at t]) (map_set k e (map_remove k m))"
  using assms
  by (auto simp: backed_def keys_touch remdups_use map_get_set map_get_remove intro: list_emb_append_mono subseq_filter)

lemma backed_drop: "backed h m \<Longrightarrow> backed (h @ [Dropped ks]) (fold map_remove ks m)"
  using backed_remove_all [of h m ks] by (auto simp: backed_def js_store.fold_del_get)

lemma backed_clear: "backed (h @ [Dropped_All]) []"
  by (auto simp: backed_def map_keys_def)

section \<open>The invariant\<close>

text \<open>
  Every entry has a positive lifetime and the schema version of the cache; a promise that
  is registered was created, and so was every unfinished load.
\<close>

definition entries_ok :: "'v bounded_cache \<Rightarrow> bool" where
  "entries_ok c =
     (1 \<le> bc_maxEntries c \<and> 1 \<le> bc_ttlMs c \<and> int (length (bc_entries c)) \<le> bc_maxEntries c \<and>
      (\<forall>k e. map_get (bc_entries c) k = Some e \<longrightarrow> 1 \<le> se_ttlMs e \<and> se_version e = bc_schemaVersion c))"

definition loads_ok :: "'v bounded_cache \<Rightarrow> bool" where
  "loads_ok c =
     ((\<forall>k run. map_get (bc_inflight c) k = Some run \<longrightarrow>
         run < bc_nextRun c \<and> (\<exists>ld. map_get (bc_loads c) run = Some ld \<and> ld_key ld = k)) \<and>
      (\<forall>run ld. map_get (bc_loads c) run = Some ld \<longrightarrow> run < bc_nextRun c))"

fun trace_ok :: "'v cache_trace \<Rightarrow> bool" where
  "trace_ok (c, h) = (entries_ok c \<and> loads_ok c \<and> backed h (bc_entries c))"

lemma length_remove: "length (map_remove k m) \<le> length m"
  by (simp add: map_remove_def length_delete_le)

lemma length_remove_all: "length (fold map_remove ks m) \<le> length m"
  by (induction ks arbitrary: m) (auto intro: order_trans length_remove)

lemma length_touch: "map_get m k = Some e \<Longrightarrow> length (map_set k e' (map_remove k m)) \<le> length m"
proof -
  assume "map_get m k = Some e"
  then have "length (map_remove k m) < length m"
    by (induction m) (auto simp: map_get_def map_remove_def less_Suc_eq_le length_delete_le split: if_splits)
  then show ?thesis by (simp add: touch_eq)
qed

lemma positive_range: "requirePositiveInteger v = Some n \<Longrightarrow> 1 \<le> n"
  by (auto simp: requirePositiveInteger_def split: js_number.splits if_splits)

lemma get_entries:
  "bc_entries (snd (cache_get now c k)) =
     (case map_get (bc_entries c) k of
        None \<Rightarrow> bc_entries c
      | Some e \<Rightarrow> if cache_isExpired e now then map_remove k (bc_entries c)
          else map_set k e (map_remove k (bc_entries c)))"
  by (simp add: cache_get_def split: option.split)

lemma get_fields [simp]:
  "bc_maxEntries (snd (cache_get now c k)) = bc_maxEntries c" "bc_ttlMs (snd (cache_get now c k)) = bc_ttlMs c"
  "bc_schemaVersion (snd (cache_get now c k)) = bc_schemaVersion c" "bc_inflight (snd (cache_get now c k)) = bc_inflight c"
  "bc_loads (snd (cache_get now c k)) = bc_loads c" "bc_nextRun (snd (cache_get now c k)) = bc_nextRun c"
  by (simp_all add: cache_get_def split: option.split)

lemma get_result:
  "fst (cache_get now c k) =
     (case map_get (bc_entries c) k of
        None \<Rightarrow> Err Cache_Miss
      | Some e \<Rightarrow> if cache_isExpired e now then Err Cache_Expired else Ok (se_value e))"
  by (simp add: cache_get_def split: option.split)

lemma get_ok:
  assumes "trace_ok (c, h)"
  shows "trace_ok (snd (cache_get now c k), h @ used_note now c k)"
proof (cases "map_get (bc_entries c) k")
  case None
  with assms show ?thesis by (simp add: entries_ok_def loads_ok_def get_entries used_note_def get_result)
next
  case (Some e)
  have len: "length (map_remove k (bc_entries c)) \<le> length (bc_entries c)"
      "length (map_set k e (map_remove k (bc_entries c))) \<le> length (bc_entries c)"
    by (rule length_remove, rule length_touch [OF Some])
  show ?thesis
  proof (cases "cache_isExpired e now")
    case True
    with assms Some len(1) show ?thesis
      by (auto simp: entries_ok_def loads_ok_def get_entries used_note_def get_result map_get_remove intro: backed_remove)
  next
    case False
    with assms Some len(2) show ?thesis
      by (auto simp: entries_ok_def loads_ok_def get_entries used_note_def get_result map_get_remove map_get_set
          intro: backed_use)
  qed
qed

lemma evict_keeps:
  "bc_maxEntries (evict_oldest c) = bc_maxEntries c" "bc_ttlMs (evict_oldest c) = bc_ttlMs c"
  "bc_schemaVersion (evict_oldest c) = bc_schemaVersion c" "bc_inflight (evict_oldest c) = bc_inflight c"
  "bc_loads (evict_oldest c) = bc_loads c" "bc_nextRun (evict_oldest c) = bc_nextRun c"
  by (simp_all add: evict_oldest_def)

lemma evict_entries:
  "bc_entries (evict_oldest c) = bc_entries c \<or> bc_entries (evict_oldest c) = map_remove (hd (map_keys (bc_entries c))) (bc_entries c)"
  by (simp add: evict_oldest_def)

lemma evict_length:
  assumes "int (length (bc_entries c)) \<le> bc_maxEntries c + 1" "0 \<le> bc_maxEntries c"
  shows "int (length (bc_entries (evict_oldest c))) \<le> bc_maxEntries c"
proof (cases "int (length (bc_entries c)) > bc_maxEntries c")
  case True
  with assms(2) obtain k e m where m: "bc_entries c = (k, e) # m" by (cases "bc_entries c") auto
  have "length (map_remove k m) \<le> length m" by (rule length_remove)
  with m True assms show ?thesis by (simp add: evict_oldest_def map_keys_def map_remove_def)
qed (simp add: evict_oldest_def)

text \<open>An accepted write is the entry at its key, and it is noted with its lifetime.\<close>

lemma set_cases:
  obtains (refused) "stored_note now c k v w = []"
      "case cache_set now c k v w of In_Range r \<Rightarrow> snd r = c \<and> \<not> isOk (fst r) | Range_Error _ \<Rightarrow> True"
  | (accepted) e t where "cache_set now c k v w = In_Range (Ok (), evict_oldest
        (c\<lparr>bc_entries := map_set k e (map_remove k (bc_entries c))\<rparr>))"
      "stored_note now c k v w = [Stored k v now t]" "write_of e = (v, now, t)"
      "1 \<le> bc_ttlMs c \<Longrightarrow> 1 \<le> t" "se_version e = bc_schemaVersion c"
proof (cases "write_ttl w")
  case (Range_Error n)
  then show ?thesis by (intro refused) (simp_all add: stored_note_def cache_set_def)
next
  case (In_Range ttl)
  define t where "t = (case wo_ttlMs w of Some (JInt t) \<Rightarrow> t | _ \<Rightarrow> bc_ttlMs c)"
  have t: "write_of (written_entry c now v ttl w) = (v, now, t)" "1 \<le> bc_ttlMs c \<Longrightarrow> 1 \<le> t"
    using In_Range
    by (auto simp: t_def write_ttl_def write_of_def written_entry_def requirePositiveInteger_def
        split: option.splits js_number.splits if_splits)
  show ?thesis
  proof (cases "case map_get (bc_entries c) k of None \<Rightarrow> False | Some current \<Rightarrow> stale_write current w now")
    case True
    then show ?thesis by (intro refused) (simp_all add: stored_note_def cache_set_def In_Range)
  next
    case False
    show ?thesis
    proof (rule accepted)
      show "cache_set now c k v w = In_Range (Ok (), evict_oldest
          (c\<lparr>bc_entries := map_set k (written_entry c now v ttl w) (map_remove k (bc_entries c))\<rparr>))"
        using False by (simp add: cache_set_def In_Range)
      then show "stored_note now c k v w = [Stored k v now t]" by (simp add: stored_note_def t_def)
    qed (use t in \<open>simp_all add: written_entry_def\<close>)
  qed
qed

definition after_set :: "int \<Rightarrow> 'v bounded_cache \<Rightarrow> string \<Rightarrow> 'v \<Rightarrow> cache_write \<Rightarrow> 'v bounded_cache" where
  "after_set now c k v w = (case cache_set now c k v w of In_Range r \<Rightarrow> snd r | Range_Error _ \<Rightarrow> c)"

lemma after_set_fields [simp]:
  "bc_maxEntries (after_set now c k v w) = bc_maxEntries c" "bc_ttlMs (after_set now c k v w) = bc_ttlMs c"
  "bc_schemaVersion (after_set now c k v w) = bc_schemaVersion c" "bc_inflight (after_set now c k v w) = bc_inflight c"
  "bc_loads (after_set now c k v w) = bc_loads c" "bc_nextRun (after_set now c k v w) = bc_nextRun c"
  by (simp_all add: after_set_def cache_set_def evict_keeps split: range_checked.split)

lemma set_ok:
  assumes "trace_ok (c, h)"
  shows "trace_ok (after_set now c k v w, h @ stored_note now c k v w)"
proof (cases rule: set_cases [of now c k v w])
  case refused
  then have "after_set now c k v w = c" by (auto simp: after_set_def split: range_checked.splits)
  with assms refused show ?thesis by simp
next
  case (accepted e t)
  let ?c = "c\<lparr>bc_entries := map_set k e (map_remove k (bc_entries c))\<rparr>"
  have c': "after_set now c k v w = evict_oldest ?c" using accepted(1) by (simp add: after_set_def)
  have b: "backed (h @ [Stored k v now t]) (bc_entries ?c)"
    using assms accepted(3) by (auto intro: backed_store)
  have e: "1 \<le> se_ttlMs e" using assms accepted(3,4) by (simp add: write_of_def entries_ok_def)
  have "length (map_remove k (bc_entries c)) \<le> length (bc_entries c)" by (rule length_remove)
  then have len: "int (length (bc_entries (evict_oldest ?c))) \<le> bc_maxEntries c"
    using assms evict_length [of ?c] by (simp add: entries_ok_def touch_eq)
  have b': "backed (h @ [Stored k v now t]) (bc_entries (evict_oldest ?c))"
    using evict_entries [of ?c] b by (metis backed_remove)
  have "1 \<le> se_ttlMs y \<and> se_version y = bc_schemaVersion c" if "map_get (bc_entries (evict_oldest ?c)) x = Some y" for x y
  proof -
    from that have "map_get (bc_entries ?c) x = Some y"
      using evict_entries [of ?c] by (auto simp: map_get_remove split: if_splits)
    then have "x = k \<and> y = e \<or> map_get (bc_entries c) x = Some y"
      by (auto simp: map_get_set map_get_remove split: if_splits)
    with assms e accepted(5) show ?thesis by (auto simp: entries_ok_def)
  qed
  with assms len have "entries_ok (evict_oldest ?c)" by (simp add: entries_ok_def evict_keeps)
  moreover have "loads_ok (evict_oldest ?c)" using assms by (simp add: loads_ok_def evict_keeps)
  ultimately show ?thesis using b' by (simp add: c' accepted(2))
qed

lemma getOrLoad_ok:
  assumes "trace_ok (c, h)"
  shows "trace_ok (snd (getOrLoad now c k w), h @ used_note now c k)"
proof -
  obtain r c' where g: "cache_get now c k = (r, c')" by fastforce
  then have ok: "trace_ok (c', h @ used_note now c k)" using get_ok [OF assms, of now k] by simp
  show ?thesis
  proof (cases "\<exists>e. r = Err e \<and> map_get (bc_inflight c') k = None")
    case True
    then have eq: "snd (getOrLoad now c k w) = c'\<lparr>bc_inflight := map_set k (bc_nextRun c') (bc_inflight c'),
        bc_nextRun := Suc (bc_nextRun c'),
        bc_loads := map_set (bc_nextRun c') \<lparr>ld_key = k, ld_write = w, ld_settled = False\<rparr> (bc_loads c')\<rparr>"
      by (auto simp: getOrLoad_def g Let_def)
    have "loads_ok (snd (getOrLoad now c k w))"
      using ok unfolding eq by (fastforce simp: loads_ok_def map_get_set less_Suc_eq split: if_splits)
    with ok show ?thesis unfolding eq by (simp add: entries_ok_def)
  next
    case False
    then have "snd (getOrLoad now c k w) = c'"
      by (auto simp: getOrLoad_def g split: result.split option.split)
    with ok show ?thesis by simp
  qed
qed

lemma load_store_cases:
  "snd (load_store now c run ld outcome) =
     (case outcome of
        Loaded v \<Rightarrow> if map_get (bc_inflight c) (ld_key ld) = Some run then after_set now c (ld_key ld) v (ld_write ld) else c
      | _ \<Rightarrow> c)"
  by (auto simp: load_store_def after_set_def cache_set_def split: load_outcome.split range_checked.split)

lemma loads_ok_update:
  assumes "loads_ok c" "map_get (bc_loads c) run = Some ld" "ld_key ld' = ld_key ld"
  shows "loads_ok (c\<lparr>bc_loads := map_set run ld' (bc_loads c)\<rparr>)"
  using assms by (fastforce simp: loads_ok_def map_get_set)

lemma load_settles_ok:
  assumes "trace_ok (c, h)"
  shows "trace_ok (snd (load_settles now c run outcome), h @ cache_notes c (Load_Settles now run outcome))"
proof (cases "\<exists>ld. map_get (bc_loads c) run = Some ld \<and> \<not> ld_settled ld")
  case False
  with assms show ?thesis by (auto simp: load_settles_def split: option.split load_outcome.split)
next
  case True
  then obtain ld where ld: "map_get (bc_loads c) run = Some ld" "\<not> ld_settled ld" by blast
  let ?c = "snd (load_store now c run ld outcome)"
  have ok: "trace_ok (?c, h @ cache_notes c (Load_Settles now run outcome))"
    using assms set_ok [OF assms, of now "ld_key ld" _ "ld_write ld"]
    by (auto simp: load_store_cases ld split: load_outcome.split)
  have "bc_loads ?c = bc_loads c" by (simp add: load_store_cases split: load_outcome.split)
  then have "loads_ok (?c\<lparr>bc_loads := map_set run (ld\<lparr>ld_settled := True\<rparr>) (bc_loads ?c)\<rparr>)"
    using ok ld by (intro loads_ok_update) auto
  moreover have "snd (load_settles now c run outcome) = ?c\<lparr>bc_loads := map_set run (ld\<lparr>ld_settled := True\<rparr>) (bc_loads ?c)\<rparr>"
    by (simp add: load_settles_def ld case_prod_beta Let_def)
  ultimately show ?thesis using ok by (simp add: entries_ok_def)
qed

lemma load_finally_ok:
  assumes "trace_ok (c, h)"
  shows "trace_ok (load_finally c run, h)"
proof -
  have "loads_ok (load_finally c run)"
    using assms
    by (fastforce simp: loads_ok_def load_finally_def map_get_remove split: option.split)
  moreover have "entries_ok (load_finally c run) = entries_ok c" "bc_entries (load_finally c run) = bc_entries c"
    by (auto simp: load_finally_def entries_ok_def split: option.split)
  ultimately show ?thesis using assms by simp
qed

lemma entries_ok_shrink:
  assumes "entries_ok c" "length m \<le> length (bc_entries c)" "\<And>k e. map_get m k = Some e \<Longrightarrow> map_get (bc_entries c) k = Some e"
  shows "entries_ok (c\<lparr>bc_entries := m\<rparr>)"
  using assms by (fastforce simp: entries_ok_def)

lemma drop_ok:
  assumes "trace_ok (c, h)"
  shows "trace_ok (c\<lparr>bc_entries := fold map_remove ks (bc_entries c), bc_inflight := fold map_remove ks (bc_inflight c),
      bc_invalidations := n\<rparr>, h @ [Dropped ks])"
proof -
  have "entries_ok (c\<lparr>bc_entries := fold map_remove ks (bc_entries c)\<rparr>)"
    using assms by (intro entries_ok_shrink) (auto simp: length_remove_all js_store.fold_del_get split: if_splits)
  then show ?thesis
    using assms by (auto simp: entries_ok_def loads_ok_def js_store.fold_del_get split: if_splits intro: backed_drop)
qed

lemma clear_ok:
  assumes "trace_ok (c, h)"
  shows "trace_ok (c\<lparr>bc_entries := [], bc_inflight := [], bc_invalidations := n\<rparr>, h @ [Dropped_All])"
  using assms by (simp add: entries_ok_def loads_ok_def backed_clear)

lemma filter_keys:
  "map ce_key (filter p (map (\<lambda>(k, e). toCacheEntry k e) m)) = map fst (filter (\<lambda>(k, e). p (toCacheEntry k e)) m)"
  by (induction m) (auto simp: toCacheEntry_def)

lemma snapshot_keys: "map ce_key (filter p (cache_snapshot c)) = map fst (filter (\<lambda>(k, e). p (toCacheEntry k e)) (bc_entries c))"
  unfolding cache_snapshot_def by (rule filter_keys)

lemma trace_step_ok: "trace_ok s \<Longrightarrow> trace_ok (trace_step s e)"
proof (cases s)
  case (Pair c h)
  assume "trace_ok s"
  then have ok: "trace_ok (c, h)" by (simp add: Pair)
  show ?thesis
  proof (cases e)
    case (Invalidate k)
    then show ?thesis using drop_ok [OF ok, where ks = "[k]"]
      by (simp add: Pair invalidate_def Let_def entries_ok_def loads_ok_def)
  next
    case (Invalidate_Where p)
    then show ?thesis using drop_ok [OF ok]
      by (simp add: Pair invalidateWhere_def Let_def snapshot_keys del: trace_ok.simps)
  next
    case (Clear auth)
    then show ?thesis using ok clear_ok [OF ok] by (simp add: Pair cache_clear_def del: trace_ok.simps)
  next
    case (Set now k v w)
    then show ?thesis using set_ok [OF ok, of now k v w] by (simp add: Pair after_set_def del: trace_ok.simps)
  qed (use get_ok [OF ok] getOrLoad_ok [OF ok] load_settles_ok [OF ok] load_finally_ok [OF ok] in
      \<open>simp_all add: Pair del: trace_ok.simps\<close>)
qed

interpretation cache_runs: step_system trace_step trace_ok
  by unfold_locales (rule trace_step_ok)

lemma fresh_cache_ok: "createBoundedCache options = In_Range c \<Longrightarrow> trace_ok (c, [])"
  by (auto simp: createBoundedCache_def entries_ok_def loads_ok_def backed_def map_keys_def
      dest!: positive_range split: option.splits)

lemma trace_states: "fst (foldl trace_step (c, h) es) = foldl cache_step c es"
  by (induction es arbitrary: c h) auto

lemma step_maxEntries: "bc_maxEntries (cache_step c e) = bc_maxEntries c"
proof (cases e)
  case (Set now k v w)
  then show ?thesis using after_set_fields(1) [of now c k v w] by (simp add: after_set_def)
next
  case (Get_Or_Load now k w)
  then show ?thesis
    using get_fields(1) [of now c k]
    by (cases "cache_get now c k") (auto simp: getOrLoad_def Let_def split: result.split option.split)
qed (auto simp: load_settles_def load_finally_def invalidate_def invalidateWhere_def cache_clear_def Let_def
    case_prod_beta load_store_cases split: option.split load_outcome.split)

lemma run_maxEntries: "bc_maxEntries (foldl cache_step c es) = bc_maxEntries c"
  by (induction es arbitrary: c) (auto simp: step_maxEntries)

lemma traced:
  assumes "createBoundedCache options = In_Range c0" "foldl trace_step (c0, []) es = (c, h)"
  shows "trace_ok (c, h)" "bc_maxEntries c = bc_maxEntries c0"
  using cache_runs.run_keeps [OF fresh_cache_ok [OF assms(1)], of es] trace_states [of c0 "[]" es]
    run_maxEntries [of c0 es] assms(2)
  by (auto simp del: trace_ok.simps)

section \<open>Bounded, least recently used first\<close>

definition used_before :: "string list \<Rightarrow> string \<Rightarrow> string \<Rightarrow> bool" where
  "used_before u x y = (\<exists>ys zs. remdups u = ys @ x # zs \<and> y \<in> set zs)"

lemma evicted_first:
  assumes ok: "trace_ok (c, h)" and set: "cache_set now c k v w = In_Range (Ok (), c')"
    and gone: "map_get (bc_entries c) x \<noteq> None" "x \<noteq> k" "map_get (bc_entries c') x = None"
    and kept: "map_get (bc_entries c') y \<noteq> None"
  shows "used_before (uses (h @ stored_note now c k v w)) x y"
proof (cases rule: set_cases [of now c k v w])
  case refused
  with set show ?thesis by simp
next
  case (accepted e t)
  let ?m = "map_set k e (map_remove k (bc_entries c))"
  let ?c = "c\<lparr>bc_entries := ?m\<rparr>"
  have c': "c' = evict_oldest ?c" using set accepted(1) by simp
  have m: "backed (h @ [Stored k v now t]) ?m" using ok accepted(3) by (auto intro: backed_store)
  have "map_get ?m x \<noteq> None" using gone by (simp add: map_get_set map_get_remove)
  moreover have x: "bc_entries c' = map_remove (hd (map_keys ?m)) ?m"
    using evict_entries [of ?c] calculation gone(3) by (auto simp: c')
  ultimately have hd: "x = hd (map_keys ?m)" using gone(3) by (auto simp: map_get_remove split: if_splits)
  have keys: "map_keys ?m = x # tl (map_keys ?m)" unfolding hd by (rule hd_Cons_tl [symmetric]) (simp add: keys_touch)
  have "y \<in> set (map_keys ?m)" "y \<noteq> x" using kept unfolding x map_get_None_iff keys_remove hd by auto
  then have y: "y \<in> set (tl (map_keys ?m))" using keys by (metis set_ConsD)
  have "subseq (x # tl (map_keys ?m)) (remdups (uses (h @ [Stored k v now t])))"
    using m unfolding backed_def keys [symmetric] by blast
  then obtain ys zs where split: "remdups (uses (h @ [Stored k v now t])) = ys @ x # zs" "subseq (tl (map_keys ?m)) zs"
    by (blast dest: list_emb_ConsD)
  then have "y \<in> set zs" using y by (auto elim: list_emb_set)
  with split(1) show ?thesis unfolding used_before_def accepted(2) by blast
qed

text \<open>
  C31. The cache is bounded and evicts the least recently used entry: after any run it holds
  at most \<open>maxEntries\<close> keys, and when an accepted write loses another key, every key that
  stays was hit or written after the lost one.
\<close>

theorem cache_lru:
  assumes "createBoundedCache options = In_Range c0" "foldl trace_step (c0, []) es = (c, h)"
  shows "int (cs_size (cache_stats_of c)) \<le> bc_maxEntries c0 \<and> distinct (map_keys (bc_entries c)) \<and>
    (\<forall>now k v w c' x y. cache_set now c k v w = In_Range (Ok (), c') \<longrightarrow>
       map_get (bc_entries c) x \<noteq> None \<longrightarrow> x \<noteq> k \<longrightarrow> map_get (bc_entries c') x = None \<longrightarrow>
       map_get (bc_entries c') y \<noteq> None \<longrightarrow> used_before (uses (h @ stored_note now c k v w)) x y)"
proof (intro conjI allI impI)
  show "int (cs_size (cache_stats_of c)) \<le> bc_maxEntries c0" "distinct (map_keys (bc_entries c))"
    using traced [OF assms] by (simp_all add: cache_stats_of_def entries_ok_def backed_def map_wf_def map_keys_def)
qed (rule evicted_first [OF traced(1) [OF assms]])

text \<open>
  C32. No lost and no stale value: what a read returns was put there by the last accepted
  write of its key, nothing has invalidated it since, and its lifetime has not passed.
\<close>

theorem cache_serves_last_write:
  assumes "createBoundedCache options = In_Range c0" "foldl trace_step (c0, []) es = (c, h)"
    "fst (cache_get now c k) = Ok v"
  shows "\<exists>at lifetime. last_write h k = Some (v, at, lifetime) \<and> now - at \<le> lifetime"
proof -
  obtain e where "map_get (bc_entries c) k = Some e" "\<not> cache_isExpired e now" "v = se_value e"
    using assms(3) by (auto simp: get_result split: option.splits if_splits)
  with traced(1) [OF assms(1,2)] show ?thesis
    by (auto simp: backed_def write_of_def cache_isExpired_def)
qed

section \<open>Loads\<close>

text \<open>What the steps do to the loads: their map, the registered ones and the next promise.\<close>

definition load_part :: "'v bounded_cache \<Rightarrow> (string, nat) js_map \<times> (nat, cache_load) js_map \<times> nat" where
  "load_part c = (bc_inflight c, bc_loads c, bc_nextRun c)"

lemma get_load_part: "load_part (snd (cache_get now c k)) = load_part c"
  by (simp add: load_part_def)

lemma set_load_part: "load_part (cache_step c (Set now k v w)) = load_part c"
  using after_set_fields [of now c k v w] by (simp add: load_part_def after_set_def)

lemma getOrLoad_cases:
  obtains (kept) "load_part (snd (getOrLoad now c k w)) = load_part c"
      "\<And>run. map_get (bc_inflight c) k = Some run \<Longrightarrow> fst (getOrLoad now c k w) \<in> {Joined run} \<union> range Cached"
      "fst (getOrLoad now c k w) \<notin> range Started"
  | (started) "map_get (bc_inflight c) k = None" "fst (getOrLoad now c k w) = Started (bc_nextRun c)"
      "load_part (snd (getOrLoad now c k w)) = (map_set k (bc_nextRun c) (bc_inflight c),
         map_set (bc_nextRun c) \<lparr>ld_key = k, ld_write = w, ld_settled = False\<rparr> (bc_loads c), Suc (bc_nextRun c))"
proof -
  obtain r c' where g: "cache_get now c k = (r, c')" by fastforce
  then have part: "bc_inflight c' = bc_inflight c" "bc_loads c' = bc_loads c" "bc_nextRun c' = bc_nextRun c"
    using get_fields(4-6) [of now c k] by simp_all
  show ?thesis
  proof (cases "\<exists>e. r = Err e \<and> map_get (bc_inflight c') k = None")
    case True
    then show ?thesis by (intro started) (auto simp: getOrLoad_def g Let_def part load_part_def)
  next
    case False
    then show ?thesis
      by (intro kept) (auto simp: getOrLoad_def g part load_part_def split: result.split option.split)
  qed
qed

lemma settles_load_part:
  "load_part (cache_step c (Load_Settles now run outcome)) =
     (case map_get (bc_loads c) run of
        None \<Rightarrow> load_part c
      | Some ld \<Rightarrow> if ld_settled ld then load_part c
          else (bc_inflight c, map_set run (ld\<lparr>ld_settled := True\<rparr>) (bc_loads c), bc_nextRun c))"
  by (simp add: load_part_def load_settles_def load_store_cases case_prod_beta Let_def
      split: option.split load_outcome.split)

lemma finally_load_part:
  "load_part (cache_step c (Load_Finally run)) =
     (case map_get (bc_loads c) run of
        None \<Rightarrow> load_part c
      | Some ld \<Rightarrow> if \<not> ld_settled ld then load_part c
          else (if map_get (bc_inflight c) (ld_key ld) = Some run then map_remove (ld_key ld) (bc_inflight c) else bc_inflight c,
            map_remove run (bc_loads c), bc_nextRun c))"
  by (simp add: load_part_def load_finally_def split: option.split)

lemma drop_load_part:
  "load_part (cache_step c (Invalidate k)) = (map_remove k (bc_inflight c), bc_loads c, bc_nextRun c)"
  "load_part (cache_step c (Invalidate_Where p)) =
     (fold map_remove (map fst (filter (\<lambda>(k, e). p (toCacheEntry k e)) (bc_entries c))) (bc_inflight c), bc_loads c, bc_nextRun c)"
  "load_part (cache_step c (Clear auth)) =
     (if hasPermission (auth_role auth) ''admin:recovery'' then [] else bc_inflight c, bc_loads c, bc_nextRun c)"
  by (simp_all add: load_part_def invalidate_def invalidateWhere_def cache_clear_def Let_def)

text \<open>A load that is not registered for any key never becomes registered again.\<close>

definition retired :: "nat \<Rightarrow> 'v bounded_cache \<Rightarrow> bool" where
  "retired run c = (run < bc_nextRun c \<and> (\<forall>k. map_get (bc_inflight c) k \<noteq> Some run))"

lemma retired_part: "load_part c' = (f, l, n) \<Longrightarrow> retired run c' \<longleftrightarrow> run < n \<and> (\<forall>k. map_get f k \<noteq> Some run)"
  by (auto simp: retired_def load_part_def)

lemma retired_same: "load_part c' = load_part c \<Longrightarrow> retired run c' = retired run c"
  by (simp add: retired_def load_part_def)

lemma retired_step:
  assumes "retired run c"
  shows "retired run (cache_step c e)"
proof (cases e)
  case (Get now k)
  then show ?thesis using assms by (simp add: retired_same [OF get_load_part])
next
  case (Set now k v w)
  then show ?thesis using assms by (simp add: retired_same [OF set_load_part] del: cache_step.simps)
next
  case (Get_Or_Load now k w)
  show ?thesis
  proof (cases rule: getOrLoad_cases [of now c k w])
    case kept
    then show ?thesis using assms Get_Or_Load by (simp add: retired_same [OF kept(1)])
  next
    case started
    then show ?thesis using assms Get_Or_Load retired_part [OF started(3)] by (auto simp: retired_def map_get_set)
  qed
next
  case (Load_Settles now r out)
  then show ?thesis
    using assms settles_load_part [of c now r out] by (auto simp: retired_def load_part_def split: option.splits if_splits)
next
  case (Load_Finally r)
  then show ?thesis
    using assms finally_load_part [of c r]
    by (auto simp: retired_def load_part_def map_get_remove split: option.splits if_splits)
qed (use assms drop_load_part [of c] in
    \<open>auto simp: retired_def load_part_def map_get_remove js_store.fold_del_get split: if_splits\<close>)

interpretation retired_loads: step_system cache_step "retired run"
  by unfold_locales (rule retired_step)

text \<open>The calls that invalidate a key.\<close>

fun drops :: "'v bounded_cache \<Rightarrow> string \<Rightarrow> ('v, 'e) cache_event \<Rightarrow> bool" where
  "drops c k (Invalidate k') = (k' = k)"
| "drops c k (Invalidate_Where p) = (case map_get (bc_entries c) k of None \<Rightarrow> False | Some e \<Rightarrow> p (toCacheEntry k e))"
| "drops c k (Clear auth) = hasPermission (auth_role auth) ''admin:recovery''"
| "drops c k _ = False"

lemma dropped_retires:
  assumes "loads_ok c" "map_get (bc_loads c) run = Some ld" "drops c (ld_key ld) e"
  shows "retired run (cache_step c e)"
proof -
  have run: "run < bc_nextRun c" using assms(1,2) by (auto simp: loads_ok_def)
  have key: "k = ld_key ld" if "map_get (bc_inflight c) k = Some run" for k
    using assms(1,2) that unfolding loads_ok_def by (metis option.inject)
  show ?thesis
  proof (cases e)
    case (Invalidate_Where p)
    with assms(3) obtain en where "map_get (bc_entries c) (ld_key ld) = Some en" "p (toCacheEntry (ld_key ld) en)"
      by (auto split: option.splits)
    then have "ld_key ld \<in> set (map fst (filter (\<lambda>(k, e). p (toCacheEntry k e)) (bc_entries c)))"
      by (force dest: map_get_in_set)
    then show ?thesis
      using run key Invalidate_Where retired_part [OF drop_load_part(2), of run c p]
      by (auto simp: js_store.fold_del_get)
  next
    case (Invalidate k)
    then show ?thesis
      using assms(3) run key retired_part [OF drop_load_part(1), of run c k] by (auto simp: map_get_remove)
  next
    case (Clear auth)
    then show ?thesis using assms(3) run retired_part [OF drop_load_part(3), of run c auth] by auto
  qed (use assms(3) in simp_all)
qed

lemma reached_ok:
  assumes "createBoundedCache options = In_Range c0"
  shows "loads_ok (foldl cache_step c0 es)"
  using cache_runs.run_keeps [OF fresh_cache_ok [OF assms], of es] trace_states [of c0 "[]" es]
  by (cases "foldl trace_step (c0, []) es") auto

text \<open>
  C33. A load that was invalidated while in flight stores nothing: whatever runs between the
  invalidation and its result, newer loads of the key included, the entries stay as they
  are and the caller still gets the value.
\<close>

theorem invalidated_load_discarded:
  assumes "createBoundedCache options = In_Range c0" "c = foldl cache_step c0 es"
    "map_get (bc_loads c) run = Some ld" "drops c (ld_key ld) e" "c' = foldl cache_step (cache_step c e) es'"
  shows "bc_entries (snd (load_settles now c' run (Loaded v))) = bc_entries c' \<and>
    fst (load_settles now c' run (Loaded v)) \<in> {None, Some (Run_Value v)}"
proof -
  have "retired run (cache_step c e)"
    using assms(2-4) reached_ok [OF assms(1)] by (intro dropped_retires) auto
  then have "retired run c'" unfolding assms(5) by (rule retired_loads.run_keeps)
  then show ?thesis
    by (auto simp: retired_def load_settles_def load_store_def split: option.split)
qed

text \<open>An unfinished load stays the registered one until its key is invalidated.\<close>

definition leads :: "string \<Rightarrow> nat \<Rightarrow> 'v bounded_cache \<Rightarrow> bool" where
  "leads k run c =
     (run < bc_nextRun c \<and>
      (\<forall>ld. map_get (bc_loads c) run = Some ld \<longrightarrow> ld_key ld = k \<and> map_get (bc_inflight c) k = Some run))"

fun spares :: "string \<Rightarrow> ('v, 'e) cache_event \<Rightarrow> bool" where
  "spares k (Invalidate k') = (k' \<noteq> k)"
| "spares k (Invalidate_Where p) = (\<forall>e. ce_key e = k \<longrightarrow> \<not> p e)"
| "spares k (Clear auth) = (\<not> hasPermission (auth_role auth) ''admin:recovery'')"
| "spares k _ = True"

lemma leads_part:
  "load_part c' = (f, l, n) \<Longrightarrow>
     leads k run c' \<longleftrightarrow> run < n \<and> (\<forall>ld. map_get l run = Some ld \<longrightarrow> ld_key ld = k \<and> map_get f k = Some run)"
  by (simp add: leads_def load_part_def)

lemma leads_same: "load_part c' = load_part c \<Longrightarrow> leads k run c' = leads k run c"
  by (simp add: leads_def load_part_def)

lemma leads_step:
  assumes "leads k run c" "spares k e"
  shows "leads k run (cache_step c e)"
proof (cases e)
  case (Get now x)
  then show ?thesis using assms by (simp add: leads_same [OF get_load_part])
next
  case (Set now x v w)
  then show ?thesis using assms by (simp add: leads_same [OF set_load_part] del: cache_step.simps)
next
  case (Get_Or_Load now x w)
  show ?thesis
  proof (cases rule: getOrLoad_cases [of now c x w])
    case kept
    then show ?thesis using assms Get_Or_Load by (simp add: leads_same [OF kept(1)])
  next
    case started
    then have "leads k run (snd (getOrLoad now c x w))"
      unfolding leads_part [OF started(3)] using assms(1) by (auto simp: leads_def map_get_set)
    then show ?thesis by (simp add: Get_Or_Load)
  qed
next
  case (Load_Settles now r out)
  then show ?thesis
    using assms settles_load_part [of c now r out]
    by (auto simp: leads_def load_part_def map_get_set split: option.splits if_splits)
next
  case (Load_Finally r)
  then show ?thesis
    using assms finally_load_part [of c r]
    by (auto simp: leads_def load_part_def map_get_remove split: option.splits if_splits)
next
  case (Invalidate_Where p)
  have "k \<notin> set (map fst (filter (\<lambda>(k, e). p (toCacheEntry k e)) (bc_entries c)))"
    using assms(2) by (auto simp: Invalidate_Where toCacheEntry_def)
  then show ?thesis
    unfolding Invalidate_Where leads_part [OF drop_load_part(2)]
    using assms(1) by (simp add: leads_def js_store.fold_del_get)
next
  case (Invalidate x)
  show ?thesis
    unfolding Invalidate leads_part [OF drop_load_part(1)] using assms Invalidate by (simp add: leads_def map_get_remove)
next
  case (Clear auth)
  show ?thesis
    unfolding Clear leads_part [OF drop_load_part(3)] using assms Clear by (simp add: leads_def)
qed

interpretation leading_loads: guarded_system cache_step "spares k" "leads k run"
  by unfold_locales (rule leads_step)

text \<open>
  Concurrent callers share one load: from the call that starts a load to its end, every
  call for the key that the cache cannot answer joins that load, unless the key is
  invalidated in between.
\<close>

lemma load_shared:
  assumes "getOrLoad now c k w = (Started run, c1)" "list_all (spares k) es" "c2 = foldl cache_step c1 es"
    "map_get (bc_loads c2) run \<noteq> None"
  shows "fst (getOrLoad now' c2 k w') \<in> {Joined run} \<union> range Cached"
proof -
  have "leads k run c1"
  proof (cases rule: getOrLoad_cases [of now c k w])
    case kept
    with assms(1) show ?thesis by simp
  next
    case started
    with assms(1) have "load_part c1 = (map_set k run (bc_inflight c),
        map_set run \<lparr>ld_key = k, ld_write = w, ld_settled = False\<rparr> (bc_loads c), Suc run)" by simp
    then show ?thesis by (simp add: leads_part)
  qed
  then have "leads k run c2" unfolding assms(3) using assms(2) by (rule leading_loads.guarded_run)
  with assms(4) have reg: "map_get (bc_inflight c2) k = Some run" by (auto simp: leads_def)
  show ?thesis
  proof (cases rule: getOrLoad_cases [of now' c2 k w'])
    case kept
    then show ?thesis using reg by blast
  qed (use reg in simp)
qed

section \<open>Sample runs\<close>

definition w_write :: cache_write where
  "w_write = \<lparr>wo_ttlMs = None, wo_ledgerSequence = Some 7, wo_sourceEntityId = None\<rparr>"

definition w_options :: cache_options where
  "w_options = \<lparr>co_maxEntries = JInt 2, co_ttlMs = JInt 1000, co_schemaVersion = None, co_name = None\<rparr>"

definition w_cache :: "nat bounded_cache" where
  "w_cache = \<lparr>bc_maxEntries = 2, bc_ttlMs = 1000, bc_schemaVersion = 1, bc_name = ''cache'', bc_entries = [],
     bc_inflight = [], bc_hits = 0, bc_misses = 0, bc_evictions = 0, bc_invalidations = 0, bc_loads = [], bc_nextRun = 0\<rparr>"

lemma w_created: "createBoundedCache w_options = In_Range w_cache"
  by (simp add: createBoundedCache_def w_options_def w_cache_def requirePositiveInteger_def)

text \<open>Two entries, the older of them read again; the next write evicts the other one.\<close>

definition w_cache_run :: "(nat, unit) cache_event list" where
  "w_cache_run = [Set 0 ''a'' 1 w_write, Set 1 ''b'' 2 w_write, Get 2 ''a'']"

definition w_entry :: "int \<Rightarrow> nat \<Rightarrow> nat stored_entry" where
  "w_entry at v = \<lparr>se_value = v, se_cachedAt = at, se_ttlMs = 1000, se_version = 1, se_ledgerSequence = Some 7,
     se_sourceEntityId = None\<rparr>"

definition w_full :: "nat bounded_cache" where
  "w_full = w_cache\<lparr>bc_entries := [(''b'', w_entry 1 2), (''a'', w_entry 0 1)], bc_hits := 1\<rparr>"

lemmas w_eval = w_cache_run_def w_full_def w_cache_def w_entry_def w_write_def cache_set_def write_ttl_def written_entry_def
  evict_oldest_def cache_get_def cache_isExpired_def stored_note_def used_note_def map_get_def map_set_def map_remove_def
  map_keys_def

lemma w_trace: "foldl trace_step (w_cache, []) w_cache_run =
    (w_full, [Stored ''a'' 1 0 1000, Stored ''b'' 2 1 1000, Used ''a''])"
  by (simp add: w_eval)

lemma w_evicts: "\<exists>c'. cache_set 3 w_full ''c'' 3 w_write = In_Range (Ok (), c') \<and>
    map_get (bc_entries c') ''b'' = None \<and> map_get (bc_entries c') ''a'' \<noteq> None"
  by (simp add: w_eval)

theorem cache_lru_witness:
  "used_before (uses ([Stored ''a'' 1 0 1000, Stored ''b'' 2 1 1000, Used ''a''] @ stored_note 3 w_full ''c'' 3 w_write)) ''b'' ''a''"
proof -
  obtain c' where c': "cache_set 3 w_full ''c'' 3 w_write = In_Range (Ok (), c')"
      "map_get (bc_entries c') ''b'' = None" "map_get (bc_entries c') ''a'' \<noteq> None"
    using w_evicts by blast
  have "map_get (bc_entries w_full) ''b'' \<noteq> None" by (simp add: w_full_def map_get_def)
  then show ?thesis using cache_lru [OF w_created w_trace] c' by blast
qed

theorem cache_serves_last_write_witness:
  "fst (cache_get 900 w_full ''a'') = Ok 1 \<and>
   (\<exists>at lifetime. last_write [Stored ''a'' (1 :: nat) 0 1000, Stored ''b'' 2 1 1000, Used ''a''] ''a'' = Some (1, at, lifetime) \<and> 900 - at \<le> lifetime)"
proof -
  have g: "fst (cache_get 900 w_full ''a'') = Ok 1" by (simp add: w_eval)
  with cache_serves_last_write [OF w_created w_trace g] show ?thesis by blast
qed

text \<open>A load of a third key, and the same load after the key was invalidated and loaded again.\<close>

definition w_loading :: "nat bounded_cache" where
  "w_loading = foldl cache_step w_cache [Get_Or_Load 5 ''k'' w_write :: (nat, unit) cache_event]"

definition w_reloading :: "nat bounded_cache" where
  "w_reloading = foldl cache_step (cache_step w_loading (Invalidate ''k'' :: (nat, unit) cache_event))
     [Get_Or_Load 6 ''k'' w_write, Load_Settles 7 1 (Loaded 8 :: (nat, unit) load_outcome)]"

lemma w_load: "map_get (bc_loads w_loading) 0 = Some \<lparr>ld_key = ''k'', ld_write = w_write, ld_settled = False\<rparr>"
  by (simp add: w_loading_def w_eval getOrLoad_def)

theorem invalidated_load_discarded_witness:
  "bc_entries (snd (load_settles 9 w_reloading 0 (Loaded 3 :: (nat, unit) load_outcome))) = bc_entries w_reloading \<and>
   map_get (bc_entries w_reloading) ''k'' = Some (w_entry 7 8)"
proof -
  have "drops w_loading (ld_key \<lparr>ld_key = ''k'', ld_write = w_write, ld_settled = False\<rparr>)
      (Invalidate ''k'' :: (nat, unit) cache_event)" by simp
  from invalidated_load_discarded [OF w_created w_loading_def w_load this w_reloading_def, of 9 3]
  have "bc_entries (snd (load_settles 9 w_reloading 0 (Loaded 3 :: (nat, unit) load_outcome))) = bc_entries w_reloading"
    by blast
  moreover have "map_get (bc_entries w_reloading) ''k'' = Some (w_entry 7 8)"
    by (simp add: w_reloading_def w_loading_def w_eval getOrLoad_def invalidate_def load_settles_def load_store_def)
  ultimately show ?thesis by blast
qed

lemma load_shared_witness: "fst (getOrLoad 6 w_loading ''k'' w_write) \<in> {Joined 0} \<union> range Cached"
proof -
  have start: "getOrLoad 5 w_cache ''k'' w_write = (Started 0, w_loading)"
    by (simp add: w_loading_def w_eval getOrLoad_def)
  have "w_loading = foldl cache_step w_loading ([] :: (nat, unit) cache_event list)" by simp
  from load_shared [OF start _ this] w_load show ?thesis by simp
qed

end
