(* ===== verification/Audit_Context.thy ===== *)
theory Audit_Context
  imports Effects
begin

text \<open>
  The helpers of \<open>core/audit/audit.ts\<close> that the trail and the ledger share: the action
  table, labels, the scrub with word boundaries and the before/after context. A number
  of a context that is not an integer stands for NaN and the infinities; fractions are
  outside the model.
\<close>

definition SENSITIVE_ACTIONS :: "string list" where
  "SENSITIVE_ACTIONS =
     [''record.state_changed'', ''record.transition_denied'', ''export.generated'',
      ''notification.published'', ''notification.cleared'', ''reconciliation.reported'',
      ''reconciliation.repaired'', ''idempotency.claim_released'', ''quota.override_granted'',
      ''quota.override_revoked'', ''quota.override_granted'', ''quota.override_revoked'',
      ''projection.replayed'', ''projection.activated'', ''admin.config_changed'',
      ''impersonation.session_started'', ''impersonation.session_ended'',
      ''impersonation.session_expired'', ''impersonation.action'', ''impersonation.mutation_blocked'',
      ''authorization.granted'', ''authorization.renewed'', ''authorization.revoked'',
      ''authorization.cleaned_up'', ''notification_preferences.updated'',
      ''notification_preferences.reset'', ''notification.suppressed_by_preference'',
      ''notification.mandatory_override'', ''freeze.bypassed'', ''freeze.bypass_denied'',
      ''service_mode.changed'', ''service_mode.expired'']"

definition AUDIT_MAX_CONTEXT_KEYS :: nat where
  "AUDIT_MAX_CONTEXT_KEYS = 12"

definition AUDIT_MAX_VALUE_LENGTH :: nat where
  "AUDIT_MAX_VALUE_LENGTH = 160"

definition isLabel :: "string \<Rightarrow> bool" where
  "isLabel value = (trim value \<noteq> [] \<and> length value \<le> 128)"

text \<open>\<open>/^[a-z0-9_.:-]{1,64}$/\<close>\<close>

definition audit_reason_pattern :: "string \<Rightarrow> bool" where
  "audit_reason_pattern s =
     (s \<noteq> [] \<and> length s \<le> 64 \<and> list_all (\<lambda>c. is_lower c \<or> is_digit c \<or> c \<in> set ''_.:-'') s)"

section \<open>Secrets between word boundaries\<close>

definition is_word :: "char \<Rightarrow> bool" where
  "is_word c = (is_upper c \<or> is_lower c \<or> is_digit c \<or> c = CHR ''_'')"

definition next_word_char :: "nat \<Rightarrow> string \<Rightarrow> bool" where
  "next_word_char n s = (n < length s \<and> is_word (s ! n))"

text \<open>\<open>[SM][A-Z2-7]{55}\b\<close> at the start of a text: the length of the match, 0 for none.\<close>

definition bounded_seed :: "string \<Rightarrow> nat" where
  "bounded_seed s = (if seed_match s = 56 \<and> \<not> next_word_char 56 s then 56 else 0)"

text \<open>
  \<open>Bearer\s+[A-Za-z0-9._~+/-]+\b\<close> with the \<open>i\<close> flag: the longest token end that is a word
  boundary, at least one character after the white space.
\<close>

fun last_boundary :: "nat \<Rightarrow> nat \<Rightarrow> string \<Rightarrow> nat" where
  "last_boundary low 0 s = 0"
| "last_boundary low (Suc n) s =
     (if Suc n \<le> low then 0
      else if is_word (s ! n) \<noteq> next_word_char (Suc n) s then Suc n
      else last_boundary low n s)"

definition bounded_bearer :: "string \<Rightarrow> nat" where
  "bounded_bearer s =
     (if bearer_match s = 0 then 0
      else last_boundary (6 + length (takeWhile is_space (drop 6 s))) (bearer_match s) s)"

text \<open>Replacement of every match that starts after a character that is no word character.\<close>

function replace_words :: "(string \<Rightarrow> nat) \<Rightarrow> string \<Rightarrow> bool \<Rightarrow> string \<Rightarrow> string" where
  "replace_words m rep after_word [] = []"
| "replace_words m rep after_word (c # cs) =
     (let n = m (c # cs) in
      if after_word \<or> n = 0 then c # replace_words m rep (is_word c) cs
      else rep @ replace_words m rep (is_word (last (take n (c # cs)))) (drop (n - 1) cs))"
  by pat_completeness auto
termination
  by (relation "measure (\<lambda>(m, rep, b, s). length s)") auto

definition scrubSecrets :: "string \<Rightarrow> string" where
  "scrubSecrets value =
     replace_words bounded_bearer redacted False (replace_words bounded_seed redacted False value)"

section \<open>Contexts\<close>

definition audit_sensitive_words :: "string list" where
  "audit_sensitive_words =
     [''secret'', ''seed'', ''key'', ''token'', ''password'', ''passphrase'', ''auth'', ''credential'',
      ''bearer'', ''cookie'']"

definition audit_sensitive_key :: "string \<Rightarrow> bool" where
  "audit_sensitive_key key = list_ex (str_includes (map to_lower key)) audit_sensitive_words"

text \<open>The value an entry of a context is kept with, \<open>None\<close> when it is dropped.\<close>

definition context_value :: "string \<Rightarrow> scalar \<Rightarrow> json option" where
  "context_value key entry =
     (if audit_sensitive_key key then Some (JStr ''[REDACTED]'')
      else case entry of
        SUndefined \<Rightarrow> Some JNull
      | SNull \<Rightarrow> Some JNull
      | Opaque \<Rightarrow> None
      | SStr s \<Rightarrow> Some (JStr (take AUDIT_MAX_VALUE_LENGTH (scrubSecrets s)))
      | SNum (JInt n) \<Rightarrow> Some (JNum n)
      | SNum JNonInt \<Rightarrow> None
      | SBool b \<Rightarrow> Some (JBool b))"

fun context_loop :: "nat \<Rightarrow> context_map \<Rightarrow> (string \<times> json) list" where
  "context_loop keys [] = []"
| "context_loop keys ((key, entry) # es) =
     (if keys \<ge> AUDIT_MAX_CONTEXT_KEYS then []
      else case context_value key entry of
        Some v \<Rightarrow> (key, v) # context_loop (keys + 1) es
      | None \<Rightarrow> context_loop keys es)"

definition auditContext :: "context_map option \<Rightarrow> (string \<times> json) list option" where
  "auditContext value =
     (case value of
        None \<Rightarrow> None
      | Some es \<Rightarrow> let out = context_loop 0 es in if out \<noteq> [] then Some out else None)"

section \<open>What a context can hold\<close>

definition context_leaf :: "json \<Rightarrow> bool" where
  "context_leaf v =
     (case v of JStr s \<Rightarrow> length s \<le> AUDIT_MAX_VALUE_LENGTH | JNum _ \<Rightarrow> True | JBool _ \<Rightarrow> True
      | JNull \<Rightarrow> True | _ \<Rightarrow> False)"

lemma context_value_leaf: "context_value key entry = Some v \<Longrightarrow> context_leaf v"
  by (auto simp: context_value_def context_leaf_def AUDIT_MAX_VALUE_LENGTH_def
      split: if_splits scalar.splits js_number.splits)

lemma context_loop_bounds:
  "list_all (\<lambda>(k, v). context_leaf v \<and> (audit_sensitive_key k \<longrightarrow> v = JStr ''[REDACTED]'')) (context_loop n es) \<and>
   length (context_loop n es) \<le> AUDIT_MAX_CONTEXT_KEYS - n \<and>
   set (map fst (context_loop n es)) \<subseteq> set (map fst es) \<and>
   (distinct (map fst es) \<longrightarrow> distinct (map fst (context_loop n es)))"
proof (induction n es rule: context_loop.induct)
  case (2 keys key entry es)
  show ?case
  proof (cases "keys \<ge> AUDIT_MAX_CONTEXT_KEYS")
    case False
    show ?thesis
    proof (cases "context_value key entry")
      case None
      then show ?thesis using False 2 by auto
    next
      case (Some v)
      have "audit_sensitive_key key \<longrightarrow> v = JStr ''[REDACTED]''"
        using Some by (auto simp: context_value_def)
      then show ?thesis using False Some 2 context_value_leaf [OF Some] by auto
    qed
  qed simp
qed simp

text \<open>
  C17. A context stays small and holds no payload: whatever map a caller passes, the
  recorded context has between one and twelve entries, every value is null, a boolean, a
  number or a text of at most 160 characters, an entry whose key names a secret has the
  marker as its value, and no key is added.
\<close>

theorem auditContext_bounded:
  "case auditContext value of
     None \<Rightarrow> True
   | Some out \<Rightarrow>
       0 < length out \<and> length out \<le> 12 \<and>
       list_all (\<lambda>(k, v). context_leaf v \<and> (audit_sensitive_key k \<longrightarrow> v = JStr ''[REDACTED]'')) out \<and>
       (\<exists>es. value = Some es \<and> set (map fst out) \<subseteq> set (map fst es))"
  using context_loop_bounds [of 0]
  by (auto simp: auditContext_def AUDIT_MAX_CONTEXT_KEYS_def Let_def split: option.split)

theorem auditContext_bounded_witness:
  "case auditContext (Some [(''api_token'', SStr ''abc''), (''n'', SNum (JInt 3)), (''o'', Opaque)]) of
     None \<Rightarrow> False | Some out \<Rightarrow> length out \<le> 12 \<and> out = [(''api_token'', JStr ''[REDACTED]''), (''n'', JNum 3)]"
proof -
  let ?c = "Some [(''api_token'', SStr ''abc''), (''n'', SNum (JInt 3)), (''o'', Opaque)]"
  have "auditContext ?c = Some [(''api_token'', JStr ''[REDACTED]''), (''n'', JNum 3)]" by code_simp
  with auditContext_bounded [of ?c] show ?thesis by simp
qed

end
