(* ===== verification/Ledger.thy ===== *)
theory Ledger
  imports Audit_Context Sha256 Hash_Chain Iso_Time
begin

text \<open>
  \<open>core/ledger/ledger.ts\<close>: the hash-chained ledger. Entries are JSON values because the
  chain is read back from storage and checked; the stored blob is a cell that either
  parses to a ledger or does not. \<open>dp\<close> stands for \<open>!Number.isNaN(Date.parse(s))\<close>, which
  ECMAScript fixes on ISO texts only; instants of the clock are valid dates.
\<close>

section \<open>Types and constants\<close>

record checkpoint =
  cp_seq :: int
  cp_hash :: string
  cp_at :: "string option"

definition LEDGER_GENESIS_HASH :: string where
  "LEDGER_GENESIS_HASH = replicate 64 CHR ''0''"

definition GENESIS :: checkpoint where
  "GENESIS = \<lparr>cp_seq = 0, cp_hash = LEDGER_GENESIS_HASH, cp_at = None\<rparr>"

definition LEDGER_QUARANTINE_PREFIX :: string where
  "LEDGER_QUARANTINE_PREFIX = ''utix:ledger:v1:quarantine:''"

definition FINANCIAL_ACTIONS :: "string list" where
  "FINANCIAL_ACTIONS = [''faucet.funded'']"

definition LEDGER_SYSTEM_ACTIONS :: "string list" where
  "LEDGER_SYSTEM_ACTIONS = [''ledger.resealed'']"

datatype ledger_error =
    Ledger_Denied | Invalid_Ledger_Field | Append_Out_Of_Order | Ledger_Broken | Ledger_Intact

datatype integrity_code =
    Corrupt | Malformed_Entry | Sequence_Gap | Link_Broken | Hash_Mismatch | Out_Of_Order | Head_Mismatch

datatype ledger_verification =
    Verified nat checkpoint checkpoint
  | Broken integrity_code "int option" nat checkpoint

record ledger_input =
  li_kind :: string
  li_action :: string
  li_actorId :: string
  li_subject_kind :: string
  li_subject_id :: string
  li_outcome :: "string option"
  li_data :: "context_map option"
  li_ref :: "string option"
  li_refDigest :: "string option"
  li_at :: "string option"

text \<open>The stored blob: a ledger, or bytes that are none.\<close>

datatype ledger_cell = Chain_Stored checkpoint "json list" | Chain_Corrupt

record ledger =
  lg_chain :: "ledger_cell option"
  lg_quarantine :: "(string, ledger_cell) js_map"

section \<open>Entries\<close>

definition field :: "json \<Rightarrow> string \<Rightarrow> json" where
  "field v k = (case v of JObj es \<Rightarrow> (case map_of es k of Some x \<Rightarrow> x | None \<Rightarrow> JUndef) | _ \<Rightarrow> JUndef)"

definition str_where :: "(string \<Rightarrow> bool) \<Rightarrow> json \<Rightarrow> bool" where
  "str_where P v = (case v of JStr s \<Rightarrow> P s | _ \<Rightarrow> False)"

definition str_of :: "json \<Rightarrow> string" where
  "str_of v = (case v of JStr s \<Rightarrow> s | _ \<Rightarrow> [])"

text \<open>A sequence number that is no number reads as one no checkpoint may have.\<close>

definition num_of :: "json \<Rightarrow> int" where
  "num_of v = (case v of JNum n \<Rightarrow> n | _ \<Rightarrow> - 1)"

definition is_num :: "json \<Rightarrow> bool" where
  "is_num v = (case v of JNum _ \<Rightarrow> True | _ \<Rightarrow> False)"

text \<open>\<open>hashLedgerEntry\<close>; \<open>None\<close> is the exception on a BigInt, which no parsed value holds.\<close>

definition entry_body :: "json \<Rightarrow> json" where
  "entry_body e = (case e of JObj es \<Rightarrow> JObj (filter (\<lambda>(k, v). k \<noteq> ''hash'') es) | _ \<Rightarrow> JObj [])"

definition hashLedgerEntry :: "json \<Rightarrow> string option" where
  "hashLedgerEntry e = map_option sha256Hex (canonicalJson (entry_body e))"

definition allActions :: "string list" where
  "allActions = SENSITIVE_ACTIONS @ FINANCIAL_ACTIONS @ LEDGER_SYSTEM_ACTIONS"

definition kindOf :: "string \<Rightarrow> string" where
  "kindOf action = (if action \<in> set FINANCIAL_ACTIONS then ''financial'' else ''privileged'')"

definition isEntryShape :: "(string \<Rightarrow> bool) \<Rightarrow> json \<Rightarrow> bool" where
  "isEntryShape dp raw =
     (field raw ''v'' = JNum 1 \<and>
      is_num (field raw ''seq'') \<and>
      str_where dp (field raw ''at'') \<and>
      str_where (\<lambda>k. k = ''privileged'' \<or> k = ''financial'') (field raw ''kind'') \<and>
      str_where (\<lambda>a. a \<in> set allActions \<and> str_of (field raw ''kind'') = kindOf a) (field raw ''action'') \<and>
      str_where (\<lambda>_. True) (field raw ''actorId'') \<and>
      str_where isLabel (field (field raw ''subject'') ''kind'') \<and>
      str_where isLabel (field (field raw ''subject'') ''id'') \<and>
      str_where (\<lambda>s. s = ''allowed'' \<or> s = ''denied'') (field raw ''outcome'') \<and>
      str_where hash_pattern (field raw ''prevHash'') \<and>
      str_where hash_pattern (field raw ''hash''))"

abbreviation entry_seq :: "json \<Rightarrow> int" where "entry_seq e \<equiv> num_of (field e ''seq'')"
abbreviation entry_at :: "json \<Rightarrow> string" where "entry_at e \<equiv> str_of (field e ''at'')"
abbreviation entry_prevHash :: "json \<Rightarrow> string" where "entry_prevHash e \<equiv> str_of (field e ''prevHash'')"
abbreviation entry_hash :: "json \<Rightarrow> string" where "entry_hash e \<equiv> str_of (field e ''hash'')"

definition checkpoint_of :: "json \<Rightarrow> checkpoint" where
  "checkpoint_of e = \<lparr>cp_seq = entry_seq e, cp_hash = entry_hash e, cp_at = Some (entry_at e)\<rparr>"

section \<open>Verification\<close>

text \<open>\<open>previous.at && at < previous.at\<close>\<close>

definition earlier :: "string \<Rightarrow> checkpoint \<Rightarrow> bool" where
  "earlier at previous = (case cp_at previous of Some a \<Rightarrow> a \<noteq> [] \<and> at < a | None \<Rightarrow> False)"

definition entry_fault ::
  "(string \<Rightarrow> bool) \<Rightarrow> checkpoint \<Rightarrow> json \<Rightarrow> (integrity_code \<times> int) option" where
  "entry_fault dp previous raw =
     (let expectedSeq = cp_seq previous + 1 in
      if \<not> isEntryShape dp raw then Some (Malformed_Entry, expectedSeq)
      else if entry_seq raw \<noteq> expectedSeq then Some (Sequence_Gap, expectedSeq)
      else if entry_prevHash raw \<noteq> cp_hash previous then Some (Link_Broken, entry_seq raw)
      else if hashLedgerEntry raw \<noteq> Some (entry_hash raw) then Some (Hash_Mismatch, entry_seq raw)
      else if earlier (entry_at raw) previous then Some (Out_Of_Order, entry_seq raw)
      else None)"

datatype loop_result =
    Loop_End checkpoint nat
  | Loop_Fail integrity_code int nat checkpoint

fun verify_loop :: "(string \<Rightarrow> bool) \<Rightarrow> checkpoint \<Rightarrow> nat \<Rightarrow> json list \<Rightarrow> loop_result" where
  "verify_loop dp previous verified [] = Loop_End previous verified"
| "verify_loop dp previous verified (raw # rest) =
     (case entry_fault dp previous raw of
        Some (code, seq) \<Rightarrow> Loop_Fail code seq verified previous
      | None \<Rightarrow> verify_loop dp (checkpoint_of raw) (verified + 1) rest)"

definition same_point :: "checkpoint \<Rightarrow> checkpoint \<Rightarrow> bool" where
  "same_point a b = (cp_seq a = cp_seq b \<and> cp_hash a = cp_hash b)"

definition verifyLedgerChain ::
  "(string \<Rightarrow> bool) \<Rightarrow> json list \<Rightarrow> checkpoint \<Rightarrow> checkpoint option \<Rightarrow> ledger_verification" where
  "verifyLedgerChain dp entries anchor expectedHead =
     (case verify_loop dp anchor 0 entries of
        Loop_Fail code seq verified lastGood \<Rightarrow> Broken code (Some seq) verified lastGood
      | Loop_End head verified \<Rightarrow>
          (case expectedHead of
             None \<Rightarrow> Verified verified anchor head
           | Some expected \<Rightarrow>
               if \<not> same_point expected head \<and>
                  \<not> list_ex (\<lambda>e. entry_seq e = cp_seq expected \<and> entry_hash e = cp_hash expected) entries \<and>
                  \<not> same_point expected anchor
               then Broken Head_Mismatch (Some (cp_seq expected)) verified head
               else Verified verified anchor head))"

section \<open>The ledger\<close>

definition isCheckpoint :: "checkpoint \<Rightarrow> bool" where
  "isCheckpoint c = (cp_seq c \<ge> 0 \<and> hash_pattern (cp_hash c))"

definition ledger_read :: "ledger \<Rightarrow> (checkpoint \<times> json list) option" where
  "ledger_read l =
     (case lg_chain l of
        None \<Rightarrow> Some (GENESIS, [])
      | Some (Chain_Stored anchor entries) \<Rightarrow> if isCheckpoint anchor then Some (anchor, entries) else None
      | Some Chain_Corrupt \<Rightarrow> None)"

definition ledger_write :: "checkpoint \<Rightarrow> json list \<Rightarrow> ledger \<Rightarrow> ledger" where
  "ledger_write anchor entries l = l\<lparr>lg_chain := Some (Chain_Stored anchor entries)\<rparr>"

definition headOf :: "checkpoint \<Rightarrow> json list \<Rightarrow> checkpoint" where
  "headOf anchor entries = (if entries = [] then anchor else checkpoint_of (last entries))"

definition opt_str :: "string option \<Rightarrow> json" where
  "opt_str v = (case v of Some s \<Rightarrow> JStr s | None \<Rightarrow> JUndef)"

definition build_body :: "checkpoint \<Rightarrow> ledger_input \<Rightarrow> string \<Rightarrow> json" where
  "build_body previous input at =
     JObj [(''v'', JNum 1), (''seq'', JNum (cp_seq previous + 1)), (''at'', JStr at),
       (''kind'', JStr (li_kind input)), (''action'', JStr (li_action input)),
       (''actorId'', JStr (li_actorId input)),
       (''subject'', JObj [(''kind'', JStr (li_subject_kind input)), (''id'', JStr (li_subject_id input))]),
       (''outcome'', JStr (case li_outcome input of Some out \<Rightarrow> out | None \<Rightarrow> ''allowed'')),
       (''data'', case auditContext (li_data input) of Some d \<Rightarrow> JObj d | None \<Rightarrow> JUndef),
       (''ref'', opt_str (li_ref input)), (''refDigest'', opt_str (li_refDigest input)),
       (''prevHash'', JStr (cp_hash previous))]"

text \<open>\<open>{ ...stored, hash: hashLedgerEntry(stored) }\<close>; the stored body holds no BigInt.\<close>

definition sealed :: "json \<Rightarrow> json" where
  "sealed stored =
     (case stored of
        JObj es \<Rightarrow> JObj (es @ [(''hash'', JStr (case hashLedgerEntry stored of Some h \<Rightarrow> h | None \<Rightarrow> []))])
      | v \<Rightarrow> v)"

definition build :: "checkpoint \<Rightarrow> ledger_input \<Rightarrow> string \<Rightarrow> json" where
  "build previous input at = sealed (json_clone (redact (build_body previous input at)))"

definition append_valid :: "(string \<Rightarrow> bool) \<Rightarrow> ledger_input \<Rightarrow> bool" where
  "append_valid dp input =
     (li_action input \<in> set allActions \<and> li_kind input = kindOf (li_action input) \<and>
      isLabel (li_actorId input) \<and> isLabel (li_subject_kind input) \<and> isLabel (li_subject_id input) \<and>
      (case li_refDigest input of Some d \<Rightarrow> hash_pattern d | None \<Rightarrow> True) \<and>
      (case li_at input of Some a \<Rightarrow> dp a | None \<Rightarrow> True))"

definition ledger_append ::
  "(string \<Rightarrow> bool) \<Rightarrow> ledger \<Rightarrow> int \<Rightarrow> ledger_input \<Rightarrow> (json, ledger_error) result \<times> ledger" where
  "ledger_append dp l now input =
     (if \<not> append_valid dp input then (Err Invalid_Ledger_Field, l)
      else case ledger_read l of
        None \<Rightarrow> (Err Ledger_Broken, l)
      | Some (anchor, entries) \<Rightarrow>
          if entries \<noteq> [] \<and> (\<not> isEntryShape dp (last entries) \<or>
               hashLedgerEntry (last entries) \<noteq> Some (entry_hash (last entries)))
          then (Err Ledger_Broken, l)
          else
            let previous = headOf anchor entries;
                at0 = (case li_at input of Some a \<Rightarrow> a | None \<Rightarrow> toISOString now)
            in if earlier at0 previous \<and> li_at input \<noteq> None then (Err Append_Out_Of_Order, l)
               else
                 let at = (if earlier at0 previous then (case cp_at previous of Some a \<Rightarrow> a | None \<Rightarrow> at0) else at0);
                     entry = build previous input at
                 in (Ok entry, ledger_write anchor (entries @ [entry]) l))"

definition ledger_verify :: "(string \<Rightarrow> bool) \<Rightarrow> ledger \<Rightarrow> checkpoint option \<Rightarrow> ledger_verification" where
  "ledger_verify dp l expectedHead =
     (case ledger_read l of
        None \<Rightarrow> Broken Corrupt None 0 GENESIS
      | Some (anchor, entries) \<Rightarrow> verifyLedgerChain dp entries anchor expectedHead)"

definition ledger_head :: "ledger \<Rightarrow> checkpoint" where
  "ledger_head l = (case ledger_read l of Some (anchor, entries) \<Rightarrow> headOf anchor entries | None \<Rightarrow> GENESIS)"

definition ledger_entries :: "ledger \<Rightarrow> json list" where
  "ledger_entries l = (case ledger_read l of Some (anchor, entries) \<Rightarrow> entries | None \<Rightarrow> [])"

definition ledger_prune :: "nat \<Rightarrow> ledger \<Rightarrow> nat \<times> ledger" where
  "ledger_prune limit l =
     (case ledger_read l of
        None \<Rightarrow> (0, l)
      | Some (anchor, entries) \<Rightarrow>
          if length entries \<le> limit then (0, l)
          else
            let dropped = length entries - limit in
            (dropped, ledger_write (checkpoint_of (entries ! (dropped - 1))) (drop dropped entries) l))"

definition ledger_reset :: "ledger \<Rightarrow> ledger" where
  "ledger_reset l = l\<lparr>lg_chain := None\<rparr>"

section \<open>Export\<close>

record export_header =
  eh_exportedAt :: string
  eh_anchor :: checkpoint
  eh_head :: checkpoint
  eh_count :: nat

datatype export_format = Format_Ndjson | Format_Json

text \<open>
  The exported text at the level of the documents in it: a header and entries, in one
  document or one per line, or a text that does not parse to that.
\<close>

datatype export_text = Exported export_format export_header "json list" | Not_An_Export

definition export_doc :: "int \<Rightarrow> export_format \<Rightarrow> checkpoint \<Rightarrow> json list \<Rightarrow> export_text" where
  "export_doc now format anchor entries =
     Exported format
       \<lparr>eh_exportedAt = toISOString now, eh_anchor = anchor, eh_head = headOf anchor entries,
        eh_count = length entries\<rparr> entries"

text \<open>
  \<open>export\<close>; the exception is the read of \<open>before.seq\<close> when the entry found is the first
  one, which takes a chain that does not start after its anchor.
\<close>

definition ledger_export ::
  "ledger \<Rightarrow> int \<Rightarrow> audit_actor \<Rightarrow> export_format \<Rightarrow> js_number option \<Rightarrow>
     (export_text, ledger_error) result js_call" where
  "ledger_export l now actor format fromSeq =
     (if actor_kind actor \<noteq> Maintainer \<or> actor_id actor = None \<or> actor_id actor = Some []
      then Returns (Err Ledger_Denied)
      else case ledger_read l of
        None \<Rightarrow> Returns (Err Ledger_Broken)
      | Some (anchor, entries) \<Rightarrow>
          (case fromSeq of
             None \<Rightarrow> Returns (Ok (export_doc now format anchor entries))
           | Some JNonInt \<Rightarrow> Returns (Err Invalid_Ledger_Field)
           | Some (JInt n) \<Rightarrow>
               if n < 1 then Returns (Err Invalid_Ledger_Field)
               else if n > cp_seq anchor + 1 then
                 let index = length (takeWhile (\<lambda>e. entry_seq e \<noteq> n) entries) in
                 if index \<ge> length entries then Returns (Err Invalid_Ledger_Field)
                 else if index = 0 then Throws_TypeError
                 else Returns (Ok (export_doc now format (checkpoint_of (entries ! (index - 1))) (drop index entries)))
               else Returns (Ok (export_doc now format anchor entries))))"

definition verifyLedgerExport ::
  "(string \<Rightarrow> bool) \<Rightarrow> export_text \<Rightarrow> checkpoint option \<Rightarrow> ledger_verification" where
  "verifyLedgerExport dp doc expectedHead =
     (case doc of
        Not_An_Export \<Rightarrow> Broken Corrupt None 0 GENESIS
      | Exported format header entries \<Rightarrow>
          if \<not> isCheckpoint (eh_anchor header) \<or> \<not> isCheckpoint (eh_head header)
          then Broken Corrupt None 0 GENESIS
          else
            (case verifyLedgerChain dp entries (eh_anchor header) expectedHead of
               Broken code seq verified lastGood \<Rightarrow> Broken code seq verified lastGood
             | Verified n anchor head \<Rightarrow>
                 if \<not> same_point head (eh_head header) \<or> n \<noteq> eh_count header
                 then Broken Head_Mismatch (Some (cp_seq (eh_head header))) n head
                 else Verified n anchor head))"

section \<open>Recovery\<close>

definition integrity_text :: "integrity_code \<Rightarrow> string" where
  "integrity_text code =
     (case code of
        Corrupt \<Rightarrow> ''ledger_corrupt'' | Malformed_Entry \<Rightarrow> ''ledger_malformed_entry''
      | Sequence_Gap \<Rightarrow> ''ledger_sequence_gap'' | Link_Broken \<Rightarrow> ''ledger_link_broken''
      | Hash_Mismatch \<Rightarrow> ''ledger_hash_mismatch'' | Out_Of_Order \<Rightarrow> ''ledger_out_of_order''
      | Head_Mismatch \<Rightarrow> ''ledger_head_mismatch'')"

record reseal_report =
  rr_code :: integrity_code
  rr_quarantineKey :: string
  rr_resumedFrom :: checkpoint
  rr_droppedEntries :: nat
  rr_entry :: json

definition reseal_input ::
  "string \<Rightarrow> string \<Rightarrow> integrity_code \<Rightarrow> int option \<Rightarrow> nat \<Rightarrow> string \<Rightarrow> ledger_input" where
  "reseal_input actor quarantineKey code seq dropped reason =
     \<lparr>li_kind = ''privileged'', li_action = ''ledger.resealed'', li_actorId = actor,
      li_subject_kind = ''ledger'', li_subject_id = quarantineKey, li_outcome = None,
      li_data = Some [(''code'', SStr (integrity_text code)),
        (''brokenAtSeq'', case seq of Some n \<Rightarrow> SNum (JInt n) | None \<Rightarrow> SNull),
        (''droppedEntries'', SNum (JInt (int dropped))), (''reason'', SStr reason)],
      li_ref = None, li_refDigest = None, li_at = None\<rparr>"

definition ledger_reseal ::
  "(string \<Rightarrow> bool) \<Rightarrow> ledger \<Rightarrow> int \<Rightarrow> audit_actor \<Rightarrow> string \<Rightarrow> (reseal_report, ledger_error) result \<times> ledger" where
  "ledger_reseal dp l now actor reason =
     (case actor_id actor of
        None \<Rightarrow> (Err Ledger_Denied, l)
      | Some who \<Rightarrow>
          if actor_kind actor \<noteq> Maintainer \<or> who = [] then (Err Ledger_Denied, l)
          else if \<not> audit_reason_pattern reason then (Err Invalid_Ledger_Field, l)
          else (case ledger_verify dp l None of
            Verified _ _ _ \<Rightarrow> (Err Ledger_Intact, l)
          | Broken code seq verified resumedFrom \<Rightarrow>
              let at = toISOString now;
                  key = LEDGER_QUARANTINE_PREFIX @ at;
                  raw = (case lg_chain l of Some cell \<Rightarrow> cell | None \<Rightarrow> Chain_Corrupt);
                  l1 = l\<lparr>lg_quarantine := map_set key raw (lg_quarantine l)\<rparr>;
                  (anchor, kept, total) =
                    (case ledger_read l of
                       Some (a, es) \<Rightarrow> (a, take verified es, length es)
                     | None \<Rightarrow> (GENESIS, [], 0));
                  entry = build resumedFrom (reseal_input who key code seq (total - length kept) reason)
                    (case cp_at resumedFrom of Some a \<Rightarrow> if a \<noteq> [] \<and> at < a then a else at | None \<Rightarrow> at)
              in (Ok \<lparr>rr_code = code, rr_quarantineKey = key, rr_resumedFrom = resumedFrom,
                    rr_droppedEntries = total - length kept, rr_entry = entry\<rparr>,
                  ledger_write anchor (kept @ [entry]) l1)))"

section \<open>Financial events\<close>

text \<open>\<open>recordFinancialEvent\<close>: the kind is fixed, a refusal is no entry.\<close>

definition recordFinancialEvent ::
  "(string \<Rightarrow> bool) \<Rightarrow> ledger \<Rightarrow> int \<Rightarrow> ledger_input \<Rightarrow> json option \<times> ledger" where
  "recordFinancialEvent dp l now input =
     (case ledger_append dp l now (input\<lparr>li_kind := ''financial''\<rparr>) of
        (Ok entry, l') \<Rightarrow> (Some entry, l')
      | (Err _, l') \<Rightarrow> (None, l'))"

end
