(* ===== verification/Audit_Trail.thy ===== *)
theory Audit_Trail
  imports Ledger
begin

text \<open>
  \<open>core/audit/audit.ts\<close>: the audit trail, its authorized reads, its exports and its
  commitment to the ledger (\<open>ledgerInputForAudit\<close> and \<open>verifyAuditTrail\<close> of
  \<open>core/ledger/ledger.ts\<close>). Events are JSON values because they are read back from
  storage and filtered by shape. Identifiers come from \<open>gen\<close> and a counter.
\<close>

section \<open>Events\<close>

definition AUDIT_DEFAULT_LIMIT :: int where
  "AUDIT_DEFAULT_LIMIT = 500"

text \<open>The retention limit of \<open>createAuditTrail\<close>, from its option.\<close>

definition trail_limit :: "int option \<Rightarrow> nat" where
  "trail_limit opt = nat (max 1 (case opt of Some n \<Rightarrow> n | None \<Rightarrow> AUDIT_DEFAULT_LIMIT))"

definition kind_text :: "actor_kind \<Rightarrow> string" where
  "kind_text k = (case k of User \<Rightarrow> ''user'' | Maintainer \<Rightarrow> ''maintainer'' | System \<Rightarrow> ''system'')"

definition scope_text :: "audit_scope \<Rightarrow> string" where
  "scope_text s = (case s of Own_Scope \<Rightarrow> ''own'' | Maintainer_Scope \<Rightarrow> ''maintainer'')"

definition outcome_text :: "audit_outcome \<Rightarrow> string" where
  "outcome_text out = (case out of Allowed \<Rightarrow> ''allowed'' | Denied \<Rightarrow> ''denied'')"

definition context_json :: "context_map option \<Rightarrow> json" where
  "context_json c = (case auditContext c of Some d \<Rightarrow> JObj d | None \<Rightarrow> JUndef)"

definition isAction :: "string \<Rightarrow> bool" where
  "isAction a = (a \<in> set SENSITIVE_ACTIONS)"

definition isEvent :: "json \<Rightarrow> bool" where
  "isEvent item =
     (str_where (\<lambda>_. True) (field item ''id'') \<and> str_where isAction (field item ''action'') \<and>
      str_where (\<lambda>_. True) (field item ''actorId'') \<and>
      str_where (\<lambda>s. s = ''own'' \<or> s = ''maintainer'') (field item ''scope'') \<and>
      str_where (\<lambda>_. True) (field (field item ''target'') ''kind'') \<and>
      str_where (\<lambda>_. True) (field (field item ''target'') ''id'') \<and>
      str_where (\<lambda>s. s = ''allowed'' \<or> s = ''denied'') (field item ''outcome'') \<and>
      str_where (\<lambda>_. True) (field item ''at'') \<and> str_where (\<lambda>_. True) (field item ''correlationId''))"

definition actorId_of :: "audit_actor \<Rightarrow> string" where
  "actorId_of actor = (case actor_id actor of Some i \<Rightarrow> i | None \<Rightarrow> kind_text (actor_kind actor))"

definition audit_event :: "string \<Rightarrow> string \<Rightarrow> int \<Rightarrow> audit_input \<Rightarrow> json" where
  "audit_event eid cid now input =
     JObj [(''id'', JStr eid), (''action'', JStr (in_action input)),
       (''actor'', JObj [(''kind'', JStr (kind_text (actor_kind (in_actor input)))),
          (''id'', opt_str (actor_id (in_actor input)))]),
       (''actorId'', JStr (actorId_of (in_actor input))),
       (''scope'', JStr (case in_scope input of Some s \<Rightarrow> scope_text s
          | None \<Rightarrow> if actor_kind (in_actor input) = Maintainer then ''maintainer'' else ''own'')),
       (''target'', JObj [(''kind'', JStr (in_target_kind input)), (''id'', JStr (scrubSecrets (in_target_id input)))]),
       (''reason'', opt_str (in_reason input)),
       (''outcome'', JStr (case in_outcome input of Some out \<Rightarrow> outcome_text out | None \<Rightarrow> ''allowed'')),
       (''before'', context_json (in_before input)), (''after'', context_json (in_after input)),
       (''at'', JStr (case in_at input of Some a \<Rightarrow> a | None \<Rightarrow> toISOString now)),
       (''correlationId'', JStr (case in_correlationId input of Some c \<Rightarrow> c | None \<Rightarrow> cid)),
       (''errorCode'', opt_str (in_errorCode input))]"

section \<open>The trail\<close>

datatype trail_cell = Events_Stored "json list" | Events_Corrupt

record audit_trail =
  tr_cell :: "trail_cell option"
  tr_ledger :: "ledger option"
  tr_nextId :: nat

datatype audit_error = Audit_Denied | Invalid_Audit_Field

definition readAll :: "audit_trail \<Rightarrow> json list" where
  "readAll t =
     (case tr_cell t of Some (Events_Stored es) \<Rightarrow> filter isEvent es | _ \<Rightarrow> [])"

definition stored_event :: "json \<Rightarrow> json" where
  "stored_event e = json_clone (redact_at False 1 e)"

definition writeAll :: "json list \<Rightarrow> audit_trail \<Rightarrow> audit_trail" where
  "writeAll events t = t\<lparr>tr_cell := Some (Events_Stored (map stored_event events))\<rparr>"

text \<open>\<open>auditEventDigest\<close>; stored events hold no BigInt.\<close>

definition auditEventDigest :: "json \<Rightarrow> string" where
  "auditEventDigest event =
     (case canonicalJson (redact event) of Some text \<Rightarrow> sha256Hex text | None \<Rightarrow> [])"

definition ledgerInputForAudit :: "json \<Rightarrow> ledger_input" where
  "ledgerInputForAudit event =
     \<lparr>li_kind = ''privileged'', li_action = str_of (field event ''action''),
      li_actorId = str_of (field event ''actorId''),
      li_subject_kind = str_of (field (field event ''target'') ''kind''),
      li_subject_id = str_of (field (field event ''target'') ''id''),
      li_outcome = Some (str_of (field event ''outcome'')),
      li_data = Some [(''eventAt'', SStr (str_of (field event ''at''))),
        (''reason'', case field event ''reason'' of JStr r \<Rightarrow> SStr r | _ \<Rightarrow> SNull)],
      li_ref = Some (str_of (field event ''id'')), li_refDigest = Some (auditEventDigest event),
      li_at = None\<rparr>"

definition commitToLedger :: "(string \<Rightarrow> bool) \<Rightarrow> int \<Rightarrow> json \<Rightarrow> audit_trail \<Rightarrow> audit_trail" where
  "commitToLedger dp now event t =
     (case tr_ledger t of
        None \<Rightarrow> t
      | Some l \<Rightarrow>
          t\<lparr>tr_ledger := Some (snd (ledger_append dp l now
             (ledgerInputForAudit (json_clone (redact event)))))\<rparr>)"

definition record_valid :: "audit_input \<Rightarrow> bool" where
  "record_valid input =
     (isAction (in_action input) \<and> isLabel (in_target_kind input) \<and> isLabel (in_target_id input) \<and>
      (case in_reason input of Some r \<Rightarrow> audit_reason_pattern r | None \<Rightarrow> True))"

definition audit_record ::
  "(string \<Rightarrow> bool) \<Rightarrow> (nat \<Rightarrow> string) \<Rightarrow> audit_trail \<Rightarrow> int \<Rightarrow> audit_input \<Rightarrow>
     (json, audit_error) result \<times> audit_trail" where
  "audit_record dp gen t now input =
     (if \<not> record_valid input then (Err Invalid_Audit_Field, t)
      else
        let event = audit_event (gen (tr_nextId t)) (gen (tr_nextId t + 1)) now input;
            t1 = t\<lparr>tr_nextId := tr_nextId t + 2\<rparr>
        in if \<not> isEvent event then (Err Invalid_Audit_Field, t1)
           else (Ok event, commitToLedger dp now event (writeAll (readAll t1 @ [event]) t1)))"

text \<open>\<open>recordAudit\<close>: the event, or nothing when the trail rejected the input.\<close>

definition recordAudit ::
  "(string \<Rightarrow> bool) \<Rightarrow> (nat \<Rightarrow> string) \<Rightarrow> audit_trail \<Rightarrow> int \<Rightarrow> audit_input \<Rightarrow> json option \<times> audit_trail" where
  "recordAudit dp gen t now input =
     (case audit_record dp gen t now input of
        (Ok event, t') \<Rightarrow> (Some event, t')
      | (Err _, t') \<Rightarrow> (None, t'))"

definition authorizeAuditRead :: "audit_actor \<Rightarrow> audit_scope \<Rightarrow> (audit_scope, audit_error) result" where
  "authorizeAuditRead actor requested =
     (if actor_kind actor = Maintainer then Ok requested
      else if requested = Maintainer_Scope then Err Audit_Denied
      else if actor_kind actor \<noteq> User \<or> actor_id actor = None \<or> actor_id actor = Some [] then Err Audit_Denied
      else Ok Own_Scope)"

text \<open>A filter; an empty text is no condition, as an absent one.\<close>

record audit_filter =
  af_action :: "string option"
  af_actorId :: "string option"
  af_targetKind :: "string option"
  af_targetId :: "string option"
  af_outcome :: "string option"
  af_from :: "string option"
  af_to :: "string option"
  af_limit :: "int option"

definition given :: "string option \<Rightarrow> (string \<Rightarrow> bool) \<Rightarrow> bool" where
  "given v P = (case v of Some s \<Rightarrow> s = [] \<or> P s | None \<Rightarrow> True)"

definition audit_matches :: "json \<Rightarrow> audit_filter \<Rightarrow> bool" where
  "audit_matches event f =
     (given (af_action f) (\<lambda>a. str_of (field event ''action'') = a) \<and>
      given (af_actorId f) (\<lambda>a. str_of (field event ''actorId'') = a) \<and>
      given (af_targetKind f) (\<lambda>a. str_of (field (field event ''target'') ''kind'') = a) \<and>
      given (af_targetId f) (\<lambda>a. str_of (field (field event ''target'') ''id'') = a) \<and>
      given (af_outcome f) (\<lambda>a. str_of (field event ''outcome'') = a) \<and>
      given (af_from f) (\<lambda>a. \<not> str_of (field event ''at'') < a) \<and>
      given (af_to f) (\<lambda>a. \<not> str_of (field event ''at'') \<ge> a))"

record audit_page =
  ap_events :: "json list"
  ap_total :: nat
  ap_hasMore :: bool

definition audit_visible :: "audit_actor \<Rightarrow> json \<Rightarrow> bool" where
  "audit_visible actor event =
     (actor_kind actor = Maintainer \<or>
      str_of (field event ''scope'') = ''own'' \<and> Some (str_of (field event ''actorId'')) = actor_id actor)"

definition query_scope :: "audit_filter \<Rightarrow> audit_scope" where
  "query_scope f = (if given (af_actorId f) (\<lambda>_. False) then Own_Scope else Maintainer_Scope)"

definition query_cap :: "nat \<Rightarrow> audit_filter \<Rightarrow> nat" where
  "query_cap limit f = (case af_limit f of Some n \<Rightarrow> nat (max 1 n) | None \<Rightarrow> max 1 limit)"

definition audit_matched :: "audit_trail \<Rightarrow> audit_actor \<Rightarrow> audit_filter \<Rightarrow> json list" where
  "audit_matched t actor f = filter (\<lambda>e. audit_matches e f) (filter (audit_visible actor) (readAll t))"

definition audit_query ::
  "nat \<Rightarrow> audit_trail \<Rightarrow> audit_actor \<Rightarrow> audit_filter \<Rightarrow> (audit_page, audit_error) result" where
  "audit_query limit t actor f =
     (case authorizeAuditRead actor (query_scope f) of
        Err e \<Rightarrow> Err e
      | Ok _ \<Rightarrow>
          if actor_kind actor \<noteq> Maintainer \<and> \<not> given (af_actorId f) (\<lambda>a. Some a = actor_id actor)
          then Err Audit_Denied
          else
            let matched = audit_matched t actor f;
                events = slice_last (query_cap limit f) matched
            in Ok \<lparr>ap_events = events, ap_total = length matched, ap_hasMore = length matched > length events\<rparr>)"

definition audit_prune :: "nat \<Rightarrow> audit_trail \<Rightarrow> nat \<times> audit_trail" where
  "audit_prune limit t =
     (let all = readAll t in
      if length all \<le> limit then (0, t)
      else (length all - limit, writeAll (slice_last limit all) t))"

definition audit_reset :: "audit_trail \<Rightarrow> audit_trail" where
  "audit_reset t = t\<lparr>tr_cell := None\<rparr>"

section \<open>Cross check with the ledger\<close>

record cross_check =
  cc_anchored :: nat
  cc_tampered :: "string list"
  cc_unanchored :: "string list"
  cc_missing :: "json list"

text \<open>References and digests are read back from storage, so they may be any value.\<close>

fun committed_refs :: "json list \<Rightarrow> (json, json) js_map \<Rightarrow> (json, json) js_map" where
  "committed_refs [] committed = committed"
| "committed_refs (entry # es) committed =
     committed_refs es
       (if json_truthy (field entry ''ref'') \<and> json_truthy (field entry ''refDigest'')
        then map_set (field entry ''ref'') (field entry ''refDigest'') committed else committed)"

fun cross_loop :: "(json, json) js_map \<Rightarrow> json list \<Rightarrow> cross_check \<Rightarrow> cross_check" where
  "cross_loop m [] c = c"
| "cross_loop m (event # es) c =
     (let eid = field event ''id'' in
      cross_loop m es
        (case map_get m eid of
           None \<Rightarrow> c\<lparr>cc_unanchored := cc_unanchored c @ [str_of eid]\<rparr>
         | Some d \<Rightarrow>
             if d \<noteq> JStr (auditEventDigest event) then c\<lparr>cc_tampered := cc_tampered c @ [str_of eid]\<rparr>
             else c\<lparr>cc_anchored := cc_anchored c + 1\<rparr>))"

definition verifyAuditTrail :: "audit_trail \<Rightarrow> ledger \<Rightarrow> cross_check js_call" where
  "verifyAuditTrail t l =
     (if JNull \<in> set (ledger_entries l) then Throws_TypeError
      else
        let committed = committed_refs (ledger_entries l) []; events = readAll t in
        Returns ((cross_loop committed events
            \<lparr>cc_anchored = 0, cc_tampered = [], cc_unanchored = [], cc_missing = []\<rparr>)
          \<lparr>cc_missing := filter (\<lambda>i. i \<notin> set (map (\<lambda>e. field e ''id'') events)) (map_keys committed)\<rparr>))"

section \<open>Export\<close>

definition csv_escape :: "string option \<Rightarrow> string" where
  "csv_escape v =
     (case v of
        None \<Rightarrow> []
      | Some t \<Rightarrow>
          if list_ex (\<lambda>c. c \<in> {CHR 0x22, CHR '','', CHR 0x0A}) t
          then CHR 0x22 # concat (map (\<lambda>c. if c = CHR 0x22 then [c, c] else [c]) t) @ [CHR 0x22]
          else t)"

definition opt_text :: "json \<Rightarrow> string option" where
  "opt_text v =
     (case v of JUndef \<Rightarrow> None | JNull \<Rightarrow> None | JStr s \<Rightarrow> Some s | v \<Rightarrow> Some (plain_text v))"

definition opt_json :: "json \<Rightarrow> string option" where
  "opt_json v = (if json_truthy v then Some (plain_text v) else None)"

definition csv_columns :: "string list" where
  "csv_columns = [''at'', ''action'', ''outcome'', ''actorKind'', ''actorId'', ''scope'', ''targetKind'', ''targetId'',
     ''reason'', ''errorCode'', ''before'', ''after'', ''correlationId'']"

definition csv_values :: "json \<Rightarrow> string option list" where
  "csv_values event =
     [opt_text (field event ''at''), opt_text (field event ''action''), opt_text (field event ''outcome''),
      opt_text (field (field event ''actor'') ''kind''), opt_text (field event ''actorId''),
      opt_text (field event ''scope''), opt_text (field (field event ''target'') ''kind''),
      opt_text (field (field event ''target'') ''id''), opt_text (field event ''reason''),
      opt_text (field event ''errorCode''), opt_json (field event ''before''), opt_json (field event ''after''),
      opt_text (field event ''correlationId'')]"

definition csv_row :: "string option list \<Rightarrow> string" where
  "csv_row vs = join '','' (map csv_escape vs)"

text \<open>\<open>isEvent\<close> does not ask for an actor, and \<open>event.actor.kind\<close> raises without one.\<close>

definition toCsv :: "json list \<Rightarrow> string js_call" where
  "toCsv events =
     (if list_ex (\<lambda>e. field e ''actor'' \<in> {JUndef, JNull}) events then Throws_TypeError
      else Returns (join [CHR 0x0A] (join '','' csv_columns # map (\<lambda>e. csv_row (csv_values e)) events)))"

datatype audit_format = Audit_Json | Audit_Ndjson | Audit_Csv

text \<open>The indented document of the \<open>json\<close> format is kept as the events in it.\<close>

datatype audit_export_text = Json_Document "json list" | Text_Document string

definition audit_export ::
  "nat \<Rightarrow> audit_trail \<Rightarrow> audit_actor \<Rightarrow> audit_format \<Rightarrow> audit_filter \<Rightarrow>
     (audit_export_text, audit_error) result js_call" where
  "audit_export limit t actor format f =
     (case audit_query limit t actor f of
        Err e \<Rightarrow> Returns (Err e)
      | Ok page \<Rightarrow>
          (case format of
             Audit_Json \<Rightarrow> Returns (Ok (Json_Document (ap_events page)))
           | Audit_Csv \<Rightarrow>
               (case toCsv (ap_events page) of
                  Throws_TypeError \<Rightarrow> Throws_TypeError
                | Returns text \<Rightarrow> Returns (Ok (Text_Document text)))
           | Audit_Ndjson \<Rightarrow>
               Returns (Ok (Text_Document (join [CHR 0x0A] (map plain_text (ap_events page)))))))"

section \<open>Reads are confined\<close>

lemma readAll_events: "e \<in> set (readAll t) \<Longrightarrow> isEvent e"
  by (auto simp: readAll_def split: option.splits trail_cell.splits)

lemma query_err:
  "audit_query limit t actor f = Err e \<Longrightarrow> actor_kind actor \<noteq> Maintainer \<and> e = Audit_Denied"
  by (auto simp: audit_query_def authorizeAuditRead_def Let_def split: if_splits)

lemma query_ok:
  assumes "audit_query limit t actor f = Ok page"
  shows "ap_events page = slice_last (query_cap limit f) (audit_matched t actor f)"
    and "actor_kind actor = Maintainer \<or> actor_kind actor = User"
proof -
  from assms obtain s where s: "authorizeAuditRead actor (query_scope f) = Ok s"
    by (cases "authorizeAuditRead actor (query_scope f)") (simp_all add: audit_query_def)
  then show "actor_kind actor = Maintainer \<or> actor_kind actor = User"
    by (cases "actor_kind actor") (simp_all add: authorizeAuditRead_def split: if_splits)
  show "ap_events page = slice_last (query_cap limit f) (audit_matched t actor f)"
    using assms s by (auto simp: audit_query_def Let_def split: if_splits)
qed

text \<open>
  C23. A reader who is not a maintainer sees only their own events: whatever filter they
  pass, every event a query returns is a stored one that matches the filter, has the
  \<open>own\<close> scope and carries their id, and the page is no longer than its cap. A refusal is
  always \<open>audit_denied\<close> and never meets a maintainer.
\<close>

theorem audit_query_confined:
  "case audit_query limit t actor f of
     Err e \<Rightarrow> actor_kind actor \<noteq> Maintainer \<and> e = Audit_Denied
   | Ok page \<Rightarrow>
       length (ap_events page) \<le> query_cap limit f \<and>
       list_all (\<lambda>e. e \<in> set (readAll t) \<and> isEvent e \<and> audit_matches e f \<and>
         (actor_kind actor = Maintainer \<or>
          actor_kind actor = User \<and> str_of (field e ''scope'') = ''own'' \<and>
          actor_id actor = Some (str_of (field e ''actorId'')))) (ap_events page)"
proof (cases "audit_query limit t actor f")
  case (Err e)
  then show ?thesis using query_err [OF Err] by simp
next
  case (Ok page)
  note page = query_ok [OF Ok]
  have "e \<in> set (audit_matched t actor f)" if "e \<in> set (ap_events page)" for e
    using that set_slice_last [of "query_cap limit f" "audit_matched t actor f"] by (auto simp: page(1))
  then have seen: "e \<in> set (readAll t) \<and> audit_matches e f \<and> audit_visible actor e"
    if "e \<in> set (ap_events page)" for e
    using that unfolding audit_matched_def set_filter by blast
  have "e \<in> set (readAll t) \<and> isEvent e \<and> audit_matches e f \<and>
      (actor_kind actor = Maintainer \<or>
       actor_kind actor = User \<and> str_of (field e ''scope'') = ''own'' \<and>
       actor_id actor = Some (str_of (field e ''actorId'')))" if "e \<in> set (ap_events page)" for e
    using seen [OF that] readAll_events [of e t] page(2) unfolding audit_visible_def by metis
  moreover have "length (ap_events page) \<le> query_cap limit f"
    by (simp add: page(1))
  ultimately show ?thesis unfolding Ok result.case list_all_iff by blast
qed

end
