(* ===== verification/Stale_Detector.thy ===== *)
theory Stale_Detector
  imports Cache_Runs Audit_Trail
begin

text \<open>
  \<open>core/cache/stale-detector.ts\<close>: the inspection of cached projections and index entries and
  the repair of what it finds, over the entries of the bounded cache. An instant given as
  a text is read by \<open>Date\<close>, the argument \<open>date_ms\<close>; a text it cannot read gives NaN, here
  \<open>None\<close>, which compares as false.
\<close>

section \<open>Reports\<close>

datatype stale_reason = Ttl_Expired | Version_Mismatch | Ledger_Drift | Orphan_Reference | Index_Inconsistency

datatype stale_severity = Sev_Info | Sev_Warning | Sev_Critical

datatype repair_action = Evict | Reindex | Resync | Queue_Repair_Job

datatype projection_kind = Kind_Cache | Kind_Index

datatype repair_scope = Scope_Single | Scope_Partition | Scope_Full

record index_entry =
  ix_indexKey :: string
  ix_targetId :: string
  ix_indexedAt :: entry_instant
  ix_version :: int
  ix_ledgerSequence :: "int option"

record stale_finding =
  sf_id :: string
  sf_kind :: projection_kind
  sf_targetKey :: string
  sf_staleReason :: stale_reason
  sf_severity :: stale_severity
  sf_ageMs :: "int option"
  sf_observedVersion :: "int option"
  sf_expectedVersion :: "int option"
  sf_observedSequence :: "int option"
  sf_authoritativeSequence :: "int option"
  sf_details :: string

record repair_recommendation =
  rr_id :: string
  rr_targetKey :: string
  rr_kind :: projection_kind
  rr_staleReason :: stale_reason
  rr_severity :: stale_severity
  rr_recommendedAction :: repair_action
  rr_scope :: repair_scope
  rr_operatorGuidance :: string
  rr_remediationPayload :: "context_map option"

record inspection_context =
  ic_now :: int
  ic_currentSchemaVersion :: int
  ic_authoritativeLedgerSequence :: "int option"
  ic_primaryEntityIds :: "string list option"
  ic_maxToleratedDriftLedgers :: "int option"

record stale_report =
  sr_inspectedAt :: string
  sr_totalCachesScanned :: nat
  sr_staleCachesCount :: nat
  sr_totalIndexesScanned :: nat
  sr_staleIndexesCount :: nat
  sr_findings :: "stale_finding list"
  sr_recommendations :: "repair_recommendation list"
  sr_clean :: bool

fun stale_reason_text :: "stale_reason \<Rightarrow> string" where
  "stale_reason_text Ttl_Expired = ''ttl_expired''"
| "stale_reason_text Version_Mismatch = ''version_mismatch''"
| "stale_reason_text Ledger_Drift = ''ledger_drift''"
| "stale_reason_text Orphan_Reference = ''orphan_reference''"
| "stale_reason_text Index_Inconsistency = ''index_inconsistency''"

fun severity_text :: "stale_severity \<Rightarrow> string" where
  "severity_text Sev_Info = ''info''"
| "severity_text Sev_Warning = ''warning''"
| "severity_text Sev_Critical = ''critical''"

fun repair_action_text :: "repair_action \<Rightarrow> string" where
  "repair_action_text Evict = ''evict''"
| "repair_action_text Reindex = ''reindex''"
| "repair_action_text Resync = ''resync''"
| "repair_action_text Queue_Repair_Job = ''queue_repair_job''"

fun projection_kind_text :: "projection_kind \<Rightarrow> string" where
  "projection_kind_text Kind_Cache = ''cache''"
| "projection_kind_text Kind_Index = ''index''"

section \<open>Inspection\<close>

definition age_ms :: "(string \<Rightarrow> int option) \<Rightarrow> int \<Rightarrow> entry_instant \<Rightarrow> int option" where
  "age_ms date_ms nowMs instant =
     map_option (\<lambda>at. max 0 (nowMs - at)) (case instant of Entry_Ms n \<Rightarrow> Some n | Entry_Text s \<Rightarrow> date_ms s)"

definition older_than :: "int option \<Rightarrow> int \<Rightarrow> bool" where
  "older_than age bound = (case age of Some a \<Rightarrow> a > bound | None \<Rightarrow> False)"

definition age_text :: "int option \<Rightarrow> string" where
  "age_text age = (case age of Some a \<Rightarrow> int_text a | None \<Rightarrow> ''NaN'')"

text \<open>A finding and its recommendation, which share the key, the reason and the severity.\<close>

definition verdict ::
  "string \<Rightarrow> projection_kind \<Rightarrow> string \<Rightarrow> stale_reason \<Rightarrow> stale_severity \<Rightarrow> int option \<Rightarrow> string \<Rightarrow>
   repair_action \<Rightarrow> repair_scope \<Rightarrow> string \<Rightarrow> context_map \<Rightarrow> stale_finding \<times> repair_recommendation" where
  "verdict label kind key reason severity age details action scope guidance payload =
     (\<lparr>sf_id = label @ key, sf_kind = kind, sf_targetKey = key, sf_staleReason = reason, sf_severity = severity,
       sf_ageMs = age, sf_observedVersion = None, sf_expectedVersion = None, sf_observedSequence = None,
       sf_authoritativeSequence = None, sf_details = details\<rparr>,
      \<lparr>rr_id = ''rec-'' @ label @ key, rr_targetKey = key, rr_kind = kind, rr_staleReason = reason, rr_severity = severity,
       rr_recommendedAction = action, rr_scope = scope, rr_operatorGuidance = guidance,
       rr_remediationPayload = Some payload\<rparr>)"

definition quoted :: "string \<Rightarrow> string" where
  "quoted s = CHR 0x22 # s @ [CHR 0x22]"

definition ttl_verdict :: "'v cache_entry \<Rightarrow> int option \<Rightarrow> stale_finding \<times> repair_recommendation" where
  "ttl_verdict entry age =
     verdict ''stale-cache-ttl-'' Kind_Cache (ce_key entry) Ttl_Expired
       (if older_than age (ce_ttlMs entry * 3) then Sev_Warning else Sev_Info) age
       (''Cache entry expired ('' @ age_text age @ ''ms old > TTL '' @ int_text (ce_ttlMs entry) @ ''ms)'')
       Evict Scope_Single
       (''Evict key '' @ quoted (ce_key entry) @ '' from cache store or let the next query fetch fresh state.'')
       [(''key'', SStr (ce_key entry)), (''action'', SStr ''evict'')]"

definition version_verdict :: "int \<Rightarrow> 'v cache_entry \<Rightarrow> int option \<Rightarrow> stale_finding \<times> repair_recommendation" where
  "version_verdict schema entry age =
     (let (f, r) = verdict ''stale-cache-ver-'' Kind_Cache (ce_key entry) Version_Mismatch Sev_Warning age
        (''Cache entry format v'' @ int_text (ce_version entry) @ '' is behind current schema v'' @ int_text schema)
        Resync Scope_Single
        (''Resync and re-serialize key '' @ quoted (ce_key entry) @ '' with schema v'' @ int_text schema @ ''.'')
        [(''key'', SStr (ce_key entry)), (''targetVersion'', SNum (JInt schema))]
      in (f\<lparr>sf_observedVersion := Some (ce_version entry), sf_expectedVersion := Some schema\<rparr>, r))"

definition drift_verdict :: "int \<Rightarrow> int \<Rightarrow> 'v cache_entry \<Rightarrow> int option \<Rightarrow> stale_finding \<times> repair_recommendation" where
  "drift_verdict head observed entry age =
     (let drift = head - observed;
          (f, r) = verdict ''stale-cache-seq-'' Kind_Cache (ce_key entry) Ledger_Drift
            (if drift > 100 then Sev_Critical else Sev_Warning) age
            (''Cache projection at ledger '' @ int_text observed @ '' is '' @ int_text drift @ '' ledgers behind head ('' @
              int_text head @ '')'')
            Resync Scope_Single
            (''Re-query Horizon or RPC to refresh projection '' @ quoted (ce_key entry) @ '' to ledger '' @ int_text head @ ''.'')
            [(''key'', SStr (ce_key entry)), (''headSequence'', SNum (JInt head))]
      in (f\<lparr>sf_observedSequence := Some observed, sf_authoritativeSequence := Some head\<rparr>, r))"

definition orphan_verdict :: "string \<Rightarrow> 'v cache_entry \<Rightarrow> int option \<Rightarrow> stale_finding \<times> repair_recommendation" where
  "orphan_verdict source entry age =
     verdict ''stale-cache-orphan-'' Kind_Cache (ce_key entry) Orphan_Reference Sev_Warning age
       (''Cache entry references deleted or non-existent entity '' @ quoted source)
       Evict Scope_Single
       (''Evict dangling cache entry '' @ quoted (ce_key entry) @ '' because root record '' @ quoted source @ '' is gone.'')
       [(''key'', SStr (ce_key entry)), (''orphanId'', SStr source)]"

definition cache_expired_at :: "(string \<Rightarrow> int option) \<Rightarrow> inspection_context \<Rightarrow> 'v cache_entry \<Rightarrow> bool" where
  "cache_expired_at date_ms context entry =
     (ce_ttlMs entry > 0 \<and> older_than (age_ms date_ms (ic_now context) (ce_cachedAt entry)) (ce_ttlMs entry))"

definition ledger_drifted :: "inspection_context \<Rightarrow> 'v cache_entry \<Rightarrow> (int \<times> int) option" where
  "ledger_drifted context entry =
     (case (ic_authoritativeLedgerSequence context, ce_ledgerSequence entry) of
        (Some head, Some observed) \<Rightarrow>
          if head - observed > (case ic_maxToleratedDriftLedgers context of Some d \<Rightarrow> d | None \<Rightarrow> 5)
          then Some (head, observed) else None
      | _ \<Rightarrow> None)"

definition orphaned :: "inspection_context \<Rightarrow> 'v cache_entry \<Rightarrow> string option" where
  "orphaned context entry =
     (case (ic_primaryEntityIds context, ce_sourceEntityId entry) of
        (Some primary, Some source) \<Rightarrow> if source \<noteq> [] \<and> source \<notin> set primary then Some source else None
      | _ \<Rightarrow> None)"

definition inspect_cache ::
  "(string \<Rightarrow> int option) \<Rightarrow> inspection_context \<Rightarrow> 'v cache_entry \<Rightarrow> (stale_finding \<times> repair_recommendation) option" where
  "inspect_cache date_ms context entry =
     (let age = age_ms date_ms (ic_now context) (ce_cachedAt entry) in
      if cache_expired_at date_ms context entry then Some (ttl_verdict entry age)
      else if ce_version entry < ic_currentSchemaVersion context
      then Some (version_verdict (ic_currentSchemaVersion context) entry age)
      else case ledger_drifted context entry of
        Some (head, observed) \<Rightarrow> Some (drift_verdict head observed entry age)
      | None \<Rightarrow> map_option (\<lambda>source. orphan_verdict source entry age) (orphaned context entry))"

definition inspect_index ::
  "(string \<Rightarrow> int option) \<Rightarrow> inspection_context \<Rightarrow> index_entry \<Rightarrow> (stale_finding \<times> repair_recommendation) option" where
  "inspect_index date_ms context index =
     (let age = age_ms date_ms (ic_now context) (ix_indexedAt index);
          schema = ic_currentSchemaVersion context;
          key = ix_indexKey index
      in if (case ic_primaryEntityIds context of Some primary \<Rightarrow> ix_targetId index \<notin> set primary | None \<Rightarrow> False)
         then Some (verdict ''stale-index-orphan-'' Kind_Index key Index_Inconsistency Sev_Critical age
           (''Index pointer '' @ quoted key @ '' references absent target '' @ quoted (ix_targetId index))
           Reindex Scope_Single
           (''Rebuild index entry '' @ quoted key @ '' or delete dangling index pointer.'')
           [(''indexKey'', SStr key), (''missingTargetId'', SStr (ix_targetId index))])
         else if ix_version index < schema
         then (let (f, r) = verdict ''stale-index-ver-'' Kind_Index key Version_Mismatch Sev_Warning age
             (''Index metadata schema v'' @ int_text (ix_version index) @ '' is older than system schema v'' @ int_text schema)
             Reindex Scope_Partition
             (''Trigger index partition rebuild for schema version '' @ int_text schema @ ''.'')
             [(''indexKey'', SStr key), (''targetVersion'', SNum (JInt schema))]
           in Some (f\<lparr>sf_observedVersion := Some (ix_version index), sf_expectedVersion := Some schema\<rparr>, r))
         else None)"

text \<open>\<open>toISOString\<close> of an instant outside the range of \<open>Date\<close> throws.\<close>

definition stale_inspect ::
  "(string \<Rightarrow> int option) \<Rightarrow> 'v cache_entry list \<Rightarrow> index_entry list \<Rightarrow> inspection_context \<Rightarrow> stale_report range_checked" where
  "stale_inspect date_ms caches indexes context =
     (let stale = List.map_filter (inspect_cache date_ms context) caches;
          broken = List.map_filter (inspect_index date_ms context) indexes;
          findings = map fst (stale @ broken)
      in if \<not> valid_date (ic_now context) then Range_Error ''time''
         else In_Range
           \<lparr>sr_inspectedAt = toISOString (ic_now context), sr_totalCachesScanned = length caches,
            sr_staleCachesCount = length stale, sr_totalIndexesScanned = length indexes,
            sr_staleIndexesCount = length broken, sr_findings = findings, sr_recommendations = map snd (stale @ broken),
            sr_clean = (length findings = 0)\<rparr>)"

section \<open>Repair\<close>

text \<open>
  What a handler answers: nothing is registered, a truth value, a promise, which counts as
  true whatever it settles with, or an exception with its message.
\<close>

datatype handler_answer = Answered bool | Promised | Handler_Failed string

record 's repair_handlers =
  onEvict :: "(string \<Rightarrow> 's \<Rightarrow> handler_answer \<times> 's) option"
  onReindex :: "(string \<Rightarrow> context_map option \<Rightarrow> 's \<Rightarrow> handler_answer \<times> 's) option"
  onResync :: "(string \<Rightarrow> context_map option \<Rightarrow> 's \<Rightarrow> handler_answer \<times> 's) option"

record repair_result =
  rp_recommendationId :: string
  rp_success :: bool
  rp_actionExecuted :: repair_action
  rp_targetKey :: string
  rp_timestamp :: string
  rp_message :: string
  rp_evidence :: context_map

definition answer_of :: "handler_answer \<Rightarrow> string \<Rightarrow> bool \<times> string" where
  "answer_of a message =
     (case a of
        Answered b \<Rightarrow> (b, message)
      | Promised \<Rightarrow> (True, message)
      | Handler_Failed m \<Rightarrow> (False, ''Repair execution failed: '' @ m))"

definition run_handler :: "('s \<Rightarrow> handler_answer \<times> 's) option \<Rightarrow> 's \<Rightarrow> string \<Rightarrow> (bool \<times> string) \<times> 's" where
  "run_handler handler s message =
     (case handler of
        None \<Rightarrow> ((True, message), s)
      | Some h \<Rightarrow> let (a, s') = h s in (answer_of a message, s'))"

definition repair_run :: "'s repair_handlers \<Rightarrow> 's \<Rightarrow> repair_recommendation \<Rightarrow> (bool \<times> string) \<times> 's" where
  "repair_run handlers s recommendation =
     (let key = rr_targetKey recommendation; payload = rr_remediationPayload recommendation in
      case rr_recommendedAction recommendation of
        Evict \<Rightarrow> run_handler (map_option (\<lambda>h. h key) (onEvict handlers)) s
          (''Successfully evicted stale entry '' @ quoted key)
      | Reindex \<Rightarrow> run_handler (map_option (\<lambda>h. h key payload) (onReindex handlers)) s
          (''Successfully reindexed '' @ quoted key)
      | Resync \<Rightarrow> run_handler (map_option (\<lambda>h. h key payload) (onResync handlers)) s
          (''Successfully initiated resync for '' @ quoted key)
      | Queue_Repair_Job \<Rightarrow> ((True, ''Queued background repair job for '' @ quoted key), s))"

definition repair_evidence :: "repair_recommendation \<Rightarrow> string \<Rightarrow> context_map" where
  "repair_evidence recommendation timestamp =
     [(''targetKey'', SStr (rr_targetKey recommendation)),
      (''action'', SStr (repair_action_text (rr_recommendedAction recommendation))),
      (''staleReason'', SStr (stale_reason_text (rr_staleReason recommendation))),
      (''severity'', SStr (severity_text (rr_severity recommendation))),
      (''payload'', case rr_remediationPayload recommendation of None \<Rightarrow> SUndefined | Some _ \<Rightarrow> Opaque),
      (''executedAt'', SStr timestamp)]"

definition repair_audit :: "repair_recommendation \<Rightarrow> string \<Rightarrow> audit_input" where
  "repair_audit recommendation timestamp =
     \<lparr>in_action = ''projection.repaired'',
      in_actor = \<lparr>actor_kind = System, actor_id = Some ''stale_projection_repairer''\<rparr>,
      in_scope = None, in_target_kind = projection_kind_text (rr_kind recommendation),
      in_target_id = rr_targetKey recommendation,
      in_reason = Some (stale_reason_text (rr_staleReason recommendation)), in_outcome = None, in_before = None,
      in_after = Some (repair_evidence recommendation timestamp), in_at = Some timestamp, in_correlationId = None,
      in_errorCode = None\<rparr>"

text \<open>\<open>now\<close> is the clock of the repair and \<open>wall\<close> the clock of the audit trail.\<close>

definition executeRepair ::
  "(string \<Rightarrow> bool) \<Rightarrow> (nat \<Rightarrow> string) \<Rightarrow> int \<Rightarrow> int \<Rightarrow> 's repair_handlers \<Rightarrow> 's \<times> audit_trail \<Rightarrow> repair_recommendation \<Rightarrow>
   repair_result \<times> 's \<times> audit_trail" where
  "executeRepair dp gen now wall handlers st recommendation =
     (let timestamp = toISOString now;
          ((success, message), s) = repair_run handlers (fst st) recommendation;
          trail = snd (recordAudit dp gen (snd st) wall (repair_audit recommendation timestamp))
      in (\<lparr>rp_recommendationId = rr_id recommendation, rp_success = success,
           rp_actionExecuted = rr_recommendedAction recommendation, rp_targetKey = rr_targetKey recommendation,
           rp_timestamp = timestamp, rp_message = message, rp_evidence = repair_evidence recommendation timestamp\<rparr>,
          s, trail))"

section \<open>The detector and the cache agree\<close>

lemma verdict_fields [simp]:
  "sf_targetKey (fst (verdict l kd k r sv a d ac sc g p)) = k" "sf_staleReason (fst (verdict l kd k r sv a d ac sc g p)) = r"
  "sf_kind (fst (verdict l kd k r sv a d ac sc g p)) = kd"
  "rr_targetKey (snd (verdict l kd k r sv a d ac sc g p)) = k" "rr_recommendedAction (snd (verdict l kd k r sv a d ac sc g p)) = ac"
  by (simp_all add: verdict_def)

lemmas verdict_defs = ttl_verdict_def version_verdict_def drift_verdict_def orphan_verdict_def

lemma cache_finding:
  assumes "inspect_cache date_ms context entry = Some v"
  shows "sf_targetKey (fst v) = ce_key entry" "rr_targetKey (snd v) = ce_key entry" "sf_kind (fst v) = Kind_Cache"
    "sf_staleReason (fst v) = Ttl_Expired \<longleftrightarrow> cache_expired_at date_ms context entry"
    "sf_staleReason (fst v) = Version_Mismatch \<Longrightarrow> ce_version entry < ic_currentSchemaVersion context"
    "rr_recommendedAction (snd v) = Evict \<longleftrightarrow> sf_staleReason (fst v) \<in> {Ttl_Expired, Orphan_Reference}"
  using assms
  by (auto simp: inspect_cache_def verdict_defs Let_def split_beta split: if_splits option.splits)

lemma index_finding: "inspect_index date_ms context index = Some v \<Longrightarrow> sf_kind (fst v) = Kind_Index \<and> rr_recommendedAction (snd v) = Reindex"
  by (auto simp: inspect_index_def Let_def split_beta split: if_splits)

lemma map_filter_mem: "y \<in> set (List.map_filter f xs) \<longleftrightarrow> (\<exists>x \<in> set xs. f x = Some y)"
  by (auto simp: List.map_filter_def image_iff)

lemma findings_of_cache:
  assumes "stale_inspect date_ms caches indexes context = In_Range report"
  shows "f \<in> set (sr_findings report) \<and> sf_kind f = Kind_Cache \<longleftrightarrow>
    (\<exists>entry \<in> set caches. \<exists>r. inspect_cache date_ms context entry = Some (f, r))"
proof -
  have "f \<in> set (sr_findings report) \<longleftrightarrow>
      (\<exists>entry \<in> set caches. \<exists>r. inspect_cache date_ms context entry = Some (f, r)) \<or>
      (\<exists>index \<in> set indexes. \<exists>r. inspect_index date_ms context index = Some (f, r))"
    using assms by (force simp: stale_inspect_def Let_def map_filter_mem image_iff split: if_splits)
  then show ?thesis using cache_finding(3) index_finding by fastforce
qed

lemma expired_entry:
  assumes "trace_ok (c, h)" "map_get (bc_entries c) k = Some e"
  shows "cache_expired_at date_ms context (toCacheEntry k e) \<longleftrightarrow> cache_isExpired e (ic_now context)"
proof -
  have "1 \<le> se_ttlMs e" using assms by (auto simp: entries_ok_def)
  then show ?thesis
    by (auto simp: cache_expired_at_def age_ms_def older_than_def toCacheEntry_def cache_isExpired_def)
qed

lemma entry_fields [simp]:
  "ce_key (toCacheEntry k e) = k" "ce_version (toCacheEntry k e) = se_version e"
  by (simp_all add: toCacheEntry_def)

lemma snapshot_mem:
  assumes "trace_ok (c, h)"
  shows "entry \<in> set (cache_snapshot c) \<longleftrightarrow> (\<exists>k e. map_get (bc_entries c) k = Some e \<and> entry = toCacheEntry k e)"
  using assms by (auto simp: cache_snapshot_def backed_def map_wf_get_iff image_iff) force

lemma found_entry:
  assumes "trace_ok (c, h)" "stale_inspect date_ms (cache_snapshot c) indexes context = In_Range report"
    "f \<in> set (sr_findings report)" "sf_kind f = Kind_Cache"
  obtains k e r where "map_get (bc_entries c) k = Some e" "inspect_cache date_ms context (toCacheEntry k e) = Some (f, r)"
proof -
  from assms(3,4) obtain entry r where "entry \<in> set (cache_snapshot c)" "inspect_cache date_ms context entry = Some (f, r)"
    using findings_of_cache [OF assms(2), of f] by auto
  with snapshot_mem [OF assms(1), of entry] that show thesis by auto
qed

text \<open>
  C34. The cache and the detector have one notion of expiry: in every state a run reaches, the
  inspection of the snapshot reports a key as expired exactly when reading it at that
  instant answers \<open>cache_expired\<close>, and it reports no key the cache wrote under the
  current schema as out of date.
\<close>

theorem detector_agrees_with_cache:
  assumes "createBoundedCache options = In_Range c0" "foldl trace_step (c0, []) es = (c, h)"
    "stale_inspect date_ms (cache_snapshot c) indexes context = In_Range report"
  shows "((\<exists>f \<in> set (sr_findings report). sf_kind f = Kind_Cache \<and> sf_targetKey f = k \<and> sf_staleReason f = Ttl_Expired) \<longleftrightarrow>
      fst (cache_get (ic_now context) c k) = Err Cache_Expired) \<and>
    (if ic_currentSchemaVersion context \<le> bc_schemaVersion c
     then \<forall>f \<in> set (sr_findings report). \<not> (sf_kind f = Kind_Cache \<and> sf_staleReason f = Version_Mismatch) else True)"
proof -
  note ok = traced(1) [OF assms(1,2)]
  note found = findings_of_cache [OF assms(3)]
  have "(\<exists>f \<in> set (sr_findings report). sf_kind f = Kind_Cache \<and> sf_targetKey f = k \<and> sf_staleReason f = Ttl_Expired) \<longleftrightarrow>
      (\<exists>e. map_get (bc_entries c) k = Some e \<and> cache_isExpired e (ic_now context))"
  proof
    assume "\<exists>f \<in> set (sr_findings report). sf_kind f = Kind_Cache \<and> sf_targetKey f = k \<and> sf_staleReason f = Ttl_Expired"
    then obtain f where f: "f \<in> set (sr_findings report)" "sf_kind f = Kind_Cache" "sf_targetKey f = k" "sf_staleReason f = Ttl_Expired"
      by blast
    obtain x e r where x: "map_get (bc_entries c) x = Some e" "inspect_cache date_ms context (toCacheEntry x e) = Some (f, r)"
      by (rule found_entry [OF ok assms(3) f(1,2)])
    with cache_finding(1,4) [OF x(2)] f(3,4) have "x = k" "cache_isExpired e (ic_now context)"
      by (simp_all add: expired_entry [OF ok x(1)])
    with x show "\<exists>e. map_get (bc_entries c) k = Some e \<and> cache_isExpired e (ic_now context)" by blast
  next
    assume "\<exists>e. map_get (bc_entries c) k = Some e \<and> cache_isExpired e (ic_now context)"
    then obtain e where e: "map_get (bc_entries c) k = Some e" "cache_isExpired e (ic_now context)" by blast
    then have x: "cache_expired_at date_ms context (toCacheEntry k e)" by (simp add: expired_entry [OF ok])
    then obtain f r where f: "inspect_cache date_ms context (toCacheEntry k e) = Some (f, r)"
      by (simp add: inspect_cache_def) (metis surj_pair)
    moreover have "toCacheEntry k e \<in> set (cache_snapshot c)" using e(1) snapshot_mem [OF ok] by blast
    ultimately have "f \<in> set (sr_findings report) \<and> sf_kind f = Kind_Cache" using found by blast
    with cache_finding(1,4) [OF f] x show "\<exists>f \<in> set (sr_findings report). sf_kind f = Kind_Cache \<and> sf_targetKey f = k \<and> sf_staleReason f = Ttl_Expired"
      by auto
  qed
  moreover have "sf_staleReason f \<noteq> Version_Mismatch"
    if schema: "ic_currentSchemaVersion context \<le> bc_schemaVersion c"
      and f: "f \<in> set (sr_findings report)" "sf_kind f = Kind_Cache" for f
  proof -
    obtain x e r where x: "map_get (bc_entries c) x = Some e" "inspect_cache date_ms context (toCacheEntry x e) = Some (f, r)"
      by (rule found_entry [OF ok assms(3) f])
    then have "se_version e = bc_schemaVersion c" using ok by (auto simp: entries_ok_def)
    with cache_finding(5) [OF x(2)] schema show ?thesis by auto
  qed
  ultimately show ?thesis by (auto simp: get_result split: option.splits)
qed

section \<open>Repairing the cache\<close>

text \<open>Handlers that evict from the cache, and the repair of a list of recommendations.\<close>

definition cache_handlers :: "'v bounded_cache repair_handlers" where
  "cache_handlers =
     \<lparr>onEvict = Some (\<lambda>key c. let (removed, c') = invalidate c key in (Answered removed, c')), onReindex = None, onResync = None\<rparr>"

definition repair_all ::
  "(string \<Rightarrow> bool) \<Rightarrow> (nat \<Rightarrow> string) \<Rightarrow> int \<Rightarrow> int \<Rightarrow> 's repair_handlers \<Rightarrow> 's \<times> audit_trail \<Rightarrow> repair_recommendation list \<Rightarrow>
   's \<times> audit_trail" where
  "repair_all dp gen now wall handlers = foldl (\<lambda>st r. snd (executeRepair dp gen now wall handlers st r))"

lemma repair_state: "fst (snd (executeRepair dp gen now wall handlers st r)) = snd (repair_run handlers (fst st) r)"
  by (simp add: executeRepair_def Let_def split_beta)

lemma cache_repair:
  "snd (repair_run cache_handlers c r) = (if rr_recommendedAction r = Evict then snd (invalidate c (rr_targetKey r)) else c)"
  by (cases "rr_recommendedAction r") (simp_all add: repair_run_def run_handler_def cache_handlers_def Let_def split_beta)

lemma cache_repaired:
  assumes "trace_ok (c, h)" "c' = fst (repair_all dp gen now wall cache_handlers (c, t) rs)"
  shows "(\<exists>h'. trace_ok (c', h')) \<and> (\<forall>k. map_get (bc_entries c') k =
      (if \<exists>r \<in> set rs. rr_recommendedAction r = Evict \<and> rr_targetKey r = k then None else map_get (bc_entries c) k))"
  using assms
proof (induction rs arbitrary: c t h)
  case Nil
  then show ?case by (auto simp: repair_all_def simp del: trace_ok.simps)
next
  case (Cons r rs)
  obtain c1 t1 where s: "snd (executeRepair dp gen now wall cache_handlers (c, t) r) = (c1, t1)" by fastforce
  then have c1: "c1 = (if rr_recommendedAction r = Evict then snd (invalidate c (rr_targetKey r)) else c)"
    using repair_state [of dp gen now wall cache_handlers "(c, t)" r] by (simp add: cache_repair)
  have ok: "trace_ok (c1, if rr_recommendedAction r = Evict then h @ [Dropped [rr_targetKey r]] else h)"
    using Cons.prems(1) trace_step_ok [OF Cons.prems(1), of "Invalidate (rr_targetKey r)"] by (simp add: c1 del: trace_ok.simps)
  have "c' = fst (repair_all dp gen now wall cache_handlers (c1, t1) rs)"
    using Cons.prems(2) by (simp add: repair_all_def s)
  from Cons.IH [OF ok this] show ?case
    by (simp del: trace_ok.simps) (auto simp: c1 invalidate_def Let_def map_get_remove)
qed


text \<open>
  No repair is audited: the action it is recorded under is none the trail knows, so
  whatever the handlers do the trail stays as it was.
\<close>

lemma repair_never_audited: "snd (snd (executeRepair dp gen now wall handlers (s, trail) r)) = trail"
proof -
  have "\<not> record_valid (repair_audit r ts)" for ts
    by (simp add: record_valid_def repair_audit_def isAction_def SENSITIVE_ACTIONS_def)
  then show ?thesis
    by (simp add: executeRepair_def Let_def split_beta recordAudit_def audit_record_def)
qed

text \<open>A handler that returns a promise counts as successful before the promise settles.\<close>

lemma promised_repair_succeeds:
  "onResync handlers = Some (\<lambda>_ _ s. (Promised, s)) \<Longrightarrow> rr_recommendedAction r = Resync \<Longrightarrow>
   rp_success (fst (executeRepair dp gen now wall handlers st r))"
  by (simp add: executeRepair_def repair_run_def run_handler_def answer_of_def Let_def split_beta)

text \<open>A projection whose instant cannot be read never expires.\<close>

lemma unreadable_never_expires: "ce_cachedAt entry = Entry_Text s \<Longrightarrow> date_ms s = None \<Longrightarrow> \<not> cache_expired_at date_ms context entry"
  by (simp add: cache_expired_at_def age_ms_def older_than_def)

section \<open>A sample inspection\<close>

text \<open>One entry of the sample cache has just expired, the other is behind the ledger.\<close>

definition w_context :: inspection_context where
  "w_context = \<lparr>ic_now = 1001, ic_currentSchemaVersion = 1, ic_authoritativeLedgerSequence = Some 100,
     ic_primaryEntityIds = None, ic_maxToleratedDriftLedgers = None\<rparr>"

definition w_old :: "nat cache_entry" where
  "w_old = toCacheEntry ''a'' (w_entry 0 1)"

definition w_behind :: "nat cache_entry" where
  "w_behind = toCacheEntry ''b'' (w_entry 1 2)"

lemma w_keys [simp]: "ce_key w_old = ''a''" "ce_key w_behind = ''b''"
  by (simp_all add: w_old_def w_behind_def)

definition w_drift :: stale_finding where
  "w_drift = fst (drift_verdict 100 7 w_behind (Some 1000))"

lemma w_inspected:
  "inspect_cache (\<lambda>_. None) w_context w_old =
     Some (ttl_verdict w_old (Some 1001))"
  "inspect_cache (\<lambda>_. None) w_context w_behind =
     Some (drift_verdict 100 7 w_behind (Some 1000))"
  by (simp_all add: inspect_cache_def w_context_def cache_expired_at_def age_ms_def older_than_def toCacheEntry_def
      w_entry_def ledger_drifted_def w_old_def w_behind_def)

lemma w_inspection:
  assumes "list_all (\<lambda>e. e \<in> {w_old, w_behind}) caches"
  obtains report where "stale_inspect (\<lambda>_. None) caches [] w_context = In_Range report"
    "sr_findings report = map (fst \<circ> the \<circ> inspect_cache (\<lambda>_. None) w_context) caches"
    "sr_recommendations report = map (snd \<circ> the \<circ> inspect_cache (\<lambda>_. None) w_context) caches"
proof -
  have "List.map_filter (inspect_cache (\<lambda>_. None) w_context) caches = map (the \<circ> inspect_cache (\<lambda>_. None) w_context) caches"
    using assms by (induction caches) (auto simp: w_inspected map_filter_simps)
  then show thesis
    by (intro that) (auto simp: stale_inspect_def Let_def w_context_def valid_date_def map_filter_simps)
qed

lemma w_snapshot: "cache_snapshot w_full = [w_behind, w_old]"
  by (simp add: cache_snapshot_def w_full_def w_old_def w_behind_def)

theorem detector_agrees_with_cache_witness: "fst (cache_get (ic_now w_context) w_full ''a'') = Err Cache_Expired"
proof -
  obtain report where r: "stale_inspect (\<lambda>_. None) (cache_snapshot w_full) [] w_context = In_Range report"
    "sr_findings report = map (fst \<circ> the \<circ> inspect_cache (\<lambda>_. None) w_context) (cache_snapshot w_full)"
    by (rule w_inspection [of "cache_snapshot w_full"]) (simp_all add: w_snapshot)
  let ?f = "fst (ttl_verdict w_old (Some 1001))"
  have "?f \<in> set (sr_findings report)" "sf_kind ?f = Kind_Cache" "sf_targetKey ?f = ''a''" "sf_staleReason ?f = Ttl_Expired"
    by (simp_all add: r(2) w_snapshot w_inspected ttl_verdict_def)
  with detector_agrees_with_cache [OF w_created w_trace r(1), of "''a''"] show ?thesis by blast
qed


end
