(* ===== verification/Quota.thy ===== *)
theory Quota
  imports Effects Iso_Time
begin

text \<open>
  \<open>core/quota/quota.ts\<close>: metered operations, the counters of a principal and of all
  principals together, reservations, overrides, refunds and diagnostics. Counters and
  overrides live in one storage map; a cell is the counter or the override
  \<open>JSON.parse\<close> and the shape guard make of it, or anything they refuse. A missing
  \<open>globalLimit\<close> is an infinite limit. The clock value and the fresh correlation id of
  a call are arguments; window lengths, instants and counts are integers.
\<close>

section \<open>Policies\<close>

datatype quota_resource = R_storage | R_compute | R_external_api | R_indexing

record quota_policy =
  pol_operation :: string
  pol_resource :: quota_resource
  pol_limit :: int
  pol_globalLimit :: "int option"
  pol_windowMs :: int
  pol_maxOverrideLimit :: "int option"

abbreviation policy ::
  "string \<Rightarrow> quota_resource \<Rightarrow> int \<Rightarrow> int option \<Rightarrow> int \<Rightarrow> quota_policy" where
  "policy oper res lim glob win \<equiv>
     \<lparr>pol_operation = oper, pol_resource = res, pol_limit = lim, pol_globalLimit = glob,
      pol_windowMs = win, pol_maxOverrideLimit = None\<rparr>"

definition MINUTE :: int where
  "MINUTE = 60 * 1000"

definition HOUR :: int where
  "HOUR = 60 * MINUTE"

definition DAY :: int where
  "DAY = 24 * HOUR"

definition QUOTA_POLICIES :: "quota_policy list" where
  "QUOTA_POLICIES =
     [policy ''ticket.issue'' R_storage 500 (Some 20000) HOUR,
      policy ''ticket.transfer'' R_storage 20 (Some 5000) HOUR,
      policy ''ticket.redeem'' R_compute 1200 (Some 50000) HOUR,
      policy ''event.create'' R_storage 10 (Some 500) DAY,
      policy ''event.update'' R_storage 120 None HOUR,
      policy ''fraud.screen'' R_external_api 200 (Some 5000) HOUR,
      policy ''export.generate'' R_compute 20 (Some 500) HOUR,
      policy ''worker.enqueue'' R_compute 100 (Some 2000) HOUR,
      policy ''notification.publish'' R_storage 60 (Some 5000) HOUR,
      policy ''horizon.request'' R_external_api 120 (Some 1000) MINUTE,
      policy ''rpc.simulate'' R_external_api 60 (Some 500) MINUTE,
      policy ''faucet.fund'' R_external_api 5 (Some 200) DAY,
      policy ''index.rebuild'' R_indexing 2 (Some 10) DAY,
      policy ''analytics.aggregate'' R_indexing 30 (Some 600) HOUR]"

definition QUOTA_STORAGE_PREFIX :: string where
  "QUOTA_STORAGE_PREFIX = ''utix:quota:v1:''"

definition QUOTA_MAX_OVERRIDE_TTL_MS :: int where
  "QUOTA_MAX_OVERRIDE_TTL_MS = 7 * DAY"

definition QUOTA_DENIAL_HISTORY :: nat where
  "QUOTA_DENIAL_HISTORY = 50"

definition QUOTA_GLOBAL_SUBJECT :: string where
  "QUOTA_GLOBAL_SUBJECT = ''*''"

definition principal_pattern :: "string \<Rightarrow> bool" where
  "principal_pattern s =
     (1 \<le> length s \<and> length s \<le> 128 \<and>
      list_all (\<lambda>c. is_upper c \<or> is_lower c \<or> is_digit c \<or> c \<in> set ''._:@-'') s)"

definition reason_pattern :: "string \<Rightarrow> bool" where
  "reason_pattern s =
     (1 \<le> length s \<and> length s \<le> 64 \<and>
      list_all (\<lambda>c. is_lower c \<or> is_digit c \<or> c \<in> set ''_.:-'') s)"

definition isValidPrincipal :: "string \<Rightarrow> bool" where
  "isValidPrincipal p = (p \<noteq> QUOTA_GLOBAL_SUBJECT \<and> principal_pattern p)"

definition ceilingOf :: "quota_policy \<Rightarrow> int" where
  "ceilingOf p = (case pol_maxOverrideLimit p of Some m \<Rightarrow> m | None \<Rightarrow> pol_limit p * 10)"

text \<open>\<open>validatePolicies\<close>; an error is the exception it throws, with the operation.\<close>

datatype policy_error =
    Duplicate_Policy string | Bad_Limit string | Bad_Global_Limit string | Bad_Window string
  | Bad_Ceiling string

fun validatePolicies :: "string list \<Rightarrow> quota_policy list \<Rightarrow> policy_error option" where
  "validatePolicies seen [] = None"
| "validatePolicies seen (p # ps) =
     (if pol_operation p \<in> set seen then Some (Duplicate_Policy (pol_operation p))
      else if pol_limit p < 1 then Some (Bad_Limit (pol_operation p))
      else if (case pol_globalLimit p of Some g \<Rightarrow> g < pol_limit p | None \<Rightarrow> False)
        then Some (Bad_Global_Limit (pol_operation p))
      else if pol_windowMs p < 1000 then Some (Bad_Window (pol_operation p))
      else if ceilingOf p < pol_limit p then Some (Bad_Ceiling (pol_operation p))
      else validatePolicies (pol_operation p # seen) ps)"

section \<open>State\<close>

record counter =
  cnt_windowStart :: int
  cnt_used :: int
  cnt_denied :: int

record quota_override =
  ov_operation :: string
  ov_subject :: string
  ov_limit :: int
  ov_reason :: string
  ov_grantedBy :: string
  ov_grantedAt :: int
  ov_expiresAt :: int

datatype quota_cell = Counter_Cell counter | Override_Cell quota_override | Quota_Corrupt

datatype limit_scope = By_Principal | By_Global

record reservation =
  rsv_windowStart :: int
  rsv_used :: int
  rsv_denied :: int
  rsv_owners :: "(nat, int) js_map"
  rsv_unwritten :: int

record denial_record =
  dn_at :: int
  dn_operation :: string
  dn_principal :: string
  dn_scope :: limit_scope
  dn_cost :: int
  dn_used :: int
  dn_limit :: "int option"
  dn_correlationId :: string

record quota_store =
  qs_policies :: "quota_policy list"
  qs_storage :: "(string, quota_cell) js_map"
  qs_touched :: "string list"
  qs_overrideKeys :: "string list"
  qs_refunded :: "string list"
  qs_denials :: "denial_record list"
  qs_reserved :: "(string, reservation) js_map"
  qs_nextCallId :: nat

datatype quota_error =
    Quota_Exceeded | Quota_Unknown_Operation | Quota_Invalid_Principal | Quota_Invalid_Cost
  | Quota_Override_Denied | Quota_Override_Invalid | Quota_Override_Not_Found
  | Quota_Diagnostics_Denied

record quota_request =
  qr_operation :: string
  qr_principal :: string
  qr_cost :: "js_number option"
  qr_actorType :: "string option"
  qr_correlationId :: "string option"

record quota_denial =
  qd_operation :: string
  qd_resource :: quota_resource
  qd_scope :: limit_scope
  qd_retryAfterMs :: "int option"
  qd_correlationId :: string

record quota_receipt =
  rc_operation :: string
  rc_principal :: string
  rc_cost :: int
  rc_windowStart :: int
  rc_remaining :: "int"
  rc_resetAt :: int
  rc_correlationId :: string

definition createQuotaStore ::
  "quota_policy list \<Rightarrow> (string, quota_cell) js_map \<Rightarrow> (quota_store, policy_error) result" where
  "createQuotaStore ps storage =
     (case validatePolicies [] ps of
        Some e \<Rightarrow> Err e
      | None \<Rightarrow> Ok \<lparr>qs_policies = ps, qs_storage = storage, qs_touched = [], qs_overrideKeys = [],
          qs_refunded = [], qs_denials = [], qs_reserved = [], qs_nextCallId = 0\<rparr>)"

definition byOperation :: "quota_store \<Rightarrow> string \<Rightarrow> quota_policy option" where
  "byOperation s operation = find (\<lambda>p. pol_operation p = operation) (qs_policies s)"

definition reservedKey :: "string \<Rightarrow> string \<Rightarrow> string" where
  "reservedKey operation subject = operation @ ''|'' @ subject"

definition counterKey :: "string \<Rightarrow> string \<Rightarrow> string" where
  "counterKey operation subject = QUOTA_STORAGE_PREFIX @ ''count:'' @ operation @ ''|'' @ subject"

definition overrideKey :: "string \<Rightarrow> string \<Rightarrow> string" where
  "overrideKey operation subject = QUOTA_STORAGE_PREFIX @ ''override:'' @ operation @ ''|'' @ subject"

section \<open>Counters and reservations\<close>

definition windowStartOf :: "quota_policy \<Rightarrow> int \<Rightarrow> int" where
  "windowStartOf p at = at div pol_windowMs p * pol_windowMs p"

definition readStoredCounter :: "quota_store \<Rightarrow> quota_policy \<Rightarrow> string \<Rightarrow> int \<Rightarrow> counter" where
  "readStoredCounter s p subject at =
     (let windowStart = windowStartOf p at;
          fresh = \<lparr>cnt_windowStart = windowStart, cnt_used = 0, cnt_denied = 0\<rparr>
      in case map_get (qs_storage s) (counterKey (pol_operation p) subject) of
           Some (Counter_Cell c) \<Rightarrow> if cnt_windowStart c = windowStart then c else fresh
         | _ \<Rightarrow> fresh)"

definition reservationFor :: "quota_store \<Rightarrow> quota_policy \<Rightarrow> string \<Rightarrow> int \<Rightarrow> reservation option" where
  "reservationFor s p subject at =
     (case map_get (qs_reserved s) (reservedKey (pol_operation p) subject) of
        Some entry \<Rightarrow> if rsv_windowStart entry = windowStartOf p at then Some entry else None
      | None \<Rightarrow> None)"

definition readCounter :: "quota_store \<Rightarrow> quota_policy \<Rightarrow> string \<Rightarrow> int \<Rightarrow> counter" where
  "readCounter s p subject at =
     (case reservationFor s p subject at of
        None \<Rightarrow> readStoredCounter s p subject at
      | Some pending \<Rightarrow>
          \<lparr>cnt_windowStart = rsv_windowStart pending, cnt_used = rsv_used pending,
           cnt_denied = rsv_denied pending\<rparr>)"

definition reserveCounter ::
  "quota_store \<Rightarrow> quota_policy \<Rightarrow> string \<Rightarrow> int \<Rightarrow> int \<Rightarrow> nat \<Rightarrow> quota_store" where
  "reserveCounter s p subject cost at callId =
     (let entry = (case reservationFor s p subject at of
            Some entry \<Rightarrow> entry
          | None \<Rightarrow>
              let base = readStoredCounter s p subject at in
              \<lparr>rsv_windowStart = cnt_windowStart base, rsv_used = cnt_used base,
               rsv_denied = cnt_denied base, rsv_owners = [], rsv_unwritten = 0\<rparr>)
      in s\<lparr>qs_reserved := map_set (reservedKey (pol_operation p) subject)
            (entry\<lparr>rsv_used := rsv_used entry + cost, rsv_unwritten := rsv_unwritten entry + cost,
                   rsv_owners := map_set callId cost (rsv_owners entry)\<rparr>) (qs_reserved s)\<rparr>)"

definition writeCounter :: "string \<Rightarrow> string \<Rightarrow> counter \<Rightarrow> quota_store \<Rightarrow> quota_store" where
  "writeCounter operation subject c s =
     s\<lparr>qs_touched := set_add (operation @ ''|'' @ subject) (qs_touched s),
       qs_storage := map_set (counterKey operation subject) (Counter_Cell c) (qs_storage s)\<rparr>"

text \<open>Stores a changed reservation, or drops it when nothing of it is unwritten.\<close>

definition keep_reservation :: "string \<Rightarrow> reservation \<Rightarrow> quota_store \<Rightarrow> quota_store" where
  "keep_reservation key entry s =
     s\<lparr>qs_reserved := (if rsv_unwritten entry \<le> 0 then map_remove key (qs_reserved s)
                       else map_set key entry (qs_reserved s))\<rparr>"

definition commitCounter ::
  "quota_store \<Rightarrow> quota_policy \<Rightarrow> string \<Rightarrow> int \<Rightarrow> int \<Rightarrow> nat \<Rightarrow> quota_store" where
  "commitCounter s p subject cost at callId =
     (case reservationFor s p subject at of
        None \<Rightarrow> s
      | Some entry \<Rightarrow>
          if map_get (rsv_owners entry) callId = None then s
          else
            let entry' = entry\<lparr>rsv_owners := map_remove callId (rsv_owners entry),
                               rsv_unwritten := rsv_unwritten entry - cost\<rparr>;
                current = readStoredCounter s p subject at;
                s' = writeCounter (pol_operation p) subject
                  (current\<lparr>cnt_used := cnt_used current + cost,
                           cnt_denied := max (cnt_denied current) (rsv_denied entry)\<rparr>) s
            in keep_reservation (reservedKey (pol_operation p) subject) entry' s')"

definition releaseCounter ::
  "quota_store \<Rightarrow> quota_policy \<Rightarrow> string \<Rightarrow> int \<Rightarrow> int \<Rightarrow> nat \<Rightarrow> quota_store" where
  "releaseCounter s p subject cost at callId =
     (case reservationFor s p subject at of
        None \<Rightarrow> s
      | Some entry \<Rightarrow>
          if map_get (rsv_owners entry) callId = None then s
          else keep_reservation (reservedKey (pol_operation p) subject)
            (entry\<lparr>rsv_owners := map_remove callId (rsv_owners entry),
                   rsv_used := max 0 (rsv_used entry - cost),
                   rsv_unwritten := rsv_unwritten entry - cost\<rparr>) s)"

text \<open>Reading an override drops it when it has expired.\<close>

definition readOverride :: "quota_store \<Rightarrow> string \<Rightarrow> string \<Rightarrow> int \<Rightarrow> quota_override option \<times> quota_store" where
  "readOverride s operation subject at =
     (case map_get (qs_storage s) (overrideKey operation subject) of
        Some (Override_Cell ov) \<Rightarrow>
          if ov_expiresAt ov \<le> at
          then (None, s\<lparr>qs_storage := map_remove (overrideKey operation subject) (qs_storage s),
                        qs_overrideKeys := removeAll (operation @ ''|'' @ subject) (qs_overrideKeys s)\<rparr>)
          else (Some ov, s)
      | _ \<Rightarrow> (None, s))"

definition policy_limit :: "quota_policy \<Rightarrow> string \<Rightarrow> int option" where
  "policy_limit p subject =
     (if subject = QUOTA_GLOBAL_SUBJECT then pol_globalLimit p else Some (pol_limit p))"

text \<open>The limit and whether an override set it; \<open>None\<close> is \<open>Infinity\<close>.\<close>

definition effectiveLimit ::
  "quota_store \<Rightarrow> quota_policy \<Rightarrow> string \<Rightarrow> int \<Rightarrow> (int option \<times> bool) \<times> quota_store" where
  "effectiveLimit s p subject at =
     (case readOverride s (pol_operation p) subject at of
        (Some ov, s') \<Rightarrow> ((Some (ov_limit ov), True), s')
      | (None, s') \<Rightarrow> ((policy_limit p subject, False), s'))"

definition over_limit :: "int \<Rightarrow> int option \<Rightarrow> bool" where
  "over_limit n lim = (case lim of Some l \<Rightarrow> n > l | None \<Rightarrow> False)"

section \<open>Operations\<close>

definition validate :: "quota_store \<Rightarrow> quota_request \<Rightarrow> (quota_policy \<times> int, quota_error) result" where
  "validate s request =
     (case byOperation s (qr_operation request) of
        None \<Rightarrow> Err Quota_Unknown_Operation
      | Some p \<Rightarrow>
          if \<not> isValidPrincipal (qr_principal request) then Err Quota_Invalid_Principal
          else case (case qr_cost request of None \<Rightarrow> JInt 1 | Some c \<Rightarrow> c) of
                 JInt c \<Rightarrow> if c < 1 then Err Quota_Invalid_Cost else Ok (p, c)
               | JNonInt \<Rightarrow> Err Quota_Invalid_Cost)"

definition quota_actor :: "quota_request \<Rightarrow> string" where
  "quota_actor request = (case qr_actorType request of Some a \<Rightarrow> a | None \<Rightarrow> ''user'')"

definition quota_error_code :: "quota_error \<Rightarrow> string" where
  "quota_error_code e =
     (case e of
        Quota_Exceeded \<Rightarrow> ''quota_exceeded''
      | Quota_Unknown_Operation \<Rightarrow> ''quota_unknown_operation''
      | Quota_Invalid_Principal \<Rightarrow> ''quota_invalid_principal''
      | Quota_Invalid_Cost \<Rightarrow> ''quota_invalid_cost''
      | Quota_Override_Denied \<Rightarrow> ''quota_override_denied''
      | Quota_Override_Invalid \<Rightarrow> ''quota_override_invalid''
      | Quota_Override_Not_Found \<Rightarrow> ''quota_override_not_found''
      | Quota_Diagnostics_Denied \<Rightarrow> ''quota_diagnostics_denied'')"

text \<open>What a refused spend writes: its reservation back, the denial count, the history.\<close>

definition record_refusal ::
  "quota_store \<Rightarrow> quota_policy \<Rightarrow> string \<Rightarrow> int \<Rightarrow> int \<Rightarrow> nat \<Rightarrow> limit_scope \<Rightarrow> int option \<Rightarrow> string \<Rightarrow>
     quota_store" where
  "record_refusal s p who cost at callId refusedBy limit correlationId =
     (let s1 = releaseCounter s p who cost at callId;
          s2 = releaseCounter s1 p QUOTA_GLOBAL_SUBJECT cost at callId;
          subject = (if refusedBy = By_Principal then who else QUOTA_GLOBAL_SUBJECT);
          counter = readCounter s2 p subject at;
          denied = cnt_denied counter + 1;
          s3 = (case reservationFor s2 p subject at of
                  Some live \<Rightarrow> s2\<lparr>qs_reserved := map_set (reservedKey (pol_operation p) subject)
                    (live\<lparr>rsv_denied := denied\<rparr>) (qs_reserved s2)\<rparr>
                | None \<Rightarrow> s2);
          current = readStoredCounter s3 p subject at;
          s4 = writeCounter (pol_operation p) subject
            (current\<lparr>cnt_denied := max (cnt_denied current) denied\<rparr>) s3
      in s4\<lparr>qs_denials := slice_last QUOTA_DENIAL_HISTORY (qs_denials s4 @
           [\<lparr>dn_at = at, dn_operation = pol_operation p, dn_principal = who,
             dn_scope = refusedBy, dn_cost = cost, dn_used = cnt_used counter,
             dn_limit = limit, dn_correlationId = correlationId\<rparr>])\<rparr>)"

definition reserve_spend ::
  "quota_store \<Rightarrow> quota_policy \<Rightarrow> string \<Rightarrow> int \<Rightarrow> int \<Rightarrow> nat \<Rightarrow> bool \<Rightarrow> quota_store" where
  "reserve_spend s p who cost at callId spend =
     (if spend
      then reserveCounter (reserveCounter s p who cost at callId) p QUOTA_GLOBAL_SUBJECT cost at callId
      else s)"

definition commit_spend ::
  "quota_store \<Rightarrow> quota_policy \<Rightarrow> string \<Rightarrow> int \<Rightarrow> int \<Rightarrow> nat \<Rightarrow> quota_store" where
  "commit_spend s p who cost at callId =
     commitCounter (commitCounter s p who cost at callId) p QUOTA_GLOBAL_SUBJECT cost at callId"

type_synonym quota_failure = "quota_error \<times> quota_denial option"

definition retry_after :: "int option \<times> bool \<Rightarrow> int \<Rightarrow> quota_policy \<Rightarrow> int \<Rightarrow> int option" where
  "retry_after limit windowStart p at =
     (if snd limit \<and> fst limit = Some 0 then None
      else Some (max 0 (windowStart + pol_windowMs p - at)))"

text \<open>\<open>evaluate\<close> after validation, with the call id already drawn.\<close>

definition evaluate_valid ::
  "quota_store \<Rightarrow> int \<Rightarrow> string \<Rightarrow> quota_request \<Rightarrow> quota_policy \<Rightarrow> int \<Rightarrow> bool \<Rightarrow>
     (quota_receipt, quota_failure) result \<times> quota_store \<times> effect list" where
  "evaluate_valid s at correlationId request p cost spend =
     (let callId = qs_nextCallId s;
          who = qr_principal request;
          s1 = reserve_spend s p who cost at callId spend;
          own = readCounter s1 p who at;
          shared = readCounter s1 p QUOTA_GLOBAL_SUBJECT at;
          (ownLimit, s2) = effectiveLimit s1 p who at;
          (sharedLimit, s3) = effectiveLimit s2 p QUOTA_GLOBAL_SUBJECT at;
          extra = (if spend then 0 else cost);
          refusedBy =
            (if over_limit (cnt_used own + extra) (fst ownLimit) then Some By_Principal
             else if over_limit (cnt_used shared + extra) (fst sharedLimit) then Some By_Global
             else None)
      in case refusedBy of
           Some scope \<Rightarrow>
             let limit = (if scope = By_Principal then ownLimit else sharedLimit);
                 windowStart = cnt_windowStart (if scope = By_Principal then own else shared);
                 s4 = (if spend
                       then record_refusal s3 p who cost at callId scope (fst limit) correlationId
                       else s3)
             in (Err (Quota_Exceeded, Some
                  \<lparr>qd_operation = pol_operation p, qd_resource = pol_resource p, qd_scope = scope,
                   qd_retryAfterMs = retry_after limit windowStart p at,
                   qd_correlationId = correlationId\<rparr>),
                 s4,
                 if spend then [emitTelemetry ''quota.consume'' (quota_actor request) False (Some ''quota_exceeded'')]
                 else [])
         | None \<Rightarrow>
             (Ok \<lparr>rc_operation = pol_operation p, rc_principal = who, rc_cost = cost,
                  rc_windowStart = cnt_windowStart own,
                  rc_remaining = max 0 (the (fst ownLimit) - cnt_used own - extra),
                  rc_resetAt = cnt_windowStart own + pol_windowMs p,
                  rc_correlationId = correlationId\<rparr>,
              if spend then commit_spend s3 p who cost at callId else s3,
              if spend then [emitTelemetry ''quota.consume'' (quota_actor request) True None] else []))"

definition evaluate ::
  "quota_store \<Rightarrow> int \<Rightarrow> string \<Rightarrow> quota_request \<Rightarrow> bool \<Rightarrow>
     (quota_receipt, quota_failure) result \<times> quota_store \<times> effect list" where
  "evaluate s at cid request spend =
     (let correlationId = (case qr_correlationId request of Some c \<Rightarrow> c | None \<Rightarrow> cid) in
      case validate s request of
        Err e \<Rightarrow> (Err (e, None), s,
          [emitTelemetry ''quota.consume'' (quota_actor request) False (Some (quota_error_code e))])
      | Ok (p, cost) \<Rightarrow>
          evaluate_valid (s\<lparr>qs_nextCallId := qs_nextCallId s + 1\<rparr>) at correlationId request p cost spend)"

definition quota_check ::
  "quota_store \<Rightarrow> int \<Rightarrow> string \<Rightarrow> quota_request \<Rightarrow>
     (quota_receipt, quota_failure) result \<times> quota_store \<times> effect list" where
  "quota_check s at cid request = evaluate s at cid request False"

definition consume ::
  "quota_store \<Rightarrow> int \<Rightarrow> string \<Rightarrow> quota_request \<Rightarrow>
     (quota_receipt, quota_failure) result \<times> quota_store \<times> effect list" where
  "consume s at cid request = evaluate s at cid request True"

definition refund_token :: "quota_receipt \<Rightarrow> string" where
  "refund_token r = rc_operation r @ ''|'' @ rc_principal r @ ''|'' @ int_text (rc_windowStart r) @
     ''|'' @ rc_correlationId r"

definition refund_subject :: "quota_policy \<Rightarrow> int \<Rightarrow> int \<Rightarrow> string \<Rightarrow> quota_store \<Rightarrow> quota_store" where
  "refund_subject p cost at subject s =
     (let counter = readCounter s p subject at in
      writeCounter (pol_operation p) subject (counter\<lparr>cnt_used := max 0 (cnt_used counter - cost)\<rparr>) s)"

definition refund :: "quota_store \<Rightarrow> int \<Rightarrow> quota_receipt \<Rightarrow> quota_store \<times> effect list" where
  "refund s at receipt =
     (case byOperation s (rc_operation receipt) of
        None \<Rightarrow> (s, [])
      | Some p \<Rightarrow>
          if refund_token receipt \<in> set (qs_refunded s) then (s, [])
          else
            let s1 = s\<lparr>qs_refunded := set_add (refund_token receipt) (qs_refunded s)\<rparr> in
            if windowStartOf p at \<noteq> rc_windowStart receipt then (s1, [])
            else
              (refund_subject p (rc_cost receipt) at QUOTA_GLOBAL_SUBJECT
                 (refund_subject p (rc_cost receipt) at (rc_principal receipt) s1),
               [emitTelemetry ''quota.refund'' ''system'' True None]))"

definition quota_remaining ::
  "quota_store \<Rightarrow> int \<Rightarrow> string \<Rightarrow> string \<Rightarrow> (int \<times> int, quota_error) result \<times> quota_store" where
  "quota_remaining s at operation who =
     (case byOperation s operation of
        None \<Rightarrow> (Err Quota_Unknown_Operation, s)
      | Some p \<Rightarrow>
          if \<not> isValidPrincipal who then (Err Quota_Invalid_Principal, s)
          else
            let counter = readCounter s p who at;
                ((limit, _), s') = effectiveLimit s p who at
            in (Ok (max 0 (the limit - cnt_used counter), cnt_windowStart counter + pol_windowMs p), s'))"

section \<open>Overrides\<close>

text \<open>
  The actor of an override is an audit actor. The limit and the lifetime of a grant
  are numbers; a lifetime is an integer or not finite.
\<close>

definition requireMaintainer :: "audit_actor \<Rightarrow> bool" where
  "requireMaintainer actor =
     (actor_kind actor = Maintainer \<and> (case actor_id actor of Some i \<Rightarrow> i \<noteq> [] | None \<Rightarrow> False))"

definition auditOverride ::
  "string \<Rightarrow> audit_actor \<Rightarrow> string \<Rightarrow> string \<Rightarrow> string \<Rightarrow> audit_outcome \<Rightarrow> context_map option \<Rightarrow>
     string option \<Rightarrow> string option \<Rightarrow> effect" where
  "auditOverride action actor operation subject reason outcome after correlationId errorCode =
     Audit \<lparr>in_action = action, in_actor = actor, in_scope = Some Maintainer_Scope,
       in_target_kind = ''quota_override'', in_target_id = operation @ ''|'' @ subject,
       in_reason = (if reason_pattern reason then Some reason else None),
       in_outcome = Some outcome, in_before = None, in_after = after, in_at = None,
       in_correlationId = correlationId, in_errorCode = errorCode\<rparr>"

record grant_input =
  gi_operation :: string
  gi_subject :: string
  gi_limit :: js_number
  gi_reason :: string
  gi_ttlMs :: js_number
  gi_correlationId :: "string option"

definition grant_valid :: "quota_policy \<Rightarrow> grant_input \<Rightarrow> bool" where
  "grant_valid p input =
     ((gi_subject input = QUOTA_GLOBAL_SUBJECT \<or> isValidPrincipal (gi_subject input)) \<and>
      (case gi_limit input of JInt l \<Rightarrow> 0 \<le> l \<and> l \<le> ceilingOf p | JNonInt \<Rightarrow> False) \<and>
      (case gi_ttlMs input of JInt t \<Rightarrow> 0 < t \<and> t \<le> QUOTA_MAX_OVERRIDE_TTL_MS | JNonInt \<Rightarrow> False) \<and>
      reason_pattern (gi_reason input))"

fun int_of_number :: "js_number \<Rightarrow> int" where
  "int_of_number (JInt i) = i"
| "int_of_number JNonInt = 0"

definition number_or_null :: "int option \<Rightarrow> scalar" where
  "number_or_null n = (case n of Some i \<Rightarrow> SNum (JInt i) | None \<Rightarrow> SNull)"

definition granted_override :: "audit_actor \<Rightarrow> int \<Rightarrow> grant_input \<Rightarrow> quota_override" where
  "granted_override actor at input =
     \<lparr>ov_operation = gi_operation input, ov_subject = gi_subject input,
      ov_limit = int_of_number (gi_limit input), ov_reason = gi_reason input,
      ov_grantedBy = the (actor_id actor), ov_grantedAt = at,
      ov_expiresAt = at + int_of_number (gi_ttlMs input)\<rparr>"

definition grantOverride ::
  "quota_store \<Rightarrow> int \<Rightarrow> string \<Rightarrow> audit_actor \<Rightarrow> grant_input \<Rightarrow>
     (quota_override, quota_error) result \<times> quota_store \<times> effect list" where
  "grantOverride s at cid actor input =
     (let correlationId = (case gi_correlationId input of Some c \<Rightarrow> c | None \<Rightarrow> cid);
          audit = auditOverride ''quota.override_granted'' actor (gi_operation input)
                    (gi_subject input) (gi_reason input)
      in if \<not> requireMaintainer actor then
           (Err Quota_Override_Denied, s,
            [audit Denied None (Some correlationId) (Some ''quota_override_denied'')])
         else case byOperation s (gi_operation input) of
           None \<Rightarrow> (Err Quota_Unknown_Operation, s, [])
         | Some p \<Rightarrow>
             if \<not> grant_valid p input then
               (Err Quota_Override_Invalid, s,
                [audit Denied (Some [(''limit'', SNum (gi_limit input)), (''ttlMs'', SNum (gi_ttlMs input))])
                   (Some correlationId) (Some ''quota_override_invalid'')])
             else
               let (previous, s1) = readOverride s (gi_operation input) (gi_subject input) at;
                   ov = granted_override actor at input
               in (Ok ov,
                   s1\<lparr>qs_storage := map_set (overrideKey (gi_operation input) (gi_subject input))
                        (Override_Cell ov) (qs_storage s1),
                      qs_overrideKeys := set_add (gi_operation input @ ''|'' @ gi_subject input)
                        (qs_overrideKeys s1)\<rparr>,
                   [audit Allowed
                      (Some [(''limit'', SNum (JInt (ov_limit ov))),
                             (''previousLimit'', number_or_null (map_option ov_limit previous)),
                             (''policyLimit'', number_or_null (policy_limit p (gi_subject input))),
                             (''expiresAt'', SStr (toISOString (ov_expiresAt ov)))])
                      (Some correlationId) None,
                    emitTelemetry ''quota.override'' ''user'' True None]))"

definition revokeOverride ::
  "quota_store \<Rightarrow> int \<Rightarrow> audit_actor \<Rightarrow> string \<Rightarrow> string \<Rightarrow> string \<Rightarrow>
     (quota_override, quota_error) result \<times> quota_store \<times> effect list" where
  "revokeOverride s at actor operation subject reason =
     (let audit = auditOverride ''quota.override_revoked'' actor operation subject reason in
      if \<not> requireMaintainer actor then
        (Err Quota_Override_Denied, s, [audit Denied None None (Some ''quota_override_denied'')])
      else if \<not> reason_pattern reason then (Err Quota_Override_Invalid, s, [])
      else case readOverride s operation subject at of
        (None, s1) \<Rightarrow> (Err Quota_Override_Not_Found, s1, [])
      | (Some existing, s1) \<Rightarrow>
          (Ok existing,
           s1\<lparr>qs_storage := map_remove (overrideKey operation subject) (qs_storage s1),
              qs_overrideKeys := removeAll (operation @ ''|'' @ subject) (qs_overrideKeys s1)\<rparr>,
           [audit Allowed (Some [(''limit'', SNum (JInt (ov_limit existing))),
              (''grantedBy'', SStr (ov_grantedBy existing))]) None None]))"

section \<open>Diagnostics and reset\<close>

text \<open>\<open>entry.slice(0, lastIndexOf("|"))\<close> and the rest after it.\<close>

definition split_entry :: "string \<Rightarrow> string \<times> string" where
  "split_entry entry =
     (let r = rev entry; subject = rev (takeWhile (\<lambda>c. c \<noteq> CHR ''|'') r);
          rest = dropWhile (\<lambda>c. c \<noteq> CHR ''|'') r
      in (rev (tl rest), subject))"

record quota_usage =
  us_operation :: string
  us_resource :: quota_resource
  us_subject :: string
  us_used :: int
  us_limit :: "int option"
  us_policyLimit :: "int option"
  us_overridden :: bool
  us_denied :: int
  us_windowStart :: int
  us_resetAt :: int

fun usage_of :: "int \<Rightarrow> string list \<Rightarrow> quota_store \<Rightarrow> quota_usage list \<times> quota_store" where
  "usage_of at [] s = ([], s)"
| "usage_of at (entry # entries) s =
     (let (operation, subject) = split_entry entry in
      case byOperation s operation of
        None \<Rightarrow> usage_of at entries s
      | Some p \<Rightarrow>
          let counter = readCounter s p subject at in
          if cnt_used counter = 0 \<and> cnt_denied counter = 0 then usage_of at entries s
          else
            let ((limit, overridden), s1) = effectiveLimit s p subject at;
                (rest, s2) = usage_of at entries s1
            in (\<lparr>us_operation = operation, us_resource = pol_resource p, us_subject = subject,
                 us_used = cnt_used counter, us_limit = limit, us_policyLimit = policy_limit p subject,
                 us_overridden = overridden, us_denied = cnt_denied counter,
                 us_windowStart = cnt_windowStart counter,
                 us_resetAt = cnt_windowStart counter + pol_windowMs p\<rparr> # rest, s2))"

fun overrides_of :: "int \<Rightarrow> string list \<Rightarrow> quota_store \<Rightarrow> quota_override list \<times> quota_store" where
  "overrides_of at [] s = ([], s)"
| "overrides_of at (entry # entries) s =
     (let (operation, subject) = split_entry entry;
          (active, s1) = readOverride s operation subject at;
          (rest, s2) = overrides_of at entries s1
      in ((case active of Some ov \<Rightarrow> ov # rest | None \<Rightarrow> rest), s2))"

record quota_diagnostics =
  dg_generatedAt :: int
  dg_policies :: "quota_policy list"
  dg_usage :: "quota_usage list"
  dg_overrides :: "quota_override list"
  dg_denials :: "denial_record list"

definition diagnose ::
  "quota_store \<Rightarrow> int \<Rightarrow> audit_actor \<Rightarrow> (quota_diagnostics, quota_error) result \<times> quota_store" where
  "diagnose s at actor =
     (if \<not> requireMaintainer actor then (Err Quota_Diagnostics_Denied, s)
      else
        let (usage, s1) = usage_of at (sort (qs_touched s)) s;
            (overrides, s2) = overrides_of at (sort (qs_overrideKeys s1)) s1
        in (Ok \<lparr>dg_generatedAt = at, dg_policies = qs_policies s2, dg_usage = usage,
                dg_overrides = overrides, dg_denials = qs_denials s2\<rparr>, s2))"

definition quota_reset :: "quota_store \<Rightarrow> quota_store" where
  "quota_reset s =
     (let st1 = fold (\<lambda>e. map_remove (counterKey (fst (split_entry e)) (snd (split_entry e))))
                  (qs_touched s) (qs_storage s);
          st2 = fold (\<lambda>e. map_remove (overrideKey (fst (split_entry e)) (snd (split_entry e))))
                  (qs_overrideKeys s) st1
      in s\<lparr>qs_storage := st2, qs_touched := [], qs_overrideKeys := [], qs_refunded := [],
           qs_reserved := [], qs_denials := []\<rparr>)"

section \<open>Wrapped work and user messages\<close>

text \<open>
  \<open>withQuota\<close> consumes before the \<open>await\<close> of the run; this is what follows it. A run
  that throws keeps the spend.
\<close>

definition withQuota_settle ::
  "quota_store \<Rightarrow> int \<Rightarrow> quota_receipt \<Rightarrow> string list option \<Rightarrow> 'a run_outcome \<Rightarrow>
     'a run_outcome \<times> quota_store \<times> effect list" where
  "withQuota_settle s at receipt refundOn outcome =
     (case (outcome, refundOn) of
        (Settled (Err code), Some codes) \<Rightarrow>
          if code \<in> set codes then let (s', fx) = refund s at receipt in (outcome, s', fx)
          else (outcome, s, [])
      | _ \<Rightarrow> (outcome, s, []))"

record quota_message =
  qm_title :: string
  qm_message :: string
  qm_retryAfterSeconds :: "int option"

fun resource_noun :: "quota_resource \<Rightarrow> string" where
  "resource_noun R_storage = ''requests of this kind''"
| "resource_noun R_compute = ''requests of this kind''"
| "resource_noun R_external_api = ''lookups''"
| "resource_noun R_indexing = ''rebuild or analysis requests''"

definition ceil_div :: "int \<Rightarrow> int \<Rightarrow> int" where
  "ceil_div a b = - ((- a) div b)"

definition plural :: "int \<Rightarrow> string" where
  "plural n = (if n = 1 then [] else ''s'')"

definition formatWait :: "int \<Rightarrow> string" where
  "formatWait seconds =
     (if seconds < 60 then int_text seconds @ '' second'' @ plural seconds
      else
        let minutes = ceil_div seconds 60 in
        if minutes < 60 then int_text minutes @ '' minute'' @ plural minutes
        else
          let hours = ceil_div minutes 60 in int_text hours @ '' hour'' @ plural hours)"

definition describeQuotaError :: "quota_error \<Rightarrow> quota_denial option \<Rightarrow> quota_message" where
  "describeQuotaError code denial =
     (case (code, denial) of
        (Quota_Exceeded, Some d) \<Rightarrow>
          let reference = '' Reference: '' @ qd_correlationId d @ ''.'' in
          (case qd_retryAfterMs d of
             None \<Rightarrow>
               \<lparr>qm_title = ''Action unavailable'',
                qm_message = ''This action is currently unavailable for your account. Contact support if you think this is a mistake.'' @ reference,
                qm_retryAfterSeconds = None\<rparr>
           | Some ms \<Rightarrow>
               let seconds = max 1 (ceil_div ms 1000) in
               if qd_scope d = By_Global then
                 \<lparr>qm_title = ''Busy right now'',
                  qm_message = ''We are handling a lot of '' @ resource_noun (qd_resource d) @
                    '' at the moment. Please try again in '' @ formatWait seconds @ ''.'' @ reference,
                  qm_retryAfterSeconds = Some seconds\<rparr>
               else
                 \<lparr>qm_title = ''Limit reached'',
                  qm_message = ''You have made too many '' @ resource_noun (qd_resource d) @
                    '' recently. You can try again in '' @ formatWait seconds @ ''.'' @ reference,
                  qm_retryAfterSeconds = Some seconds\<rparr>)
      | _ \<Rightarrow>
          \<lparr>qm_title = ''Request not accepted'',
           qm_message =
             (if code = Quota_Override_Denied \<or> code = Quota_Diagnostics_Denied
              then ''You do not have permission to do that.''
              else ''This request could not be processed. Please try again or contact support.''),
           qm_retryAfterSeconds = None\<rparr>)"

section \<open>Counters under the operations\<close>

definition used :: "quota_store \<Rightarrow> quota_policy \<Rightarrow> string \<Rightarrow> int \<Rightarrow> int" where
  "used s p subject at = cnt_used (readStoredCounter s p subject at)"

definition limit_at :: "quota_store \<Rightarrow> quota_policy \<Rightarrow> string \<Rightarrow> int \<Rightarrow> int option" where
  "limit_at s p subject at = fst (fst (effectiveLimit s p subject at))"

lemma keys_differ [simp]:
  "counterKey a b \<noteq> overrideKey c d" "overrideKey c d \<noteq> counterKey a b"
  by (simp_all add: counterKey_def overrideKey_def)

lemma counterKey_same [simp]: "counterKey a x = counterKey a y \<longleftrightarrow> x = y"
  by (simp add: counterKey_def)

lemma overrideKey_same [simp]: "overrideKey a x = overrideKey a y \<longleftrightarrow> x = y"
  by (simp add: overrideKey_def)

lemma reservedKey_same [simp]: "reservedKey a x = reservedKey a y \<longleftrightarrow> x = y"
  by (simp add: reservedKey_def)

lemma bar_split: "a @ CHR ''|'' # x = b @ CHR ''|'' # y \<Longrightarrow> CHR ''|'' \<notin> set x \<Longrightarrow>
    CHR ''|'' \<notin> set y \<Longrightarrow> a = b \<and> x = y"
proof (induction a arbitrary: b)
  case Nil
  then show ?case by (cases b) auto
next
  case (Cons c a)
  then show ?case by (cases b) auto
qed

lemma counterKey_inject:
  "CHR ''|'' \<notin> set x \<Longrightarrow> CHR ''|'' \<notin> set y \<Longrightarrow> counterKey a x = counterKey b y \<longleftrightarrow> a = b \<and> x = y"
  using bar_split [of a x b y] by (auto simp: counterKey_def)

lemma readStored_frame [simp]:
  "readStoredCounter (s\<lparr>qs_reserved := r\<rparr>) p x at = readStoredCounter s p x at"
  "readStoredCounter (s\<lparr>qs_nextCallId := n\<rparr>) p x at = readStoredCounter s p x at"
  "readStoredCounter (s\<lparr>qs_denials := d\<rparr>) p x at = readStoredCounter s p x at"
  "readStoredCounter (s\<lparr>qs_refunded := f\<rparr>) p x at = readStoredCounter s p x at"
  "readStoredCounter (s\<lparr>qs_touched := t\<rparr>) p x at = readStoredCounter s p x at"
  by (simp_all add: readStoredCounter_def)

lemma readStored_override [simp]:
  "readStoredCounter (snd (readOverride s oper subj t)) p x at = readStoredCounter s p x at"
  by (auto simp: readStoredCounter_def readOverride_def map_get_remove split: option.split quota_cell.split)

lemma effectiveLimit_snd: "snd (effectiveLimit s p x at) = snd (readOverride s (pol_operation p) x at)"
  by (auto simp: effectiveLimit_def split: prod.split option.split)

lemma readOverride_frame [simp]:
  "qs_reserved (snd (readOverride s oper x at)) = qs_reserved s"
  "qs_policies (snd (readOverride s oper x at)) = qs_policies s"
  "qs_refunded (snd (readOverride s oper x at)) = qs_refunded s"
  "qs_denials (snd (readOverride s oper x at)) = qs_denials s"
  by (auto simp: readOverride_def split: option.split quota_cell.split)

lemma readStored_window [simp]: "cnt_windowStart (readStoredCounter s p x at) = windowStartOf p at"
  by (auto simp: readStoredCounter_def Let_def split: option.split quota_cell.split)

lemma readStored_write_same:
  "cnt_windowStart c = windowStartOf p at \<Longrightarrow>
     readStoredCounter (writeCounter (pol_operation p) x c s) p x at = c"
  by (simp add: readStoredCounter_def writeCounter_def Let_def)

lemma readStored_write_other:
  "counterKey oper x \<noteq> counterKey (pol_operation p) y \<Longrightarrow>
     readStoredCounter (writeCounter oper x c s) p y at = readStoredCounter s p y at"
  by (simp add: readStoredCounter_def writeCounter_def map_get_set)

lemma writeCounter_frame [simp]:
  "qs_reserved (writeCounter oper x c s) = qs_reserved s"
  "qs_policies (writeCounter oper x c s) = qs_policies s"
  "qs_denials (writeCounter oper x c s) = qs_denials s"
  "qs_refunded (writeCounter oper x c s) = qs_refunded s"
  by (simp_all add: writeCounter_def)

text \<open>
  Between calls no reservation is held. A call holds exactly its own two, one per
  counter, until it commits or releases them.
\<close>

definition own_reservation ::
  "quota_store \<Rightarrow> quota_policy \<Rightarrow> string \<Rightarrow> int \<Rightarrow> int \<Rightarrow> nat \<Rightarrow> reservation" where
  "own_reservation s p x cost at callId =
     (let c = readStoredCounter s p x at in
      \<lparr>rsv_windowStart = windowStartOf p at, rsv_used = cnt_used c + cost, rsv_denied = cnt_denied c,
       rsv_owners = [(callId, cost)], rsv_unwritten = cost\<rparr>)"

definition holds ::
  "quota_store \<Rightarrow> quota_policy \<Rightarrow> string \<Rightarrow> int \<Rightarrow> int \<Rightarrow> nat \<Rightarrow> bool" where
  "holds s p who cost at callId =
     (qs_reserved s =
        [(reservedKey (pol_operation p) who, own_reservation s p who cost at callId),
         (reservedKey (pol_operation p) QUOTA_GLOBAL_SUBJECT,
          own_reservation s p QUOTA_GLOBAL_SUBJECT cost at callId)])"

lemma own_reservation_frame [simp]:
  "own_reservation (s\<lparr>qs_reserved := r\<rparr>) p x cost at callId = own_reservation s p x cost at callId"
  by (simp add: own_reservation_def)

lemma reserve_spend_holds:
  assumes "qs_reserved s = []" "who \<noteq> QUOTA_GLOBAL_SUBJECT"
  shows "reserve_spend s p who cost at callId True =
      s\<lparr>qs_reserved := [(reservedKey (pol_operation p) who, own_reservation s p who cost at callId),
         (reservedKey (pol_operation p) QUOTA_GLOBAL_SUBJECT,
          own_reservation s p QUOTA_GLOBAL_SUBJECT cost at callId)]\<rparr>"
proof -
  have one: "reserveCounter s p who cost at callId =
      s\<lparr>qs_reserved := [(reservedKey (pol_operation p) who, own_reservation s p who cost at callId)]\<rparr>"
    using assms(1)
    by (simp add: reserveCounter_def reservationFor_def own_reservation_def Let_def map_set_def)
  show ?thesis
    using assms(2)
    by (simp add: reserve_spend_def one)
      (simp add: reserveCounter_def reservationFor_def own_reservation_def Let_def map_set_def map_get_def)
qed

lemma holds_override:
  "holds s p who cost at callId \<Longrightarrow> holds (snd (readOverride s oper x t)) p who cost at callId"
  by (simp add: holds_def own_reservation_def Let_def)

lemma holds_read:
  assumes "holds s p who cost at callId" "who \<noteq> QUOTA_GLOBAL_SUBJECT" "x \<in> {who, QUOTA_GLOBAL_SUBJECT}"
  shows "readCounter s p x at =
    (readStoredCounter s p x at)\<lparr>cnt_used := cnt_used (readStoredCounter s p x at) + cost\<rparr>"
  using assms
  by (auto simp: holds_def readCounter_def reservationFor_def map_get_def own_reservation_def Let_def
      split: option.split)

text \<open>The two writes of a committed spend.\<close>

definition spend_counter :: "quota_policy \<Rightarrow> string \<Rightarrow> int \<Rightarrow> int \<Rightarrow> quota_store \<Rightarrow> quota_store" where
  "spend_counter p x cost at s =
     (let c = readStoredCounter s p x at in
      writeCounter (pol_operation p) x (c\<lparr>cnt_used := cnt_used c + cost\<rparr>) s)"

lemma commit_spend_eq:
  assumes "holds s p who cost at callId" "who \<noteq> QUOTA_GLOBAL_SUBJECT"
  shows "commit_spend s p who cost at callId =
    (spend_counter p QUOTA_GLOBAL_SUBJECT cost at (spend_counter p who cost at s))\<lparr>qs_reserved := []\<rparr>"
proof -
  let ?k2 = "reservedKey (pol_operation p) QUOTA_GLOBAL_SUBJECT"
  let ?e2 = "own_reservation s p QUOTA_GLOBAL_SUBJECT cost at callId"
  have one: "commitCounter s p who cost at callId = (spend_counter p who cost at s)\<lparr>qs_reserved := [(?k2, ?e2)]\<rparr>"
    using assms
    by (simp add: commitCounter_def holds_def reservationFor_def map_get_def map_remove_def
        own_reservation_def Let_def keep_reservation_def spend_counter_def writeCounter_def)
  have "readStoredCounter (spend_counter p who cost at s) p QUOTA_GLOBAL_SUBJECT at =
      readStoredCounter s p QUOTA_GLOBAL_SUBJECT at"
    using assms(2) by (simp add: spend_counter_def Let_def readStored_write_other)
  then show ?thesis
    unfolding commit_spend_def one
    by (simp add: commitCounter_def reservationFor_def map_get_def map_remove_def
        own_reservation_def Let_def keep_reservation_def spend_counter_def [of _ QUOTA_GLOBAL_SUBJECT]
        writeCounter_def)
qed

lemma release_both:
  assumes "holds s p who cost at callId" "who \<noteq> QUOTA_GLOBAL_SUBJECT"
  shows "releaseCounter (releaseCounter s p who cost at callId) p QUOTA_GLOBAL_SUBJECT cost at callId =
    s\<lparr>qs_reserved := []\<rparr>"
  using assms
  by (simp add: releaseCounter_def holds_def reservationFor_def map_get_def map_remove_def
      own_reservation_def Let_def keep_reservation_def)

definition refuse_counter :: "quota_policy \<Rightarrow> string \<Rightarrow> int \<Rightarrow> quota_store \<Rightarrow> quota_store" where
  "refuse_counter p x at s =
     (let c = readStoredCounter s p x at in
      writeCounter (pol_operation p) x (c\<lparr>cnt_denied := cnt_denied c + 1\<rparr>) s)"

lemma record_refusal_eq:
  assumes "holds s p who cost at callId" "who \<noteq> QUOTA_GLOBAL_SUBJECT"
  shows "\<exists>ds. record_refusal s p who cost at callId scope limit correlationId =
    (refuse_counter p (if scope = By_Principal then who else QUOTA_GLOBAL_SUBJECT) at s)
      \<lparr>qs_reserved := [], qs_denials := ds\<rparr>"
proof -
  let ?r = "record_refusal s p who cost at callId scope limit correlationId"
  have "?r = (refuse_counter p (if scope = By_Principal then who else QUOTA_GLOBAL_SUBJECT) at s)
      \<lparr>qs_reserved := [], qs_denials := qs_denials ?r\<rparr>"
    using release_both [OF assms]
    by (intro quota_store.equality)
      (simp_all add: record_refusal_def Let_def readCounter_def reservationFor_def refuse_counter_def
        writeCounter_def)
  then show ?thesis by blast
qed

lemma validate_Ok:
  "validate s request = Ok (p, cost) \<Longrightarrow>
     byOperation s (qr_operation request) = Some p \<and> isValidPrincipal (qr_principal request) \<and> cost \<ge> 1"
  by (auto simp: validate_def split: option.splits if_splits js_number.splits)

lemma valid_not_global: "isValidPrincipal who \<Longrightarrow> who \<noteq> QUOTA_GLOBAL_SUBJECT"
  by (simp add: isValidPrincipal_def)

lemma valid_no_bar: "isValidPrincipal who \<Longrightarrow> CHR ''|'' \<notin> set who"
  by (auto simp: isValidPrincipal_def principal_pattern_def list_all_iff is_upper_def is_lower_def
      is_digit_def code_of_def)

lemma limit_after_override:
  "x \<noteq> y \<Longrightarrow> fst (fst (effectiveLimit (snd (readOverride s (pol_operation p) x at)) p y at)) = limit_at s p y at"
  by (auto simp: limit_at_def effectiveLimit_def readOverride_def map_get_remove
      split: option.split quota_cell.split prod.split)

lemma limit_reserved [simp]:
  "effectiveLimit (s\<lparr>qs_reserved := r\<rparr>) p x at =
     (fst (effectiveLimit s p x at), (snd (effectiveLimit s p x at))\<lparr>qs_reserved := r\<rparr>)"
  by (auto simp: effectiveLimit_def readOverride_def split: option.split quota_cell.split prod.split)

text \<open>The decision of a call, on the counters as they stand.\<close>

definition fits :: "quota_store \<Rightarrow> quota_policy \<Rightarrow> string \<Rightarrow> int \<Rightarrow> int \<Rightarrow> bool" where
  "fits s p who cost at =
     (\<not> over_limit (used s p who at + cost) (limit_at s p who at) \<and>
      \<not> over_limit (used s p QUOTA_GLOBAL_SUBJECT at + cost) (limit_at s p QUOTA_GLOBAL_SUBJECT at))"

text \<open>The store after the overrides of both subjects were read.\<close>

definition swept :: "quota_store \<Rightarrow> quota_policy \<Rightarrow> string \<Rightarrow> int \<Rightarrow> quota_store" where
  "swept s p who at =
     snd (readOverride (snd (readOverride s (pol_operation p) who at)) (pol_operation p) QUOTA_GLOBAL_SUBJECT at)"

lemma counter_writes_reserved [simp]:
  "spend_counter p x cost at (s\<lparr>qs_reserved := r\<rparr>) = (spend_counter p x cost at s)\<lparr>qs_reserved := r\<rparr>"
  "refuse_counter p x at (s\<lparr>qs_reserved := r\<rparr>) = (refuse_counter p x at s)\<lparr>qs_reserved := r\<rparr>"
  by (simp_all add: spend_counter_def refuse_counter_def writeCounter_def Let_def)

lemma swept_limits:
  assumes "who \<noteq> QUOTA_GLOBAL_SUBJECT"
  obtains ownLimit sharedLimit s2 where
    "effectiveLimit s p who at = (ownLimit, s2)" "fst ownLimit = limit_at s p who at"
    "effectiveLimit s2 p QUOTA_GLOBAL_SUBJECT at = (sharedLimit, swept s p who at)"
    "fst sharedLimit = limit_at s p QUOTA_GLOBAL_SUBJECT at"
proof -
  let ?s2 = "snd (effectiveLimit s p who at)"
  have "effectiveLimit ?s2 p QUOTA_GLOBAL_SUBJECT at =
      (fst (effectiveLimit ?s2 p QUOTA_GLOBAL_SUBJECT at), swept s p who at)"
    by (simp add: effectiveLimit_snd swept_def prod_eq_iff)
  moreover have "fst (fst (effectiveLimit ?s2 p QUOTA_GLOBAL_SUBJECT at)) = limit_at s p QUOTA_GLOBAL_SUBJECT at"
    using limit_after_override [OF assms] by (simp add: effectiveLimit_snd)
  ultimately show thesis
    using that [of "fst (effectiveLimit s p who at)" ?s2] by (simp add: limit_at_def)
qed

lemma evaluate_spend:
  assumes "qs_reserved s = []" "isValidPrincipal (qr_principal request)"
  shows "\<exists>res fx s'. evaluate_valid s at cid request p cost True = (res, s', fx) \<and>
    (if fits s p (qr_principal request) cost at
     then isOk res \<and> rc_cost (ok_value res) = cost \<and> rc_operation (ok_value res) = pol_operation p \<and>
       rc_principal (ok_value res) = qr_principal request \<and> rc_windowStart (ok_value res) = windowStartOf p at \<and>
       s' = (spend_counter p QUOTA_GLOBAL_SUBJECT cost at
              (spend_counter p (qr_principal request) cost at (swept s p (qr_principal request) at)))\<lparr>qs_reserved := []\<rparr>
     else \<not> isOk res \<and> (\<exists>x ds. x \<in> {qr_principal request, QUOTA_GLOBAL_SUBJECT} \<and>
       s' = (refuse_counter p x at (swept s p (qr_principal request) at))\<lparr>qs_reserved := [], qs_denials := ds\<rparr>))"
proof -
  define who where "who = qr_principal request"
  have ne: "who \<noteq> QUOTA_GLOBAL_SUBJECT" using assms(2) by (simp add: who_def valid_not_global)
  obtain ol sl s2 where lim: "effectiveLimit s p who at = (ol, s2)" "fst ol = limit_at s p who at"
    "effectiveLimit s2 p QUOTA_GLOBAL_SUBJECT at = (sl, swept s p who at)"
    "fst sl = limit_at s p QUOTA_GLOBAL_SUBJECT at"
    using swept_limits [OF ne, of s p at] by metis
  define R where "R = [(reservedKey (pol_operation p) who, own_reservation s p who cost at (qs_nextCallId s)),
     (reservedKey (pol_operation p) QUOTA_GLOBAL_SUBJECT,
      own_reservation s p QUOTA_GLOBAL_SUBJECT cost at (qs_nextCallId s))]"
  have s1: "reserve_spend s p who cost at (qs_nextCallId s) True = s\<lparr>qs_reserved := R\<rparr>"
    using reserve_spend_holds [OF assms(1) ne] by (simp add: R_def)
  have h: "holds (s\<lparr>qs_reserved := R\<rparr>) p who cost at (qs_nextCallId s)"
    by (simp add: holds_def R_def)
  have h3: "holds ((swept s p who at)\<lparr>qs_reserved := R\<rparr>) p who cost at (qs_nextCallId s)"
    by (simp add: holds_def R_def own_reservation_def swept_def)
  note reads = holds_read [OF h ne, of who, simplified]
    holds_read [OF h ne, of QUOTA_GLOBAL_SUBJECT, simplified]
  note commit = commit_spend_eq [OF h3 ne, simplified]
  note refusal = record_refusal_eq [OF h3 ne, simplified]
  have used: "cnt_used (readStoredCounter s p x at) = used s p x at" for x by (simp add: used_def)
  show ?thesis
  proof (cases "fits s p who cost at")
    case True
    then show ?thesis
      unfolding who_def [symmetric]
      by (simp add: evaluate_valid_def Let_def who_def [symmetric] s1 reads lim used fits_def commit)
  next
    case False
    define scope where
      "scope = (if over_limit (used s p who at + cost) (limit_at s p who at) then By_Principal else By_Global)"
    define x where "x = (if scope = By_Principal then who else QUOTA_GLOBAL_SUBJECT)"
    obtain ds where ds: "record_refusal ((swept s p who at)\<lparr>qs_reserved := R\<rparr>) p who cost at (qs_nextCallId s)
        scope (fst (if scope = By_Principal then ol else sl)) cid =
        (refuse_counter p x at (swept s p who at))\<lparr>qs_reserved := [], qs_denials := ds\<rparr>"
      using refusal [of scope] unfolding x_def by (auto split: if_splits)
    have "\<exists>d fx. evaluate_valid s at cid request p cost True = (Err (Quota_Exceeded, d),
        (refuse_counter p x at (swept s p who at))\<lparr>qs_reserved := [], qs_denials := ds\<rparr>, fx)"
      using False ds
      by (cases "over_limit (used s p who at + cost) (limit_at s p who at)")
        (simp_all add: evaluate_valid_def Let_def who_def [symmetric] s1 reads lim used fits_def scope_def)
    moreover have "x \<in> {who, QUOTA_GLOBAL_SUBJECT}" by (simp add: x_def)
    ultimately show ?thesis using False unfolding who_def [symmetric] by fastforce
  qed
qed

lemma evaluate_spendD:
  assumes "qs_reserved s = []" "isValidPrincipal (qr_principal request)"
    "evaluate_valid s at cid request p cost True = (res, s', fx)"
  shows "(if fits s p (qr_principal request) cost at
     then isOk res \<and> rc_cost (ok_value res) = cost \<and> rc_operation (ok_value res) = pol_operation p \<and>
       rc_principal (ok_value res) = qr_principal request \<and> rc_windowStart (ok_value res) = windowStartOf p at \<and>
       s' = (spend_counter p QUOTA_GLOBAL_SUBJECT cost at
              (spend_counter p (qr_principal request) cost at (swept s p (qr_principal request) at)))\<lparr>qs_reserved := []\<rparr>
     else \<not> isOk res \<and> (\<exists>x ds. x \<in> {qr_principal request, QUOTA_GLOBAL_SUBJECT} \<and>
       s' = (refuse_counter p x at (swept s p (qr_principal request) at))\<lparr>qs_reserved := [], qs_denials := ds\<rparr>))"
  using evaluate_spend [OF assms(1,2), of at cid p cost] assms(3) by simp

text \<open>A read-only call decides the same way and only sweeps expired overrides.\<close>

lemma evaluate_check:
  assumes "qs_reserved s = []" "isValidPrincipal (qr_principal request)"
  shows "\<exists>res fx. evaluate_valid s at cid request p cost False = (res, swept s p (qr_principal request) at, fx) \<and>
    isOk res = fits s p (qr_principal request) cost at"
proof -
  define who where "who = qr_principal request"
  have ne: "who \<noteq> QUOTA_GLOBAL_SUBJECT" using assms(2) by (simp add: who_def valid_not_global)
  obtain ol sl s2 where lim: "effectiveLimit s p who at = (ol, s2)" "fst ol = limit_at s p who at"
    "effectiveLimit s2 p QUOTA_GLOBAL_SUBJECT at = (sl, swept s p who at)"
    "fst sl = limit_at s p QUOTA_GLOBAL_SUBJECT at"
    using swept_limits [OF ne, of s p at] by metis
  have reads: "readCounter s p x at = readStoredCounter s p x at" for x
    using assms(1) by (simp add: readCounter_def reservationFor_def)
  have used: "cnt_used (readStoredCounter s p x at) = used s p x at" for x by (simp add: used_def)
  show ?thesis
    unfolding who_def [symmetric]
    by (simp add: evaluate_valid_def Let_def who_def [symmetric] reserve_spend_def reads lim used fits_def)
qed

lemma used_frame [simp]:
  "used (s\<lparr>qs_reserved := r\<rparr>) p x at = used s p x at"
  "used (s\<lparr>qs_denials := d\<rparr>) p x at = used s p x at"
  "used (s\<lparr>qs_nextCallId := n\<rparr>) p x at = used s p x at"
  "used (s\<lparr>qs_refunded := f\<rparr>) p x at = used s p x at"
  "used (swept s p who t) q x at = used s q x at"
  by (simp_all add: used_def swept_def)

lemma used_spend:
  "used (spend_counter p x cost at s) p y at = used s p y at + (if y = x then cost else 0)"
  by (auto simp: used_def spend_counter_def Let_def readStored_write_same readStored_write_other)

lemma used_refuse: "used (refuse_counter p x at s) p y at = used s p y at"
  by (cases "y = x")
    (simp_all add: used_def refuse_counter_def Let_def readStored_write_same readStored_write_other)

lemma limit_frame [simp]:
  "limit_at (s\<lparr>qs_nextCallId := n\<rparr>) p x at = limit_at s p x at"
  "limit_at (s\<lparr>qs_reserved := r\<rparr>) p x at = limit_at s p x at"
  by (auto simp: limit_at_def effectiveLimit_def readOverride_def
      split: option.split quota_cell.split prod.split)

lemma fits_frame [simp]: "fits (s\<lparr>qs_nextCallId := n\<rparr>) p who cost at = fits s p who cost at"
  by (simp add: fits_def)

lemma consume_effect:
  assumes "qs_reserved s = []" "consume s at cid request = (res, s', fx)"
    "byOperation s (qr_operation request) = Some p"
  shows "qs_reserved s' = [] \<and>
    (case res of
       Ok r \<Rightarrow>
         (\<forall>x. used s' p x at = used s p x at +
            (if x = qr_principal request \<or> x = QUOTA_GLOBAL_SUBJECT then rc_cost r else 0)) \<and>
         \<not> over_limit (used s' p (qr_principal request) at) (limit_at s p (qr_principal request) at) \<and>
         \<not> over_limit (used s' p QUOTA_GLOBAL_SUBJECT at) (limit_at s p QUOTA_GLOBAL_SUBJECT at)
     | Err _ \<Rightarrow> (\<forall>x. used s' p x at = used s p x at))"
proof (cases "validate s request")
  case (Err e)
  then show ?thesis using assms by (auto simp: consume_def evaluate_def Let_def)
next
  case (Ok v)
  obtain q cost where v: "v = (q, cost)" by (cases v)
  from validate_Ok Ok v assms(3) have q: "q = p" and valid: "isValidPrincipal (qr_principal request)"
    by auto
  let ?s = "s\<lparr>qs_nextCallId := qs_nextCallId s + 1\<rparr>"
  obtain c where ev: "evaluate_valid ?s at c request p cost True = (res, s', fx)"
    using assms(2) Ok v q by (auto simp: consume_def evaluate_def Let_def)
  have "qs_reserved ?s = []" using assms(1) by simp
  from evaluate_spendD [OF this valid ev] valid_not_global [OF valid] show ?thesis
    by (cases res) (auto simp: used_spend used_refuse fits_def split: if_splits)
qed

text \<open>
  C11. A spend is taken from both counters or from neither. When no reservation is held,
  an accepted call adds exactly its cost to the counter of the principal and to the
  shared counter, and both stay within the limits in force; a refused call leaves
  every use count of the operation as it was. Either way no reservation is left.
\<close>

theorem consume_both_or_neither:
  assumes "qs_reserved s = []" "consume s at cid request = (res, s', fx)"
    "byOperation s (qr_operation request) = Some p"
  shows "qs_reserved s' = [] \<and>
    (case res of
       Ok r \<Rightarrow>
         (\<forall>x. used s' p x at = used s p x at +
            (if x = qr_principal request \<or> x = QUOTA_GLOBAL_SUBJECT then rc_cost r else 0)) \<and>
         \<not> over_limit (used s' p (qr_principal request) at) (limit_at s p (qr_principal request) at) \<and>
         \<not> over_limit (used s' p QUOTA_GLOBAL_SUBJECT at) (limit_at s p QUOTA_GLOBAL_SUBJECT at)
     | Err _ \<Rightarrow> (\<forall>x. used s' p x at = used s p x at))"
  using assms by (rule consume_effect)

text \<open>
  \<open>check\<close> predicts \<open>consume\<close>: in the same state at the same instant a request
  passes the one exactly when it passes the other.
\<close>

lemma check_predicts_consume:
  assumes "qs_reserved s = []"
  shows "isOk (fst (quota_check s at cid request)) \<longleftrightarrow> isOk (fst (consume s at cid' request))"
proof (cases "validate s request")
  case (Err e)
  then show ?thesis by (simp add: quota_check_def consume_def evaluate_def Let_def)
next
  case (Ok v)
  obtain p cost where v: "v = (p, cost)" by (cases v)
  from validate_Ok Ok v have valid: "isValidPrincipal (qr_principal request)" by auto
  let ?s = "s\<lparr>qs_nextCallId := qs_nextCallId s + 1\<rparr>"
  have "qs_reserved ?s = []" using assms by simp
  from evaluate_spend [OF this valid, of at _ p cost] evaluate_check [OF this valid, of at _ p cost]
  show ?thesis
    using Ok v by (simp add: quota_check_def consume_def evaluate_def Let_def) (metis fst_conv)
qed

section \<open>The budget of a window\<close>

fun consume_all ::
  "quota_store \<Rightarrow> (int \<times> string \<times> quota_request) list \<Rightarrow> quota_receipt list \<times> quota_store" where
  "consume_all s [] = ([], s)"
| "consume_all s ((at, cid, request) # calls) =
     (let (res, s1, _) = consume s at cid request; (rs, s2) = consume_all s1 calls
      in (case res of Ok r \<Rightarrow> r # rs | Err _ \<Rightarrow> rs, s2))"

definition spent_on :: "string \<Rightarrow> (string \<Rightarrow> bool) \<Rightarrow> quota_receipt list \<Rightarrow> int" where
  "spent_on operation who rs =
     sum_list (map rc_cost (filter (\<lambda>r. rc_operation r = operation \<and> who (rc_principal r)) rs))"

lemma same_window:
  "windowStartOf p at = windowStartOf p at' \<Longrightarrow> used s p x at = used s p x at'"
  by (simp add: used_def readStoredCounter_def)

text \<open>What no call changes: the policies, and the absence of an override.\<close>

definition no_override :: "quota_store \<Rightarrow> string \<Rightarrow> string \<Rightarrow> bool" where
  "no_override s operation subject =
     (\<forall>ov. map_get (qs_storage s) (overrideKey operation subject) \<noteq> Some (Override_Cell ov))"

lemma no_override_limit: "no_override s (pol_operation p) x \<Longrightarrow> limit_at s p x at = policy_limit p x"
  by (auto simp: no_override_def limit_at_def effectiveLimit_def readOverride_def
      split: option.split quota_cell.split prod.split)

lemma no_override_frame [simp]:
  "no_override (s\<lparr>qs_reserved := r\<rparr>) oper x = no_override s oper x"
  "no_override (s\<lparr>qs_denials := d\<rparr>) oper x = no_override s oper x"
  "no_override (s\<lparr>qs_nextCallId := n\<rparr>) oper x = no_override s oper x"
  "no_override (spend_counter p y cost at s) oper x = no_override s oper x"
  "no_override (refuse_counter p y at s) oper x = no_override s oper x"
  by (simp_all add: no_override_def spend_counter_def refuse_counter_def writeCounter_def Let_def)

lemma no_override_swept: "no_override s oper x \<Longrightarrow> no_override (swept s p who at) oper x"
  by (auto simp: no_override_def swept_def readOverride_def map_get_remove
      split: option.split quota_cell.split if_splits)

lemma policies_frame [simp]:
  "qs_policies (swept s p who at) = qs_policies s"
  "qs_policies (spend_counter p x cost at s) = qs_policies s"
  "qs_policies (refuse_counter p x at s) = qs_policies s"
  by (simp_all add: swept_def spend_counter_def refuse_counter_def Let_def)

lemma byOperation_operation: "byOperation s oper = Some p \<Longrightarrow> pol_operation p = oper"
  unfolding byOperation_def by (metis (mono_tags, lifting) find_SomeD)

lemma used_other_operation:
  assumes "pol_operation q \<noteq> pol_operation p" "CHR ''|'' \<notin> set x" "CHR ''|'' \<notin> set y"
  shows "used (spend_counter q x cost at s) p y t = used s p y t"
    "used (refuse_counter q x at s) p y t = used s p y t"
  using assms
  by (simp_all add: used_def spend_counter_def refuse_counter_def Let_def readStored_write_other
      counterKey_inject)

text \<open>One call, seen from a policy and a subject of it: its own or a foreign one.\<close>

lemma consume_step:
  assumes s: "qs_reserved s = []" and p: "byOperation s (pol_operation p) = Some p"
    and call: "consume s at cid request = (res, s', fx)"
    and x: "x = QUOTA_GLOBAL_SUBJECT \<or> isValidPrincipal x" "no_override s (pol_operation p) x"
    and win: "qr_operation request = pol_operation p \<Longrightarrow> windowStartOf p at = windowStartOf p t"
  shows "qs_reserved s' = [] \<and> qs_policies s' = qs_policies s \<and> no_override s' (pol_operation p) x \<and>
    used s' p x t = used s p x t +
      (case res of Ok r \<Rightarrow> spent_on (pol_operation p) (\<lambda>w. w = x \<or> x = QUOTA_GLOBAL_SUBJECT) [r] | Err _ \<Rightarrow> 0) \<and>
    (used s' p x t = used s p x t \<or> \<not> over_limit (used s' p x t) (policy_limit p x))"
proof (cases "validate s request")
  case (Err e)
  then show ?thesis using s call x by (auto simp: consume_def evaluate_def Let_def)
next
  case (Ok v)
  obtain q cost where v: "v = (q, cost)" by (cases v)
  from validate_Ok Ok v have q: "byOperation s (qr_operation request) = Some q"
    and valid: "isValidPrincipal (qr_principal request)" by auto
  let ?s = "s\<lparr>qs_nextCallId := qs_nextCallId s + 1\<rparr>"
  obtain c where ev: "evaluate_valid ?s at c request q cost True = (res, s', fx)"
    using call Ok v by (auto simp: consume_def evaluate_def Let_def)
  have s0: "qs_reserved ?s = []" using s by simp
  have bars: "CHR ''|'' \<notin> set x" "CHR ''|'' \<notin> set (qr_principal request)" "CHR ''|'' \<notin> set QUOTA_GLOBAL_SUBJECT"
    using x(1) valid_no_bar valid by (auto simp: QUOTA_GLOBAL_SUBJECT_def)
  note result = evaluate_spendD [OF s0 valid ev]
  show ?thesis
  proof (cases "qr_operation request = pol_operation p")
    case True
    then have "q = p" using p q by simp
    have t: "used s' p x t = used s' p x at" "used s p x t = used s p x at"
      using same_window [OF win [OF True]] by simp_all
    show ?thesis
      using result \<open>q = p\<close> valid_not_global [OF valid] x no_override_limit [OF x(2)]
      unfolding t
      by (cases res) (auto simp: used_spend used_refuse fits_def spent_on_def no_override_swept split: if_splits)
  next
    case False
    then have ne: "pol_operation q \<noteq> pol_operation p" using byOperation_operation [OF q] by simp
    show ?thesis
      using result ne bars x(2) byOperation_operation [OF q]
      by (cases res) (auto simp: used_other_operation spent_on_def no_override_swept split: if_splits)
  qed
qed

definition in_window :: "quota_policy \<Rightarrow> int \<Rightarrow> int \<times> string \<times> quota_request \<Rightarrow> bool" where
  "in_window p t call =
     (qr_operation (snd (snd call)) \<noteq> pol_operation p \<or> windowStartOf p (fst call) = windowStartOf p t)"

lemma spent_on_simps:
  "spent_on oper who [] = 0"
  "spent_on oper who (r # rs) = spent_on oper who [r] + spent_on oper who rs"
  by (simp_all add: spent_on_def)


section \<open>Refunds\<close>

lemma refund_subject_eq:
  assumes "qs_reserved s = []"
  shows "used (refund_subject p cost at x s) p y at =
    (if y = x then max 0 (used s p x at - cost) else used s p y at)"
    "qs_reserved (refund_subject p cost at x s) = []"
  using assms
  by (auto simp: used_def refund_subject_def readCounter_def reservationFor_def Let_def
      readStored_write_same readStored_write_other)

lemma refund_frame [simp]:
  "qs_refunded (refund_subject p cost at x s) = qs_refunded s"
  "qs_policies (refund_subject p cost at x s) = qs_policies s"
  "qs_refunded (spend_counter p x cost at s) = qs_refunded s"
  "qs_refunded (swept s p x at) = qs_refunded s"
  by (simp_all add: refund_subject_def spend_counter_def swept_def Let_def)

lemma consume_receipt:
  assumes "qs_reserved s = []" "consume s at cid request = (Ok r, s1, fx)"
    "byOperation s (qr_operation request) = Some p"
  shows "rc_operation r = pol_operation p \<and> rc_principal r = qr_principal request \<and>
    rc_windowStart r = windowStartOf p at \<and> isValidPrincipal (qr_principal request) \<and>
    qs_refunded s1 = qs_refunded s \<and> qs_policies s1 = qs_policies s \<and> rc_cost r \<ge> 1"
proof -
  from assms(2) obtain q cost where v: "validate s request = Ok (q, cost)"
    by (cases "validate s request") (auto simp: consume_def evaluate_def Let_def)
  from validate_Ok [OF v] assms(3) have q: "q = p" and valid: "isValidPrincipal (qr_principal request)"
    and cost: "cost \<ge> 1" by auto
  obtain c where ev: "evaluate_valid (s\<lparr>qs_nextCallId := qs_nextCallId s + 1\<rparr>) at c request p cost True = (Ok r, s1, fx)"
    using assms(2) v q by (auto simp: consume_def evaluate_def Let_def)
  from evaluate_spendD [OF _ valid ev] assms(1) valid cost show ?thesis
    by (auto split: if_splits)
qed

text \<open>
  A refund gives back exactly what its spend took: consuming and refunding the
  receipt within the window leaves both use counts as they were, and a second refund
  of the receipt changes nothing.
\<close>

lemma refund_restores:
  assumes "qs_reserved s = []" "consume s at cid request = (Ok r, s1, fx)"
    "byOperation s (qr_operation request) = Some p" "refund_token r \<notin> set (qs_refunded s)"
    "windowStartOf p at' = windowStartOf p at" "\<And>x. 0 \<le> used s p x at"
  shows "used (fst (refund s1 at' r)) p x at' = used s p x at' \<and>
    refund (fst (refund s1 at' r)) at'' r = (fst (refund s1 at' r), [])"
proof -
  note rec = consume_receipt [OF assms(1-3)]
  note both = consume_effect [OF assms(1-3)]
  have p: "byOperation s1 (rc_operation r) = Some p" "pol_operation p = qr_operation request"
    using rec assms(3) byOperation_operation [OF assms(3)] by (auto simp: byOperation_def)
  have ne: "rc_principal r \<noteq> QUOTA_GLOBAL_SUBJECT" using rec valid_not_global by auto
  let ?s2 = "s1\<lparr>qs_refunded := set_add (refund_token r) (qs_refunded s1)\<rparr>"
  let ?s3 = "refund_subject p (rc_cost r) at' (rc_principal r) ?s2"
  let ?s4 = "refund_subject p (rc_cost r) at' QUOTA_GLOBAL_SUBJECT ?s3"
  have first: "fst (refund s1 at' r) = ?s4"
    using p rec assms(4,5) by (simp add: refund_def Let_def)
  have res: "qs_reserved ?s2 = []" "qs_reserved ?s3 = []"
    using both by (simp_all add: refund_subject_eq)
  have "used ?s4 p x at' = (if x = QUOTA_GLOBAL_SUBJECT \<or> x = rc_principal r
      then max 0 (used s1 p x at' - rc_cost r) else used s1 p x at')"
    using ne by (simp add: refund_subject_eq [OF res(2)] refund_subject_eq [OF res(1)])
  then have "used ?s4 p x at' = used s p x at'"
    using both rec assms(6) [of x] unfolding same_window [OF assms(5)] by auto
  moreover have "refund ?s4 at'' r = (?s4, [])"
    using p by (simp add: refund_def byOperation_def Let_def)
  ultimately show ?thesis by (simp add: first)
qed

text \<open>
  The receipt of a \<open>check\<close> can be refunded: nothing was spent for it, and the
  refund still takes its cost off the counter of the principal, so that a principal
  who checks and refunds spends more than the limit.
\<close>

lemma check_receipt_refundable:
  assumes "qs_reserved s = []" "quota_check s at cid request = (Ok r, s1, fx)"
    "byOperation s (qr_operation request) = Some p" "refund_token r \<notin> set (qs_refunded s)"
  shows "used (fst (refund s1 at r)) p (qr_principal request) at =
    max 0 (used s p (qr_principal request) at - rc_cost r)"
proof -
  from assms(2) obtain q cost where v: "validate s request = Ok (q, cost)"
    by (cases "validate s request") (auto simp: quota_check_def evaluate_def Let_def)
  from validate_Ok [OF v] assms(3) have q: "q = p" and valid: "isValidPrincipal (qr_principal request)"
    by auto
  let ?s = "s\<lparr>qs_nextCallId := qs_nextCallId s + 1\<rparr>"
  obtain c where ev: "evaluate_valid ?s at c request p cost False = (Ok r, s1, fx)"
    using assms(2) v q by (auto simp: quota_check_def evaluate_def Let_def)
  have s1: "s1 = swept ?s p (qr_principal request) at"
    using evaluate_check [of ?s request at c p cost] assms(1) valid ev by auto
  have "cnt_windowStart (readCounter ?s p (qr_principal request) at) = windowStartOf p at"
    using assms(1) by (simp add: readCounter_def reservationFor_def)
  then have r: "rc_operation r = pol_operation p" "rc_principal r = qr_principal request"
    "rc_windowStart r = windowStartOf p at"
    using ev by (auto simp: evaluate_valid_def Let_def reserve_spend_def split: prod.splits option.splits if_splits)
  let ?s2 = "s1\<lparr>qs_refunded := set_add (refund_token r) (qs_refunded s1)\<rparr>"
  let ?s3 = "refund_subject p (rc_cost r) at (qr_principal request) ?s2"
  have "qs_reserved s1 = []" "qs_refunded s1 = qs_refunded s" "qs_policies s1 = qs_policies s"
    using assms(1) by (simp_all add: s1 swept_def)
  then have "fst (refund s1 at r) = refund_subject p (rc_cost r) at QUOTA_GLOBAL_SUBJECT ?s3"
    and res: "qs_reserved ?s2 = []" "qs_reserved ?s3 = []"
    using assms(3,4) r byOperation_operation [OF assms(3)]
    by (simp_all add: refund_def Let_def byOperation_def refund_subject_eq)
  then show ?thesis
    using valid_not_global [OF valid]
    by (simp add: refund_subject_eq(1) [OF res(2)] refund_subject_eq(1) [OF res(1)]) (simp add: s1)
qed

text \<open>
  An override is granted to maintainers only, is bounded and expires by itself: a
  granted limit lies between zero and the ceiling of the policy, lives at most
  \<open>QUOTA_MAX_OVERRIDE_TTL_MS\<close>, is the limit in force until its expiry, and from the
  expiry on the policy limit is in force again. The grant writes exactly one allowed
  audit input.
\<close>

lemma granted_override_bounded:
  assumes "grantOverride s at cid actor input = (Ok ov, s', fx)"
    "byOperation s (gi_operation input) = Some p"
  shows "requireMaintainer actor \<and> 0 \<le> ov_limit ov \<and> ov_limit ov \<le> ceilingOf p \<and>
    at < ov_expiresAt ov \<and> ov_expiresAt ov \<le> at + QUOTA_MAX_OVERRIDE_TTL_MS \<and>
    limit_at s' p (gi_subject input) t =
      (if t < ov_expiresAt ov then Some (ov_limit ov) else policy_limit p (gi_subject input)) \<and>
    map in_outcome (audits_of fx) = [Some Allowed]"
proof -
  have p: "pol_operation p = gi_operation input" by (rule byOperation_operation [OF assms(2)])
  from assms have m: "requireMaintainer actor" and v: "grant_valid p input"
    and ov: "ov = granted_override actor at input"
    and s': "map_get (qs_storage s') (overrideKey (gi_operation input) (gi_subject input)) = Some (Override_Cell ov)"
    and fx: "map in_outcome (audits_of fx) = [Some Allowed]"
    by (auto simp: grantOverride_def Let_def auditOverride_def split: if_splits prod.splits)
  have "limit_at s' p (gi_subject input) t =
      (if t < ov_expiresAt ov then Some (ov_limit ov) else policy_limit p (gi_subject input))"
    using s' p by (simp add: limit_at_def effectiveLimit_def readOverride_def)
  with m v ov fx show ?thesis
    by (auto simp: grant_valid_def granted_override_def split: js_number.splits)
qed

section \<open>Witnesses\<close>

definition w_quota :: quota_store where
  "w_quota = ok_value (createQuotaStore QUOTA_POLICIES [])"

definition w_faucet :: quota_policy where
  "w_faucet = policy ''faucet.fund'' R_external_api 5 (Some 200) DAY"

definition w_spend :: "string \<Rightarrow> int \<Rightarrow> quota_request" where
  "w_spend who n = \<lparr>qr_operation = ''faucet.fund'', qr_principal = who, qr_cost = Some (JInt n),
     qr_actorType = None, qr_correlationId = None\<rparr>"

lemma w_quota_fields:
  "qs_reserved w_quota = []" "byOperation w_quota ''faucet.fund'' = Some w_faucet"
  "qs_refunded w_quota = []" "qs_storage w_quota = []"
  by code_simp+

lemma w_used: "used w_quota p x t = 0"
  by (simp add: used_def readStoredCounter_def w_quota_fields Let_def)

lemma w_principals: "isValidPrincipal ''device:A''" "isValidPrincipal ''device:B''"
  by code_simp+

lemma w_consume: "isOk (fst (consume w_quota 1000 ''c'' (w_spend ''device:A'' 3)))"
  "rc_cost (ok_value (fst (consume w_quota 1000 ''c'' (w_spend ''device:A'' 3)))) = 3"
  by code_simp+

lemma w_consumed:
  obtains r s1 fx where "consume w_quota 1000 ''c'' (w_spend ''device:A'' 3) = (Ok r, s1, fx)"
    "rc_cost r = 3"
proof -
  obtain res s1 fx where c: "consume w_quota 1000 ''c'' (w_spend ''device:A'' 3) = (res, s1, fx)"
    by (cases "consume w_quota 1000 ''c'' (w_spend ''device:A'' 3)")
  with w_consume obtain r where "res = Ok r" "rc_cost r = 3" by (cases res) auto
  with c that show thesis by blast
qed

lemma w_operation: "byOperation w_quota (qr_operation (w_spend who n)) = Some w_faucet"
  by (simp add: w_spend_def w_quota_fields)

theorem consume_both_or_neither_witness:
  "\<exists>r s1 fx. consume w_quota 1000 ''c'' (w_spend ''device:A'' 3) = (Ok r, s1, fx) \<and>
     used s1 w_faucet ''device:A'' 1000 = 3 \<and> used s1 w_faucet ''*'' 1000 = 3"
proof -
  obtain r s1 fx where c: "consume w_quota 1000 ''c'' (w_spend ''device:A'' 3) = (Ok r, s1, fx)"
    "rc_cost r = 3" by (rule w_consumed)
  from consume_both_or_neither [OF w_quota_fields(1) c(1) w_operation] c show ?thesis
    by (simp add: w_used w_spend_def QUOTA_GLOBAL_SUBJECT_def)
qed

lemma check_predicts_consume_witness:
  "isOk (fst (quota_check w_quota 1000 ''a'' (w_spend ''device:A'' 3)))"
  using check_predicts_consume [OF w_quota_fields(1), of 1000 "''a''" "w_spend ''device:A'' 3" "''c''"]
    w_consume(1) by simp

definition w_calls :: "(int \<times> string \<times> quota_request) list" where
  "w_calls = [(1000, ''a'', w_spend ''device:A'' 3), (2000, ''b'', w_spend ''device:A'' 3),
     (3000, ''c'', w_spend ''device:B'' 5), (4000, ''d'', w_spend ''device:A'' 2)]"


lemma refund_restores_witness:
  "\<exists>r s1 fx. consume w_quota 1000 ''c'' (w_spend ''device:A'' 3) = (Ok r, s1, fx) \<and>
     used (fst (refund s1 2000 r)) w_faucet ''device:A'' 2000 = 0"
proof -
  obtain r s1 fx where c: "consume w_quota 1000 ''c'' (w_spend ''device:A'' 3) = (Ok r, s1, fx)"
    "rc_cost r = 3" by (rule w_consumed)
  have "windowStartOf w_faucet 2000 = windowStartOf w_faucet 1000" by code_simp
  from refund_restores [OF w_quota_fields(1) c(1) w_operation _ this, of "''device:A''" 2000] c(1)
  show ?thesis by (simp add: w_used w_quota_fields)
qed

definition w_used_store :: quota_store where
  "w_used_store = w_quota\<lparr>qs_storage :=
     [(counterKey ''faucet.fund'' ''device:A'',
       Counter_Cell \<lparr>cnt_windowStart = 0, cnt_used = 2, cnt_denied = 0\<rparr>)]\<rparr>"

lemma w_used_store_fields:
  "qs_reserved w_used_store = []" "qs_refunded w_used_store = []"
  "byOperation w_used_store (qr_operation (w_spend who n)) = Some w_faucet"
  by (simp_all add: w_used_store_def w_quota_fields byOperation_def w_spend_def)
    (simp add: w_quota_fields(2) [unfolded byOperation_def])

lemma w_used_store_used: "used w_used_store w_faucet ''device:A'' 2000 = 2"
  by code_simp

lemma w_checked: "isOk (fst (quota_check w_used_store 2000 ''d'' (w_spend ''device:A'' 3)))"
  "rc_cost (ok_value (fst (quota_check w_used_store 2000 ''d'' (w_spend ''device:A'' 3)))) = 3"
  by code_simp+

lemma check_receipt_refundable_witness:
  "used w_used_store w_faucet ''device:A'' 2000 = 2 \<and>
   (\<exists>r s1 fx. quota_check w_used_store 2000 ''d'' (w_spend ''device:A'' 3) = (Ok r, s1, fx) \<and>
     used (fst (refund s1 2000 r)) w_faucet ''device:A'' 2000 = 0)"
proof -
  obtain res s1 fx where c: "quota_check w_used_store 2000 ''d'' (w_spend ''device:A'' 3) = (res, s1, fx)"
    by (cases "quota_check w_used_store 2000 ''d'' (w_spend ''device:A'' 3)")
  with w_checked obtain r where r: "res = Ok r" "rc_cost r = 3" by (cases res) auto
  have who: "qr_principal (w_spend ''device:A'' 3) = ''device:A''" by (simp add: w_spend_def)
  have "refund_token r \<notin> set (qs_refunded w_used_store)" by (simp add: w_used_store_fields)
  from check_receipt_refundable [OF w_used_store_fields(1) c [unfolded r(1)] w_used_store_fields(3) this] c r
  show ?thesis by (simp add: who w_used_store_used)
qed

definition w_grant :: grant_input where
  "w_grant = \<lparr>gi_operation = ''faucet.fund'', gi_subject = ''device:A'', gi_limit = JInt 0,
     gi_reason = ''fraud.block'', gi_ttlMs = JInt 5000, gi_correlationId = None\<rparr>"

definition w_maintainer :: audit_actor where
  "w_maintainer = \<lparr>actor_kind = Maintainer, actor_id = Some ''ops''\<rparr>"

lemma w_granted: "isOk (fst (grantOverride w_quota 1000 ''c'' w_maintainer w_grant))"
  by code_simp

lemma granted_override_bounded_witness:
  "\<exists>ov s' fx. grantOverride w_quota 1000 ''c'' w_maintainer w_grant = (Ok ov, s', fx) \<and>
     limit_at s' w_faucet ''device:A'' 99999999 = Some 5"
proof -
  obtain res s' fx where g: "grantOverride w_quota 1000 ''c'' w_maintainer w_grant = (res, s', fx)"
    by (cases "grantOverride w_quota 1000 ''c'' w_maintainer w_grant")
  with w_granted obtain ov where ov: "res = Ok ov" by (cases res) auto
  have p: "byOperation w_quota (gi_operation w_grant) = Some w_faucet"
    by (simp add: w_grant_def w_quota_fields)
  have "ov_expiresAt ov = 6000"
    using g ov p by (auto simp: grantOverride_def Let_def granted_override_def w_grant_def
        split: if_splits prod.splits)
  with granted_override_bounded [OF g [unfolded ov] p, of 99999999] g ov show ?thesis
    by (simp add: w_grant_def w_faucet_def policy_limit_def QUOTA_GLOBAL_SUBJECT_def)
qed

end
