(* ===== verification/Workers.thy ===== *)
theory Workers
  imports Lifecycle_Records Idempotency Quota
begin

text \<open>
  \<open>core/workers/queue.ts\<close>: the background worker framework. A handler is code of the
  caller: what one invocation does is an argument of the operation that invokes it, and
  it does not call back into the framework. A handler that returns a promise leaves its
  job in flight; the settlement of that promise is an event of its own, with the retry
  delay of the registration it captured. Ids and correlation ids come from \<open>gen\<close> and a
  counter; clocks are arguments. The gates of \<open>core/workers/backpressure.ts\<close> are part of
  the state because \<open>submit\<close> reads them; their operations are in theory \<open>Backpressure\<close>.
\<close>

section \<open>Jobs\<close>

record job =
  job_id :: string
  job_operation :: string
  job_params :: json
  job_dedupeKey :: "string option"
  job_maxAttempts :: nat
  job_attempts :: nat
  job_status :: string
  job_enqueuedAt :: int
  job_nextAttemptAt :: "int option"
  job_lastError :: "(string \<times> string) option"
  job_correlationId :: string

record job_input =
  ji_operation :: string
  ji_params :: "json option"
  ji_dedupeKey :: "string option"
  ji_maxAttempts :: "nat option"
  ji_correlationId :: "string option"
  ji_delayMs :: "int option"
  ji_idempotencyKey :: "string option"
  ji_principal :: "string option"

text \<open>What one invocation of a handler does; a thrown value has a message when it is an \<open>Error\<close>.\<close>

datatype handler_outcome =
    Handler_Returned
  | Handler_Threw thrown "string option"
  | Handler_Pending

datatype shutdown_phase = Phase_Idle | Phase_Cancelling | Phase_Stopped

record registration =
  reg_retryDelayMs :: int
  reg_maxAttempts :: nat

record retry_policy =
  rp_retryDelayMs :: int
  rp_maxAttempts :: nat
  rp_idempotencyTtlMs :: int

definition DEFAULT_POLICY :: retry_policy where
  "DEFAULT_POLICY = \<lparr>rp_retryDelayMs = 250, rp_maxAttempts = 3,
     rp_idempotencyTtlMs = 24 * 60 * 60 * 1000\<rparr>"

record run_summary =
  sum_ran :: nat
  sum_succeeded :: nat
  sum_failed :: nat
  sum_retried :: nat
  sum_deadLettered :: nat
  sum_cancelled :: nat
  sum_inFlight :: nat

definition EMPTY_SUMMARY :: run_summary where
  "EMPTY_SUMMARY = \<lparr>sum_ran = 0, sum_succeeded = 0, sum_failed = 0, sum_retried = 0,
     sum_deadLettered = 0, sum_cancelled = 0, sum_inFlight = 0\<rparr>"

datatype overflow_policy = Overflow_Reject | Overflow_Drop_Oldest

record gate =
  gate_label :: string
  gate_maxConcurrent :: nat
  gate_ceiling :: nat
  gate_overflow :: overflow_policy
  gate_admitted :: nat
  gate_rejected :: nat
  gate_evicted :: nat
  gate_waiters :: nat

record framework =
  fw_policy :: retry_policy
  fw_registrations :: "(string, registration) js_map"
  fw_jobs :: "(string, job) js_map"
  fw_phase :: shutdown_phase
  fw_reason :: "string option"
  fw_aborted :: bool
  fw_inFlight :: "(string \<times> int) list"
  fw_idempotency :: idem_store
  fw_quota :: quota_store
  fw_ownsQuota :: bool
  fw_gates :: "gate list"
  fw_nextId :: nat

definition createWorkerFramework ::
  "retry_policy \<Rightarrow> quota_store option \<Rightarrow> gate list \<Rightarrow> framework" where
  "createWorkerFramework pol quota gates =
     \<lparr>fw_policy = pol, fw_registrations = [], fw_jobs = [], fw_phase = Phase_Idle,
      fw_reason = None, fw_aborted = False, fw_inFlight = [],
      fw_idempotency = createIdempotencyStore (Some (rp_idempotencyTtlMs pol)) [] False,
      fw_quota = (case quota of Some q \<Rightarrow> q | None \<Rightarrow> ok_value (createQuotaStore QUOTA_POLICIES [])),
      fw_ownsQuota = (quota = None), fw_gates = gates, fw_nextId = 0\<rparr>"

text \<open>\<open>2 ** Math.min(attempt - 1, 30)\<close>; attempts are positive where it is called.\<close>

definition retryBackoff :: "int \<Rightarrow> nat \<Rightarrow> int" where
  "retryBackoff baseDelayMs attempt = baseDelayMs * 2 ^ (min (attempt - 1) 30)"

definition worker_errorCodeOf :: "thrown \<Rightarrow> string" where
  "worker_errorCodeOf e =
     (case thrown_code e of
        Some c \<Rightarrow> c
      | None \<Rightarrow> (case thrown_name e of Some n \<Rightarrow> n | None \<Rightarrow> ''unknown''))"

text \<open>\<open>isCancellation\<close> on the names of a thrown object.\<close>

definition isCancellation :: "thrown \<Rightarrow> bool" where
  "isCancellation e =
     (thrown_name e \<in> {Some ''WorkerCancelledError'', Some ''AbortError'', Some ''TimeoutError''})"

definition findingDedupe :: "(string, job) js_map \<Rightarrow> string \<Rightarrow> job option" where
  "findingDedupe jobs key =
     find (\<lambda>j. job_dedupeKey j = Some key \<and> (job_status j = ''queued'' \<or> job_status j = ''retrying''))
       (map_values jobs)"

definition findGate :: "framework \<Rightarrow> string \<Rightarrow> gate option" where
  "findGate fw operation = find (\<lambda>g. startsWith operation (gate_label g)) (fw_gates fw)"

section \<open>Moves\<close>

definition worker_context :: "job \<Rightarrow> string \<Rightarrow> bool \<Rightarrow> transition_context" where
  "worker_context j reason audited =
     \<lparr>ctx_at = None, ctx_actor = Some ''worker'', ctx_scope = None, ctx_audited = audited,
      ctx_reason = Some reason, ctx_correlationId = Some (job_correlationId j)\<rparr>"

definition move ::
  "int \<Rightarrow> job \<Rightarrow> string \<Rightarrow> string \<Rightarrow> bool \<Rightarrow> (string, lifecycle_error) result \<times> job \<times> effect list" where
  "move now j event reason audited =
     (case applyTransition (toISOString now) [] workerJobMachine (job_id j) (job_status j) event
             (worker_context j reason audited) of
        (Err c, fx) \<Rightarrow> (Err c, j, fx)
      | (Ok t, fx) \<Rightarrow> (Ok (tr_to t), j\<lparr>job_status := tr_to t\<rparr>, fx))"

definition isDue :: "job \<Rightarrow> int \<Rightarrow> bool" where
  "isDue j now =
     (if job_status j \<noteq> ''queued'' \<and> job_status j \<noteq> ''retrying'' then False
      else case job_nextAttemptAt j of None \<Rightarrow> True | Some t \<Rightarrow> t \<le> now)"

definition handleFailure :: "int \<Rightarrow> job \<Rightarrow> int \<Rightarrow> thrown \<Rightarrow> string option \<Rightarrow> job \<times> effect list" where
  "handleFailure now j retryDelay e message =
     (let code = worker_errorCodeOf e;
          j1 = j\<lparr>job_lastError := Some (code, case message of Some m \<Rightarrow> m | None \<Rightarrow> ''unknown failure'')\<rparr>
      in if job_attempts j1 \<ge> job_maxAttempts j1 then
           let (_, j2, fx) = move now j1 ''exhaust'' ''attempts_exhausted'' False in
           (j2, fx @ [emitTelemetry ''worker.exhausted'' ''worker'' False (Some code)])
         else
           let (_, j2, fx) = move now j1 ''fail'' ''handler_threw'' False in
           (j2\<lparr>job_nextAttemptAt := Some (now + retryBackoff retryDelay (job_attempts j2))\<rparr>,
            fx @ [emitTelemetry ''worker.retry'' ''worker'' False (Some code)]))"

definition cancelled_message :: "job \<Rightarrow> string option \<Rightarrow> (thrown \<times> string option) option \<Rightarrow> string" where
  "cancelled_message j reason error =
     (case error of
        None \<Rightarrow> ''Cancelled during '' @ job_operation j @ '': '' @
          (case reason of Some r \<Rightarrow> r | None \<Rightarrow> ''shutdown'')
      | Some (_, Some m) \<Rightarrow> m
      | Some (_, None) \<Rightarrow> ''cancelled'')"

text \<open>The closure \<open>settle\<close> of \<open>runJob\<close>; \<open>error\<close> is what the handler threw, if it did.\<close>

definition settle ::
  "bool \<Rightarrow> string option \<Rightarrow> int \<Rightarrow> job \<Rightarrow> int \<Rightarrow> (thrown \<times> string option) option \<Rightarrow> job \<times> effect list" where
  "settle aborted reason now j retryDelay error =
     (if aborted then
        let j1 = j\<lparr>job_lastError := Some (''cancelled'', cancelled_message j reason error)\<rparr>;
            (_, j2, fx) =
              (if job_attempts j1 \<ge> job_maxAttempts j1
               then move now j1 ''exhaust'' ''cancelled_attempts_exhausted'' False
               else move now j1 ''fail'' ''cancelled'' False)
        in (j2, fx @ [emitTelemetry ''worker.cancelled'' ''worker'' False (Some ''cancelled'')])
      else case error of
        None \<Rightarrow>
          let (_, j1, fx) = move now j ''succeed'' ''handler_returned'' False in
          (j1\<lparr>job_lastError := None\<rparr>, fx @ [emitTelemetry ''worker.run'' ''worker'' True None])
      | Some (e, message) \<Rightarrow> handleFailure now j retryDelay e message)"

section \<open>Running jobs\<close>

text \<open>
  \<open>runJob\<close> on a job that is in the map: the job after the call, whether the outcome is
  known when it returns, the in-flight entry a promise adds, and the effects.
\<close>

definition runJob ::
  "framework \<Rightarrow> int \<Rightarrow> job \<Rightarrow> handler_outcome \<Rightarrow> job \<times> (string \<times> int) option \<times> effect list" where
  "runJob fw now j outcome =
     (let j0 = j\<lparr>job_attempts := job_attempts j + 1\<rparr> in
      case map_get (fw_registrations fw) (job_operation j0) of
        None \<Rightarrow>
          let j1 = j0\<lparr>job_lastError := Some (''unregistered'', ''No handler registered for '' @ job_operation j0)\<rparr>;
              (_, j2, fx) = move now j1 ''dead_letter'' ''unregistered_handler'' False
          in (j2, None, fx @ [emitTelemetry ''worker.exhausted'' ''worker'' False (Some ''unregistered'')])
      | Some reg \<Rightarrow>
          let (_, j1, fx) = move now j0 ''start'' ''drained'' False in
          (case outcome of
             Handler_Pending \<Rightarrow> (j1, Some (job_id j1, reg_retryDelayMs reg), fx)
           | Handler_Returned \<Rightarrow>
               let (j2, fx') = settle (fw_aborted fw) (fw_reason fw) now j1 (reg_retryDelayMs reg) None
               in (j2, None, fx @ fx')
           | Handler_Threw e m \<Rightarrow>
               let (j2, fx') = settle (fw_aborted fw) (fw_reason fw) now j1 (reg_retryDelayMs reg) (Some (e, m))
               in (j2, None, fx @ fx')))"

text \<open>Runs the job with the given id in the framework and tells whether it settled.\<close>

definition run_in :: "framework \<Rightarrow> int \<Rightarrow> string \<Rightarrow> handler_outcome \<Rightarrow> framework \<times> bool \<times> effect list" where
  "run_in fw now jid outcome =
     (case map_get (fw_jobs fw) jid of
        None \<Rightarrow> (fw, True, [])
      | Some j \<Rightarrow>
          let (j', pending, fx) = runJob fw now j outcome in
          (fw\<lparr>fw_jobs := map_set jid j' (fw_jobs fw),
              fw_inFlight := fw_inFlight fw @ (case pending of Some p \<Rightarrow> [p] | None \<Rightarrow> [])\<rparr>,
           pending = None, fx))"

text \<open>The promise of an in-flight handler settles: its entry goes, its job is settled.\<close>

fun take_entry :: "string \<Rightarrow> (string \<times> int) list \<Rightarrow> (int \<times> (string \<times> int) list) option" where
  "take_entry jid [] = None"
| "take_entry jid ((k, d) # es) =
     (if k = jid then Some (d, es)
      else map_option (\<lambda>(d', es'). (d', (k, d) # es')) (take_entry jid es))"

definition promise_settles ::
  "framework \<Rightarrow> int \<Rightarrow> string \<Rightarrow> (thrown \<times> string option) option \<Rightarrow> framework \<times> effect list" where
  "promise_settles fw now jid error =
     (case (take_entry jid (fw_inFlight fw), map_get (fw_jobs fw) jid) of
        (Some (delay, rest), Some j) \<Rightarrow>
          let (j', fx) = settle (fw_aborted fw) (fw_reason fw) now j delay error in
          (fw\<lparr>fw_jobs := map_set jid j' (fw_jobs fw), fw_inFlight := rest\<rparr>, fx)
      | _ \<Rightarrow> (fw, []))"

definition bumpSummary :: "run_summary \<Rightarrow> job \<Rightarrow> run_summary" where
  "bumpSummary s j =
     (if map_option fst (job_lastError j) = Some ''cancelled'' then s\<lparr>sum_cancelled := sum_cancelled s + 1\<rparr>
      else if job_status j = ''succeeded'' then s\<lparr>sum_succeeded := sum_succeeded s + 1\<rparr>
      else if job_status j = ''retrying'' then s\<lparr>sum_retried := sum_retried s + 1\<rparr>
      else if job_status j = ''dead_lettered'' then s\<lparr>sum_deadLettered := sum_deadLettered s + 1\<rparr>
      else s\<lparr>sum_failed := sum_failed s + 1\<rparr>)"

definition bump_id :: "framework \<Rightarrow> string \<Rightarrow> run_summary \<Rightarrow> run_summary" where
  "bump_id fw jid s = (case map_get (fw_jobs fw) jid of Some j \<Rightarrow> bumpSummary s j | None \<Rightarrow> s)"

definition due_ids :: "framework \<Rightarrow> int \<Rightarrow> string list" where
  "due_ids fw now = map job_id (filter (\<lambda>j. isDue j now) (map_values (fw_jobs fw)))"

text \<open>The loop over the due jobs, which \<open>drainDueJobs\<close> and \<open>drain\<close> share.\<close>

fun run_due ::
  "int \<Rightarrow> (string \<Rightarrow> handler_outcome) \<Rightarrow> string list \<Rightarrow> framework \<times> run_summary \<times> effect list \<Rightarrow>
     framework \<times> run_summary \<times> effect list" where
  "run_due now h [] acc = acc"
| "run_due now h (jid # ids) (fw, s, fx) =
     (let (fw1, settled, fx1) = run_in fw now jid (h jid);
          s1 = s\<lparr>sum_ran := sum_ran s + 1\<rparr>;
          s2 = (if settled then bump_id fw1 jid s1 else s1)
      in run_due now h ids (fw1, s2, fx @ fx1))"

definition with_inFlight :: "framework \<Rightarrow> run_summary \<Rightarrow> run_summary" where
  "with_inFlight fw s = s\<lparr>sum_inFlight := length (fw_inFlight fw)\<rparr>"

definition drainDueJobs ::
  "framework \<Rightarrow> int \<Rightarrow> (string \<Rightarrow> handler_outcome) \<Rightarrow> framework \<times> run_summary \<times> effect list" where
  "drainDueJobs fw now h =
     (if fw_phase fw \<noteq> Phase_Idle then (fw, with_inFlight fw EMPTY_SUMMARY, [])
      else
        let (fw1, s, fx) = run_due now h (due_ids fw now) (fw, EMPTY_SUMMARY, [])
        in (fw1, with_inFlight fw1 s, fx))"

text \<open>
  \<open>drain\<close> up to its \<open>await\<close>: the due ids, the ids that were running before, the
  provisional summary; and what it does once every in-flight promise has settled.
\<close>

definition drain_start ::
  "framework \<Rightarrow> int \<Rightarrow> (string \<Rightarrow> handler_outcome) \<Rightarrow>
     (string list \<times> string list \<times> run_summary) option \<times> framework \<times> effect list" where
  "drain_start fw now h =
     (if fw_phase fw \<noteq> Phase_Idle then (None, fw, [])
      else
        let due = due_ids fw now;
            inherited = map job_id (filter (\<lambda>j. job_status j = ''running'') (map_values (fw_jobs fw)));
            (fw1, s, fx) = run_due now h due (fw, EMPTY_SUMMARY, [])
        in (Some (due, inherited, s), fw1, fx))"

definition drain_finish ::
  "framework \<Rightarrow> (string list \<times> string list \<times> run_summary) option \<Rightarrow> run_summary" where
  "drain_finish fw started =
     (case started of
        None \<Rightarrow> with_inFlight fw EMPTY_SUMMARY
      | Some (due, inherited, s) \<Rightarrow>
          let s1 = fold (bump_id fw) due s;
              s2 = fold (\<lambda>jid s. bump_id fw jid (s\<lparr>sum_ran := sum_ran s + 1\<rparr>))
                     (filter (\<lambda>jid. jid \<notin> set due) inherited) s1
          in with_inFlight fw s2)"

section \<open>Cancellation and shutdown\<close>

definition cancel :: "framework \<Rightarrow> string \<Rightarrow> framework" where
  "cancel fw reason =
     (if fw_phase fw \<noteq> Phase_Idle then fw
      else fw\<lparr>fw_reason := Some reason, fw_phase := Phase_Cancelling, fw_aborted := True\<rparr>)"

record pending_report =
  pr_id :: string
  pr_operation :: string
  pr_status :: string
  pr_attempts :: nat
  pr_maxAttempts :: nat

definition reportJob :: "job \<Rightarrow> pending_report" where
  "reportJob j = \<lparr>pr_id = job_id j, pr_operation = job_operation j, pr_status = job_status j,
     pr_attempts = job_attempts j, pr_maxAttempts = job_maxAttempts j\<rparr>"

record shutdown_report =
  sr_reason :: string
  sr_phase :: shutdown_phase
  sr_pending :: "pending_report list"
  sr_interrupted :: "pending_report list"
  sr_settled :: nat

text \<open>\<open>shutdown\<close> up to its wait, and the report it builds after it.\<close>

definition shutdown_start :: "framework \<Rightarrow> string \<Rightarrow> (string, string) js_map \<times> framework" where
  "shutdown_start fw reason =
     (map (\<lambda>j. (job_id j, job_status j)) (map_values (fw_jobs fw)), cancel fw reason)"

definition status_at_abort :: "(string, string) js_map \<Rightarrow> job \<Rightarrow> string" where
  "status_at_abort atAbort j =
     (case map_get atAbort (job_id j) of Some st \<Rightarrow> st | None \<Rightarrow> job_status j)"

definition was_settled :: "(string, string) js_map \<Rightarrow> job \<Rightarrow> bool" where
  "was_settled atAbort j = (status_at_abort atAbort j \<in> {''succeeded'', ''dead_lettered''})"

definition was_interrupted :: "(string, string) js_map \<Rightarrow> job \<Rightarrow> bool" where
  "was_interrupted atAbort j =
     (\<not> was_settled atAbort j \<and>
      (status_at_abort atAbort j = ''running'' \<or> map_option fst (job_lastError j) = Some ''cancelled''))"

definition shutdown_finish ::
  "framework \<Rightarrow> (string, string) js_map \<Rightarrow> string \<Rightarrow> shutdown_report \<times> framework \<times> effect list" where
  "shutdown_finish fw atAbort reason =
     (let jobs = map_values (fw_jobs fw) in
      (\<lparr>sr_reason = reason, sr_phase = Phase_Stopped,
        sr_pending = map reportJob (filter (\<lambda>j. \<not> was_settled atAbort j \<and> \<not> was_interrupted atAbort j) jobs),
        sr_interrupted = map reportJob (filter (was_interrupted atAbort) jobs),
        sr_settled = length (filter (was_settled atAbort) jobs)\<rparr>,
       fw\<lparr>fw_phase := Phase_Stopped\<rparr>,
       [emitTelemetry ''worker.shutdown'' ''worker'' True None]))"

section \<open>Public operations\<close>

text \<open>\<open>register\<close>; \<open>Err\<close> is the exception for an operation that has a handler.\<close>

definition register ::
  "framework \<Rightarrow> string \<Rightarrow> int option \<Rightarrow> nat option \<Rightarrow> (framework, string) result" where
  "register fw operation retryDelay maxAttempts =
     (if map_get (fw_registrations fw) operation \<noteq> None then Err operation
      else Ok (fw\<lparr>fw_registrations := map_set operation
        \<lparr>reg_retryDelayMs = (case retryDelay of Some d \<Rightarrow> d | None \<Rightarrow> rp_retryDelayMs (fw_policy fw)),
         reg_maxAttempts = (case maxAttempts of Some m \<Rightarrow> m | None \<Rightarrow> rp_maxAttempts (fw_policy fw))\<rparr>
        (fw_registrations fw)\<rparr>))"

definition new_job :: "(nat \<Rightarrow> string) \<Rightarrow> framework \<Rightarrow> int \<Rightarrow> job_input \<Rightarrow> job" where
  "new_job gen fw now input =
     \<lparr>job_id = gen (fw_nextId fw), job_operation = ji_operation input,
      job_params = (case ji_params input of Some p \<Rightarrow> p | None \<Rightarrow> JObj []),
      job_dedupeKey = ji_dedupeKey input,
      job_maxAttempts = (case ji_maxAttempts input of Some m \<Rightarrow> m | None \<Rightarrow> rp_maxAttempts (fw_policy fw)),
      job_attempts = 0, job_status = initial workerJobMachine, job_enqueuedAt = now,
      job_nextAttemptAt = (case ji_delayMs input of
          Some d \<Rightarrow> if d > 0 then Some (now + d) else None | None \<Rightarrow> None),
      job_lastError = None,
      job_correlationId = (case ji_correlationId input of Some c \<Rightarrow> c | None \<Rightarrow> gen (fw_nextId fw + 1))\<rparr>"

definition dedupe_hit :: "framework \<Rightarrow> job_input \<Rightarrow> job option" where
  "dedupe_hit fw input =
     (case ji_dedupeKey input of
        Some k \<Rightarrow> if k = [] then None else findingDedupe (fw_jobs fw) k
      | None \<Rightarrow> None)"

definition enqueue :: "(nat \<Rightarrow> string) \<Rightarrow> framework \<Rightarrow> int \<Rightarrow> job_input \<Rightarrow> job \<times> framework" where
  "enqueue gen fw now input =
     (case dedupe_hit fw input of
        Some existing \<Rightarrow> (existing, fw)
      | None \<Rightarrow>
          let j = new_job gen fw now input in
          (j, fw\<lparr>fw_jobs := map_set (job_id j) j (fw_jobs fw), fw_nextId := fw_nextId fw + 2\<rparr>))"

datatype submit_error =
    Backpressure_Full | Submit_Idempotency idem_error | Submit_Quota quota_failure

record submit_result =
  sb_job :: job
  sb_replayed :: bool
  sb_record :: idem_record

definition live_status :: "string \<Rightarrow> bool" where
  "live_status st = (st \<in> {''queued'', ''retrying'', ''running''})"

definition countLive :: "framework \<Rightarrow> string \<Rightarrow> nat" where
  "countLive fw label =
     length (filter (\<lambda>j. startsWith (job_operation j) label \<and> live_status (job_status j))
       (map_values (fw_jobs fw)))"

definition str_or_null :: "string option \<Rightarrow> json" where
  "str_or_null v = (case v of Some s \<Rightarrow> JStr s | None \<Rightarrow> JNull)"

definition int_or_null :: "int option \<Rightarrow> json" where
  "int_or_null v = (case v of Some i \<Rightarrow> JNum i | None \<Rightarrow> JNull)"

definition submit_request :: "framework \<Rightarrow> job_input \<Rightarrow> begin_request" where
  "submit_request fw input =
     \<lparr>req_key = ji_idempotencyKey input, req_operation = ''worker.enqueue'',
      req_request = JObj
        [(''operation'', JStr (ji_operation input)),
         (''params'', case ji_params input of Some p \<Rightarrow> p | None \<Rightarrow> JObj []),
         (''dedupeKey'', str_or_null (ji_dedupeKey input)),
         (''maxAttempts'', JNum (int (case ji_maxAttempts input of
            Some m \<Rightarrow> m | None \<Rightarrow> rp_maxAttempts (fw_policy fw)))),
         (''delayMs'', int_or_null (ji_delayMs input))],
      req_correlationId = ji_correlationId input\<rparr>"

definition submit_charge :: "job_input \<Rightarrow> quota_request" where
  "submit_charge input =
     \<lparr>qr_operation = ''worker.enqueue'',
      qr_principal = (case ji_principal input of Some p \<Rightarrow> p | None \<Rightarrow> ''system:worker''),
      qr_cost = None, qr_actorType = Some ''worker'', qr_correlationId = ji_correlationId input\<rparr>"

text \<open>\<open>recorded.response?.jobId\<close> when it is a string.\<close>

definition response_job :: "json \<Rightarrow> string option" where
  "response_job v =
     (case v of
        JObj es \<Rightarrow> (case map_of es ''jobId'' of Some (JStr s) \<Rightarrow> Some s | _ \<Rightarrow> None)
      | _ \<Rightarrow> None)"

definition submit_replay ::
  "framework \<Rightarrow> idem_record \<Rightarrow> (submit_result, submit_error) result" where
  "submit_replay fw recorded =
     (case response_job (idem_response recorded) of
        None \<Rightarrow> Err (Submit_Idempotency Key_Not_Found)
      | Some jid \<Rightarrow>
          if jid = [] then Err (Submit_Idempotency Key_Not_Found)
          else case map_get (fw_jobs fw) jid of
            None \<Rightarrow> Err (Submit_Idempotency Key_Not_Found)
          | Some j \<Rightarrow> Ok \<lparr>sb_job = j, sb_replayed = True, sb_record = recorded\<rparr>)"

text \<open>
  The part of \<open>submit\<close> after a fresh claim: charge, enqueue, record. The recorded
  response holds no BigInt, so its write does not throw and that branch is not taken.
\<close>

definition submit_claimed ::
  "(nat \<Rightarrow> string) \<Rightarrow> framework \<Rightarrow> int \<Rightarrow> string \<Rightarrow> job_input \<Rightarrow>
     (submit_result, submit_error) result \<times> framework \<times> effect list" where
  "submit_claimed gen fw now cid input =
     (let key = (case ji_idempotencyKey input of Some k \<Rightarrow> k | None \<Rightarrow> []);
          (charged, q, fx) = consume (fw_quota fw) now cid (submit_charge input);
          fw1 = fw\<lparr>fw_quota := q\<rparr>
      in case charged of
           Err e \<Rightarrow>
             let (_, st, fx') = idem_abandon (fw_idempotency fw1) key in
             (Err (Submit_Quota e), fw1\<lparr>fw_idempotency := st\<rparr>, fx @ fx')
         | Ok _ \<Rightarrow>
             let (j, fw2) = enqueue gen fw1 now input in
             case idem_complete (fw_idempotency fw2) key (JObj [(''jobId'', JStr (job_id j))]) of
               (Returns (Ok record), st, fx') \<Rightarrow>
                 (Ok \<lparr>sb_job = j, sb_replayed = False, sb_record = record\<rparr>,
                  fw2\<lparr>fw_idempotency := st\<rparr>, fx @ fx')
             | (Returns (Err e), st, fx') \<Rightarrow>
                 let (_, st', fx'') = idem_abandon st key in
                 (Err (Submit_Idempotency e), fw2\<lparr>fw_idempotency := st'\<rparr>, fx @ fx' @ fx'')
             | (Throws_TypeError, st, fx') \<Rightarrow>
                 (Err (Submit_Idempotency Key_Not_Found), fw2\<lparr>fw_idempotency := st\<rparr>, fx @ fx'))"

definition submit ::
  "(nat \<Rightarrow> string) \<Rightarrow> framework \<Rightarrow> int \<Rightarrow> string \<Rightarrow> job_input \<Rightarrow>
     (submit_result, submit_error) result \<times> framework \<times> effect list" where
  "submit gen fw now cid input =
     (if (case findGate fw (ji_operation input) of
            Some g \<Rightarrow> countLive fw (gate_label g) \<ge> gate_maxConcurrent g | None \<Rightarrow> False)
      then (Err Backpressure_Full, fw, [])
      else
        let (begun, st, fx) = idem_begin (fw_idempotency fw) now cid (submit_request fw input);
            fw1 = fw\<lparr>fw_idempotency := st\<rparr>
        in case begun of
             Err e \<Rightarrow> (Err (Submit_Idempotency e), fw1, fx)
           | Ok (Replayed recorded) \<Rightarrow> (submit_replay fw1 recorded, fw1, fx)
           | Ok (Claimed _) \<Rightarrow>
               let (r, fw2, fx') = submit_claimed gen fw1 now cid input in (r, fw2, fx @ fx'))"

definition processJob ::
  "framework \<Rightarrow> int \<Rightarrow> string \<Rightarrow> handler_outcome \<Rightarrow> framework \<times> run_summary \<times> effect list" where
  "processJob fw now jid outcome =
     (case map_get (fw_jobs fw) jid of
        None \<Rightarrow> (fw, EMPTY_SUMMARY, [])
      | Some j \<Rightarrow>
          if isTerminal workerJobMachine (job_status j) then (fw, EMPTY_SUMMARY, [])
          else if fw_phase fw \<noteq> Phase_Idle then (fw, with_inFlight fw EMPTY_SUMMARY, [])
          else
            let (fw1, settled, fx) = run_in fw now jid outcome;
                s = EMPTY_SUMMARY\<lparr>sum_ran := 1\<rparr>
            in (fw1, with_inFlight fw1 (if settled then bump_id fw1 jid s else s), fx))"

definition retryJob ::
  "framework \<Rightarrow> int \<Rightarrow> string \<Rightarrow> (job, lifecycle_error) result \<times> framework \<times> effect list" where
  "retryJob fw now jid =
     (case map_get (fw_jobs fw) jid of
        None \<Rightarrow> (Err unknown_state, fw, [])
      | Some j \<Rightarrow>
          (case move now j ''retry'' ''manual_retry'' True of
             (Err e, _, fx) \<Rightarrow> (Err e, fw, fx)
           | (Ok _, j1, fx) \<Rightarrow>
               let j2 = j1\<lparr>job_nextAttemptAt := None, job_attempts := 0\<rparr> in
               (Ok j2, fw\<lparr>fw_jobs := map_set jid j2 (fw_jobs fw)\<rparr>, fx)))"

definition deadLetter ::
  "framework \<Rightarrow> int \<Rightarrow> string \<Rightarrow> (job, lifecycle_error) result \<times> framework \<times> effect list" where
  "deadLetter fw now jid =
     (case map_get (fw_jobs fw) jid of
        None \<Rightarrow> (Err unknown_state, fw, [])
      | Some j \<Rightarrow>
          (case move now j ''dead_letter'' ''manual_dead_letter'' True of
             (Err e, _, fx) \<Rightarrow> (Err e, fw, fx)
           | (Ok _, j1, fx) \<Rightarrow> (Ok j1, fw\<lparr>fw_jobs := map_set jid j1 (fw_jobs fw)\<rparr>, fx)))"

definition job_canTransition :: "string \<Rightarrow> string \<Rightarrow> (bool, lifecycle_error) result" where
  "job_canTransition st event = canTransition workerJobMachine st event"

definition inspect :: "framework \<Rightarrow> string option \<Rightarrow> job list" where
  "inspect fw status =
     (case status of
        Some st \<Rightarrow> if st = [] then map_values (fw_jobs fw)
                   else filter (\<lambda>j. job_status j = st) (map_values (fw_jobs fw))
      | None \<Rightarrow> map_values (fw_jobs fw))"

definition getById :: "framework \<Rightarrow> string \<Rightarrow> job option" where
  "getById fw jid = map_get (fw_jobs fw) jid"

definition gate_reset :: "gate \<Rightarrow> gate" where
  "gate_reset g = g\<lparr>gate_admitted := 0, gate_rejected := 0, gate_evicted := 0, gate_waiters := 0\<rparr>"

definition framework_reset :: "framework \<Rightarrow> framework" where
  "framework_reset fw =
     fw\<lparr>fw_jobs := [], fw_registrations := [], fw_inFlight := [], fw_phase := Phase_Idle,
        fw_reason := None, fw_aborted := False, fw_idempotency := idem_reset (fw_idempotency fw),
        fw_quota := (if fw_ownsQuota fw then quota_reset (fw_quota fw) else fw_quota fw),
        fw_gates := map gate_reset (fw_gates fw)\<rparr>"

section \<open>Moves follow the table\<close>

lemma move_eq:
  "fst (snd (move now j event reason audited)) =
     j\<lparr>job_status := drive workerJobMachine (job_status j) event\<rparr>"
  by (simp add: move_def applyTransition_def drive_def parseState_def resolve_def Let_def
      split: option.split)

definition declared_status :: "string \<Rightarrow> bool" where
  "declared_status st = (st \<in> {''queued'', ''running'', ''retrying'', ''succeeded'', ''dead_lettered''})"

lemma declared_cases:
  assumes "declared_status st"
  obtains "st = ''queued''" | "st = ''running''" | "st = ''retrying''" | "st = ''succeeded''"
    | "st = ''dead_lettered''"
  using assms unfolding declared_status_def by blast

lemma worker_terminal_iff:
  "isTerminal workerJobMachine st \<longleftrightarrow> st = ''succeeded'' \<or> st = ''dead_lettered''"
  by (simp add: worker_job.isTerminal_iff worker_job_definition_def)

section \<open>The invariant of a job\<close>

text \<open>A queued job has used none of its attempts, a retrying one has attempts left.\<close>

definition job_ok :: "job \<Rightarrow> bool" where
  "job_ok j =
     (declared_status (job_status j) \<and> (job_status j = ''queued'' \<longrightarrow> job_attempts j = 0) \<and>
      (job_status j = ''retrying'' \<longrightarrow> job_attempts j < job_maxAttempts j))"

text \<open>What an operation keeps of a job: its identity, and everything decided once it is settled.\<close>

definition job_kept :: "job \<Rightarrow> job \<Rightarrow> bool" where
  "job_kept j j' =
     (job_id j' = job_id j \<and> job_operation j' = job_operation j \<and>
      job_maxAttempts j' = job_maxAttempts j \<and> job_dedupeKey j' = job_dedupeKey j \<and>
      (isTerminal workerJobMachine (job_status j) \<longrightarrow>
         job_status j' = job_status j \<and> job_attempts j' = job_attempts j))"

lemma job_kept_refl [simp]: "job_kept j j"
  by (simp add: job_kept_def)

lemma job_kept_trans: "job_kept j j' \<Longrightarrow> job_kept j' j'' \<Longrightarrow> job_kept j j''"
  by (auto simp: job_kept_def)

text \<open>The event a settlement asks for.\<close>

definition settle_event :: "bool \<Rightarrow> job \<Rightarrow> 'e option \<Rightarrow> string" where
  "settle_event aborted j error =
     (if \<not> aborted \<and> error = None then ''succeed''
      else if job_attempts j \<ge> job_maxAttempts j then ''exhaust'' else ''fail'')"

lemma settle_fields:
  "job_status (fst (settle ab reason now j d error)) =
     drive workerJobMachine (job_status j) (settle_event ab j error)"
  "job_attempts (fst (settle ab reason now j d error)) = job_attempts j"
  "job_maxAttempts (fst (settle ab reason now j d error)) = job_maxAttempts j"
  "job_id (fst (settle ab reason now j d error)) = job_id j"
  "job_operation (fst (settle ab reason now j d error)) = job_operation j"
  "job_dedupeKey (fst (settle ab reason now j d error)) = job_dedupeKey j"
  by (auto simp: settle_def settle_event_def handleFailure_def case_prod_beta Let_def move_eq
      split: option.split)

lemma job_settle_ok: "job_ok j \<Longrightarrow> job_ok (fst (settle ab reason now j d error))"
  unfolding job_ok_def [of "fst _"] settle_fields
  by (cases "job_status j" rule: declared_cases)
    (auto simp: job_ok_def settle_event_def declared_status_def)

lemma job_settle_kept: "job_ok j \<Longrightarrow> job_kept j (fst (settle ab reason now j d error))"
  unfolding job_kept_def settle_fields
  by (auto simp: worker_terminal_iff settle_event_def)

lemma runJob_fields:
  "job_id (fst (runJob fw now j out)) = job_id j"
  "job_operation (fst (runJob fw now j out)) = job_operation j"
  "job_maxAttempts (fst (runJob fw now j out)) = job_maxAttempts j"
  "job_dedupeKey (fst (runJob fw now j out)) = job_dedupeKey j"
  "job_attempts (fst (runJob fw now j out)) = job_attempts j + 1"
  by (auto simp: runJob_def Let_def case_prod_beta move_eq settle_fields
      split: option.split handler_outcome.split)

lemma runJob_status:
  "job_status (fst (runJob fw now j out)) =
     (case map_get (fw_registrations fw) (job_operation j) of
        None \<Rightarrow> drive workerJobMachine (job_status j) ''dead_letter''
      | Some reg \<Rightarrow>
          let st = drive workerJobMachine (job_status j) ''start'';
              j1 = j\<lparr>job_attempts := job_attempts j + 1, job_status := st\<rparr>
          in case out of
               Handler_Pending \<Rightarrow> st
             | Handler_Returned \<Rightarrow> drive workerJobMachine st (settle_event (fw_aborted fw) j1 (None :: unit option))
             | Handler_Threw e m \<Rightarrow> drive workerJobMachine st (settle_event (fw_aborted fw) j1 (Some ())))"
  by (auto simp: runJob_def Let_def case_prod_beta move_eq settle_fields settle_event_def
      split: option.split handler_outcome.split)

lemma runJob_ok:
  assumes "job_ok j" "\<not> isTerminal workerJobMachine (job_status j)"
  shows "job_ok (fst (runJob fw now j out))"
proof -
  have "declared_status (job_status j)" using assms(1) by (simp add: job_ok_def)
  then show ?thesis
    using assms unfolding job_ok_def [of "fst _"] runJob_fields runJob_status
    by (cases rule: declared_cases)
      (auto simp: worker_terminal_iff settle_event_def declared_status_def Let_def
        split: option.split handler_outcome.split)
qed

section \<open>The invariant of the framework\<close>

definition fw_wf :: "(nat \<Rightarrow> string) \<Rightarrow> framework \<Rightarrow> bool" where
  "fw_wf gen fw =
     (map_wf (fw_jobs fw) \<and>
      (\<forall>k j. map_get (fw_jobs fw) k = Some j \<longrightarrow>
         job_id j = k \<and> job_ok j \<and> (\<exists>n < fw_nextId fw. k = gen n)))"

definition fw_le :: "framework \<Rightarrow> framework \<Rightarrow> bool" where
  "fw_le fw fw' =
     (\<forall>k j. map_get (fw_jobs fw) k = Some j \<longrightarrow>
        (\<exists>j'. map_get (fw_jobs fw') k = Some j' \<and> job_kept j j'))"

lemma fw_le_refl [simp]: "fw_le fw fw"
  by (auto simp: fw_le_def)

lemma fw_le_trans: "fw_le a b \<Longrightarrow> fw_le b c \<Longrightarrow> fw_le a c"
  unfolding fw_le_def by (meson job_kept_trans)

lemma fw_wfD:
  "fw_wf gen fw \<Longrightarrow> map_get (fw_jobs fw) k = Some j \<Longrightarrow> job_id j = k \<and> job_ok j"
  by (simp add: fw_wf_def)

text \<open>Replacing one job by a kept one, whatever else of the framework changes.\<close>

lemma fw_update:
  assumes "fw_wf gen fw" "map_get (fw_jobs fw) k = Some j" "job_ok j'" "job_kept j j'"
    "fw_jobs fw' = map_set k j' (fw_jobs fw)" "fw_nextId fw' = fw_nextId fw"
  shows "fw_wf gen fw' \<and> fw_le fw fw'"
  using assms by (auto simp: fw_wf_def fw_le_def map_get_set job_kept_def)

lemma fw_same_jobs:
  assumes "fw_wf gen fw" "fw_jobs fw' = fw_jobs fw" "fw_nextId fw' = fw_nextId fw"
  shows "fw_wf gen fw' \<and> fw_le fw fw'"
  using assms by (auto simp: fw_wf_def fw_le_def)

lemma run_in_step:
  assumes "fw_wf gen fw" "map_get (fw_jobs fw) k = Some j"
    "\<not> isTerminal workerJobMachine (job_status j)"
  shows "fw_wf gen (fst (run_in fw now k out)) \<and> fw_le fw (fst (run_in fw now k out))"
proof -
  have ok: "job_ok (fst (runJob fw now j out))"
    using runJob_ok assms fw_wfD by blast
  have kept: "job_kept j (fst (runJob fw now j out))"
    using assms(3) by (simp add: job_kept_def runJob_fields)
  show ?thesis
    using assms(2) by (intro fw_update [OF assms(1,2) ok kept])
      (simp_all add: run_in_def case_prod_beta Let_def)
qed

lemma run_in_other:
  "k \<noteq> k' \<Longrightarrow> map_get (fw_jobs (fst (run_in fw now k out))) k' = map_get (fw_jobs fw) k'"
  by (simp add: run_in_def case_prod_beta Let_def split: option.split)

lemma run_in_nextId [simp]: "fw_nextId (fst (run_in fw now k out)) = fw_nextId fw"
  by (simp add: run_in_def case_prod_beta Let_def split: option.split)

definition runnable :: "framework \<Rightarrow> string \<Rightarrow> bool" where
  "runnable fw k = (\<exists>j. map_get (fw_jobs fw) k = Some j \<and> \<not> isTerminal workerJobMachine (job_status j))"

lemma run_due_step:
  "fw_wf gen fw \<Longrightarrow> distinct ids \<Longrightarrow> list_all (runnable fw) ids \<Longrightarrow>
     fw_wf gen (fst (run_due now h ids (fw, s, fx))) \<and> fw_le fw (fst (run_due now h ids (fw, s, fx)))"
proof (induction ids arbitrary: fw s fx)
  case (Cons k ids)
  let ?fw1 = "fst (run_in fw now k (h k))"
  obtain j where j: "map_get (fw_jobs fw) k = Some j" "\<not> isTerminal workerJobMachine (job_status j)"
    using Cons.prems(3) by (auto simp: runnable_def)
  note one = run_in_step [OF Cons.prems(1) j, of now "h k"]
  have "list_all (runnable ?fw1) ids"
    using Cons.prems(2,3) by (auto simp: list_all_iff runnable_def) (metis run_in_other)
  with Cons.IH [of ?fw1] one Cons.prems(2)
  have "fw_wf gen (fst (run_due now h ids (?fw1, s', fx'))) \<and> fw_le ?fw1 (fst (run_due now h ids (?fw1, s', fx')))"
    for s' fx' by simp
  with one fw_le_trans show ?case by (simp add: case_prod_beta Let_def) blast
qed simp

lemma map_values_mem: "fw_wf gen fw \<Longrightarrow> j \<in> set (map_values (fw_jobs fw)) \<Longrightarrow>
    map_get (fw_jobs fw) (job_id j) = Some j"
  using map_values_mem_iff by (fastforce simp: fw_wf_def)

lemma values_ids: "fw_wf gen fw \<Longrightarrow> map job_id (map_values (fw_jobs fw)) = map fst (fw_jobs fw)"
  using map_wf_get_iff [of "fw_jobs fw"] by (auto simp: fw_wf_def map_values_def)

lemma due_ids_runnable:
  assumes "fw_wf gen fw"
  shows "distinct (due_ids fw now)" "list_all (runnable fw) (due_ids fw now)"
proof -
  have "distinct (map job_id (map_values (fw_jobs fw)))"
    using assms values_ids [OF assms] by (simp add: fw_wf_def map_wf_def)
  then show "distinct (due_ids fw now)"
    by (simp add: due_ids_def distinct_map_filter)
  show "list_all (runnable fw) (due_ids fw now)"
    using map_values_mem [OF assms]
    by (auto simp: list_all_iff due_ids_def runnable_def isDue_def worker_terminal_iff split: if_splits)
qed

end
