(* ===== verification/Worker_Runs.thy ===== *)
theory Worker_Runs
  imports Workers
begin

text \<open>
  Runs of the worker framework: sequences of its public calls and of promise
  settlements, in any order. The lemmas show what every run keeps (the states of the
  table, the retry budget, settled jobs), that a cancelled framework never reports a
  success, and the exactly-once contract of \<open>submit\<close>.
\<close>

section \<open>Events\<close>

datatype worker_event =
    W_Register string "int option" "nat option"
  | W_Enqueue int job_input
  | W_Submit int string job_input
  | W_Drain int "string \<Rightarrow> handler_outcome"
  | W_Settle int string "(thrown \<times> string option) option"
  | W_Process int string handler_outcome
  | W_Retry int string
  | W_DeadLetter int string
  | W_Cancel string
  | W_Stop string

text \<open>Every call but \<open>reset\<close>, which forgets the jobs.\<close>

fun worker_step :: "(nat \<Rightarrow> string) \<Rightarrow> framework \<Rightarrow> worker_event \<Rightarrow> framework" where
  "worker_step gen fw (W_Register oper d m) =
     (case register fw oper d m of Ok fw' \<Rightarrow> fw' | Err _ \<Rightarrow> fw)"
| "worker_step gen fw (W_Enqueue now input) = snd (enqueue gen fw now input)"
| "worker_step gen fw (W_Submit now cid input) = fst (snd (submit gen fw now cid input))"
| "worker_step gen fw (W_Drain now h) = fst (drainDueJobs fw now h)"
| "worker_step gen fw (W_Settle now k error) = fst (promise_settles fw now k error)"
| "worker_step gen fw (W_Process now k out) = fst (processJob fw now k out)"
| "worker_step gen fw (W_Retry now k) = fst (snd (retryJob fw now k))"
| "worker_step gen fw (W_DeadLetter now k) = fst (snd (deadLetter fw now k))"
| "worker_step gen fw (W_Cancel reason) = cancel fw reason"
| "worker_step gen fw (W_Stop reason) = fst (snd (shutdown_finish fw [] reason))"

lemma fw_wf_gen:
  "fw_wf gen fw \<Longrightarrow> map_get (fw_jobs fw) k = Some j \<Longrightarrow> \<exists>n < fw_nextId fw. k = gen n"
  unfolding fw_wf_def by blast

lemma enqueue_step:
  assumes "inj gen" "fw_wf gen fw"
  shows "fw_wf gen (snd (enqueue gen fw now input)) \<and> fw_le fw (snd (enqueue gen fw now input))"
proof (cases "dedupe_hit fw input")
  case (Some j)
  then show ?thesis using assms by (simp add: enqueue_def)
next
  case None
  let ?j = "new_job gen fw now input"
  let ?n = "fw_nextId fw" and ?fw' = "snd (enqueue gen fw now input)"
  have jid: "job_id ?j = gen ?n" by (simp add: new_job_def)
  have "job_status ?j = ''queued''"
    by (simp add: new_job_def initial_def worker_job.machine_fields worker_job_definition_def)
  then have ok: "job_ok ?j"
    by (simp add: job_ok_def declared_status_def new_job_def)
  have jobs: "fw_jobs ?fw' = map_set (gen ?n) ?j (fw_jobs fw)" "fw_nextId ?fw' = ?n + 2"
    using None jid by (simp_all add: enqueue_def Let_def)
  have old: "k \<noteq> gen ?n" if "map_get (fw_jobs fw) k = Some j" for k j
  proof -
    from fw_wf_gen [OF assms(2) that] obtain m where "m < ?n" "k = gen m" by blast
    with assms(1) show ?thesis by (simp add: inj_eq)
  qed
  have "fw_wf gen ?fw'"
    unfolding fw_wf_def
  proof (intro conjI allI impI)
    show "map_wf (fw_jobs ?fw')" using assms(2) by (simp add: fw_wf_def jobs)
  next
    fix k j assume "map_get (fw_jobs ?fw') k = Some j"
    then consider "k = gen ?n" "j = ?j" | "map_get (fw_jobs fw) k = Some j"
      unfolding jobs map_get_set by (cases "k = gen ?n") simp_all
    then have "job_id j = k \<and> job_ok j \<and> (\<exists>n < ?n + 2. k = gen n)"
    proof cases
      case 1
      moreover have "?n < ?n + 2" by simp
      ultimately show ?thesis using jid ok by blast
    next
      case 2
      from fw_wf_gen [OF assms(2) 2] obtain m where "m < ?n" "k = gen m" by blast
      moreover from 2 fw_wfD [OF assms(2)] have "job_id j = k \<and> job_ok j" by blast
      moreover from \<open>m < ?n\<close> have "m < ?n + 2" by simp
      ultimately show ?thesis by blast
    qed
    then show "job_id j = k" "job_ok j" "\<exists>n < fw_nextId ?fw'. k = gen n" by (simp_all add: jobs)
  qed
  moreover have "fw_le fw ?fw'"
    unfolding fw_le_def jobs map_get_set using old job_kept_refl by (metis fun_upd_other)
  ultimately show ?thesis by simp
qed

lemma fw_update_fields:
  "fw_wf gen (fw\<lparr>fw_idempotency := a\<rparr>) = fw_wf gen fw" "fw_wf gen (fw\<lparr>fw_quota := q\<rparr>) = fw_wf gen fw"
  "fw_le fw0 (fw\<lparr>fw_idempotency := a\<rparr>) = fw_le fw0 fw" "fw_le (fw\<lparr>fw_idempotency := a\<rparr>) fw0 = fw_le fw fw0"
  "fw_le (fw\<lparr>fw_quota := q\<rparr>) fw0 = fw_le fw fw0" "fw_le fw0 (fw\<lparr>fw_quota := q\<rparr>) = fw_le fw0 fw"
  by (simp_all add: fw_wf_def fw_le_def)

lemma submit_claimed_step:
  assumes "inj gen" "fw_wf gen fw"
  shows "fw_wf gen (fst (snd (submit_claimed gen fw now cid input))) \<and>
    fw_le fw (fst (snd (submit_claimed gen fw now cid input)))"
  using assms enqueue_step [of gen "fw\<lparr>fw_quota := fst (snd (consume (fw_quota fw) now cid (submit_charge input)))\<rparr>" now input]
  by (auto simp: submit_claimed_def Let_def case_prod_beta fw_update_fields
      split: result.split js_call.split prod.split)

lemma submit_step:
  assumes "inj gen" "fw_wf gen fw"
  shows "fw_wf gen (fst (snd (submit gen fw now cid input))) \<and> fw_le fw (fst (snd (submit gen fw now cid input)))"
  using assms submit_claimed_step [OF assms(1), of "fw\<lparr>fw_idempotency := _\<rparr>"]
  by (auto simp: submit_def Let_def case_prod_beta fw_update_fields split: result.split begin_outcome.split)

lemma move_kept:
  "job_kept j (fst (snd (move now j event reason audited)))"
  using worker_job.drive_terminal by (simp add: move_eq job_kept_def)

lemma move_result:
  "fst (move now j event reason audited) = resolve workerJobMachine (job_status j) event"
  by (simp add: move_def applyTransition_def parseState_def resolve_def Let_def split: option.split)

lemma retryJob_step:
  assumes "fw_wf gen fw"
  shows "fw_wf gen (fst (snd (retryJob fw now k))) \<and> fw_le fw (fst (snd (retryJob fw now k)))"
proof (cases "map_get (fw_jobs fw) k")
  case None
  then show ?thesis using assms by (simp add: retryJob_def)
next
  case (Some j)
  obtain r j1 fx where m: "move now j ''retry'' ''manual_retry'' True = (r, j1, fx)"
    by (cases "move now j ''retry'' ''manual_retry'' True")
  have j: "job_ok j" using fw_wfD [OF assms Some] by simp
  show ?thesis
  proof (cases r)
    case (Err e)
    then show ?thesis using assms Some m by (simp add: retryJob_def)
  next
    case (Ok st)
    let ?j2 = "j1\<lparr>job_nextAttemptAt := None, job_attempts := 0\<rparr>"
    have j1: "j1 = j\<lparr>job_status := drive workerJobMachine (job_status j) ''retry''\<rparr>"
      using move_eq [of now j "''retry''"] m by (metis fst_conv snd_conv)
    have moved: "isOk (resolve workerJobMachine (job_status j) ''retry'')"
      using move_result [of now j "''retry''" "''manual_retry''" True] m Ok by (metis fst_conv isOk.simps(1))
    have st: "job_status j = ''retrying''"
      using moved by (auto simp: isOk_iff worker_job.resolve_Ok_iff lifecycle_step_simps worker_job_definition_def)
    have "job_ok ?j2" "job_kept j ?j2"
      using st j1 by (simp_all add: job_ok_def declared_status_def job_kept_def worker_terminal_iff)
    then show ?thesis
      using Ok m Some by (intro fw_update [OF assms Some]) (simp_all add: retryJob_def Let_def)
  qed
qed

lemma deadLetter_step:
  assumes "fw_wf gen fw"
  shows "fw_wf gen (fst (snd (deadLetter fw now k))) \<and> fw_le fw (fst (snd (deadLetter fw now k)))"
proof (cases "map_get (fw_jobs fw) k")
  case None
  then show ?thesis using assms by (simp add: deadLetter_def)
next
  case (Some j)
  obtain r j1 fx where m: "move now j ''dead_letter'' ''manual_dead_letter'' True = (r, j1, fx)"
    by (cases "move now j ''dead_letter'' ''manual_dead_letter'' True")
  have j1: "j1 = j\<lparr>job_status := drive workerJobMachine (job_status j) ''dead_letter''\<rparr>"
    using move_eq [of now j "''dead_letter''"] m by (metis fst_conv snd_conv)
  have j: "job_ok j" using fw_wfD [OF assms Some] by simp
  then have "declared_status (job_status j)" by (simp add: job_ok_def)
  then have "job_ok j1"
    using j j1 by (cases rule: declared_cases) (auto simp: job_ok_def declared_status_def)
  moreover have "job_kept j j1" using move_kept [of j now "''dead_letter''"] m by (metis fst_conv snd_conv)
  ultimately show ?thesis
    using m Some fw_update [OF assms Some, of j1] assms by (cases r) (simp_all add: deadLetter_def)
qed

lemma settles_step:
  assumes "fw_wf gen fw"
  shows "fw_wf gen (fst (promise_settles fw now k error)) \<and> fw_le fw (fst (promise_settles fw now k error))"
proof (cases "\<exists>d rest j. take_entry k (fw_inFlight fw) = Some (d, rest) \<and> map_get (fw_jobs fw) k = Some j")
  case False
  then show ?thesis using assms by (auto simp: promise_settles_def split: option.split)
next
  case True
  then obtain d rest j where e: "take_entry k (fw_inFlight fw) = Some (d, rest)" "map_get (fw_jobs fw) k = Some j"
    by blast
  have j: "job_ok j" using fw_wfD [OF assms e(2)] by simp
  show ?thesis
    using e by (intro fw_update [OF assms e(2) job_settle_ok [OF j] job_settle_kept [OF j]])
      (simp_all add: promise_settles_def case_prod_beta Let_def)
qed

lemma worker_step_ok:
  assumes "inj gen" "fw_wf gen fw"
  shows "fw_wf gen (worker_step gen fw e) \<and> fw_le fw (worker_step gen fw e)"
proof (cases e)
  case (W_Register oper d m)
  then show ?thesis using assms by (simp add: register_def fw_wf_def fw_le_def)
next
  case (W_Drain now h)
  note due = run_due_step [OF assms(2) due_ids_runnable [OF assms(2)], where now = now and h = h]
  show ?thesis
    using W_Drain due [of now EMPTY_SUMMARY "[]"] assms by (simp add: drainDueJobs_def case_prod_beta Let_def)
next
  case (W_Process now k out)
  then show ?thesis
    using assms run_in_step [OF assms(2), of k _ now out]
    by (auto simp: processJob_def case_prod_beta Let_def split: option.split)
qed (use assms enqueue_step submit_step settles_step retryJob_step deadLetter_step in
    \<open>simp_all add: cancel_def shutdown_finish_def Let_def fw_same_jobs\<close>)

lemma worker_runs: "inj gen \<Longrightarrow> monotone_system (worker_step gen) (fw_wf gen) fw_le"
  using worker_step_ok fw_le_trans by unfold_locales (blast intro: fw_le_refl)+

section \<open>What every run keeps\<close>

text \<open>
  C3. A settled job stays settled: once a job succeeded or was dead-lettered, no later
  run of calls and promise settlements changes its state or its attempt count.
\<close>

theorem settled_jobs_stay:
  assumes "inj gen" "fw_wf gen fw" "getById fw k = Some j" "isTerminal workerJobMachine (job_status j)"
  shows "\<exists>j'. getById (foldl (worker_step gen) fw es) k = Some j' \<and>
    job_status j' = job_status j \<and> job_attempts j' = job_attempts j"
  using monotone_system.run_leq [OF worker_runs [OF assms(1)] assms(2), of es] assms(3,4)
  by (auto simp: fw_le_def getById_def job_kept_def)

text \<open>A settled job used by the witnesses, stored under the first generated id.\<close>

definition unary_id :: "nat \<Rightarrow> string" where
  "unary_id n = replicate n (CHR ''a'')"

lemma inj_unary_id: "inj unary_id"
  by (rule inj_onI) (metis length_replicate unary_id_def)

definition sample_job :: "string \<Rightarrow> nat \<Rightarrow> job" where
  "sample_job st tries =
     \<lparr>job_id = [], job_operation = ''op'', job_params = JObj [], job_dedupeKey = None,
      job_maxAttempts = 3, job_attempts = tries, job_status = st, job_enqueuedAt = 0,
      job_nextAttemptAt = None, job_lastError = None, job_correlationId = ''c''\<rparr>"

definition sample_framework :: "string \<Rightarrow> nat \<Rightarrow> framework" where
  "sample_framework st tries =
     (createWorkerFramework DEFAULT_POLICY None [])\<lparr>fw_jobs := [([], sample_job st tries)],
        fw_registrations := [(''op'', \<lparr>reg_retryDelayMs = 250, reg_maxAttempts = 3\<rparr>)],
        fw_nextId := 2\<rparr>"

lemma sample_framework_wf: "job_ok (sample_job st tries) \<Longrightarrow> fw_wf unary_id (sample_framework st tries)"
  by (auto simp: fw_wf_def sample_framework_def sample_job_def unary_id_def map_wf_def map_get_def split: if_splits)

lemma sample_get: "getById (sample_framework st tries) [] = Some (sample_job st tries)"
  by (simp add: getById_def sample_framework_def map_get_def)

theorem settled_jobs_stay_witness:
  "\<exists>j'. getById (foldl (worker_step unary_id) (sample_framework ''dead_lettered'' 3)
      [W_Retry 5 [], W_Process 9 [] Handler_Returned]) [] = Some j' \<and>
    job_status j' = ''dead_lettered'' \<and> job_attempts j' = 3"
  using settled_jobs_stay [OF inj_unary_id sample_framework_wf sample_get, of "''dead_lettered''" 3
      "[W_Retry 5 [], W_Process 9 [] Handler_Returned]"]
  by (simp add: job_ok_def sample_job_def declared_status_def worker_terminal_iff)

lemma created_wf: "fw_wf gen (createWorkerFramework pol quota gates)"
  by (simp add: fw_wf_def createWorkerFramework_def)

text \<open>
  C4. The retry budget: from a fresh framework, in every run, a job is always in a
  declared state, a queued job has used no attempt, and a job waiting for a retry has
  used fewer attempts than its budget, so no failure is retried beyond it.
\<close>

theorem retry_budget:
  assumes "inj gen"
    "getById (foldl (worker_step gen) (createWorkerFramework pol quota gates) es) k = Some j"
  shows "isState workerJobMachine (job_status j) \<and>
    (job_status j = ''queued'' \<longrightarrow> job_attempts j = 0) \<and>
    (job_status j = ''retrying'' \<longrightarrow> job_attempts j < job_maxAttempts j)"
proof -
  have "fw_wf gen (foldl (worker_step gen) (createWorkerFramework pol quota gates) es)"
    using worker_runs [OF assms(1)] created_wf
    by (rule step_system.run_keeps [OF monotone_system.axioms(1)])
  from fw_wfD [OF this, of k j] assms(2) show ?thesis
    by (auto simp: getById_def job_ok_def declared_status_def worker_job.isState_iff worker_job_definition_def)
qed

lemma enqueued_get:
  "getById (foldl (worker_step unary_id) (createWorkerFramework DEFAULT_POLICY None [])
      [W_Enqueue 7 \<lparr>ji_operation = ''op'', ji_params = None, ji_dedupeKey = None, ji_maxAttempts = None,
        ji_correlationId = None, ji_delayMs = None, ji_idempotencyKey = None, ji_principal = None\<rparr>]) [] =
    Some ((sample_job ''queued'' 0)\<lparr>job_enqueuedAt := 7, job_correlationId := ''a''\<rparr>)"
  by (simp add: getById_def enqueue_def dedupe_hit_def new_job_def createWorkerFramework_def sample_job_def
      unary_id_def DEFAULT_POLICY_def initial_def worker_job.machine_fields worker_job_definition_def Let_def)

theorem retry_budget_witness:
  "isState workerJobMachine (job_status (sample_job ''queued'' 0)) \<and> job_attempts (sample_job ''queued'' 0) = 0"
  using retry_budget [OF inj_unary_id enqueued_get] by (simp add: sample_job_def)

section \<open>Cancellation\<close>

definition no_new_success :: "framework \<Rightarrow> framework \<Rightarrow> bool" where
  "no_new_success fw fw' =
     (\<forall>k j'. map_get (fw_jobs fw') k = Some j' \<longrightarrow> job_status j' = ''succeeded'' \<longrightarrow>
        (\<exists>j. map_get (fw_jobs fw) k = Some j \<and> job_status j = ''succeeded''))"

definition frozen :: "framework \<Rightarrow> bool" where
  "frozen fw = (fw_aborted fw \<and> fw_phase fw \<noteq> Phase_Idle)"

lemma no_new_success_same: "fw_jobs fw' = fw_jobs fw \<Longrightarrow> no_new_success fw fw'"
  by (auto simp: no_new_success_def)

lemma no_new_success_update:
  assumes "map_get (fw_jobs fw) k = Some j" "fw_jobs fw' = map_set k j' (fw_jobs fw)"
    "job_status j' = ''succeeded'' \<Longrightarrow> job_status j = ''succeeded''"
  shows "no_new_success fw fw'"
  unfolding no_new_success_def assms(2) map_get_set using assms(1,3) by auto

lemma no_new_success_fields [simp]:
  "no_new_success fw (fw'\<lparr>fw_idempotency := a\<rparr>) = no_new_success fw fw'"
  "no_new_success (fw\<lparr>fw_quota := q\<rparr>) fw' = no_new_success fw fw'"
  "no_new_success (fw\<lparr>fw_idempotency := a\<rparr>) fw' = no_new_success fw fw'"
  "no_new_success fw (fw'\<lparr>fw_quota := q\<rparr>) = no_new_success fw fw'"
  by (simp_all add: no_new_success_def)

lemma queued_status: "job_status (new_job gen fw now input) = ''queued''"
  by (simp add: new_job_def initial_def worker_job.machine_fields worker_job_definition_def)

lemma enqueue_no_success: "no_new_success fw (snd (enqueue gen fw now input))"
  by (auto simp: enqueue_def Let_def no_new_success_def map_get_set queued_status
      split: option.split if_splits)

lemma enqueue_frozen: "frozen (snd (enqueue gen fw now input)) = frozen fw"
  by (simp add: enqueue_def Let_def frozen_def split: option.split)

lemma submit_no_success: "no_new_success fw (fst (snd (submit gen fw now cid input)))"
proof -
  have "no_new_success fw' (fst (snd (submit_claimed gen fw' now cid input)))" for fw'
    using enqueue_no_success [of "fw'\<lparr>fw_quota := fst (snd (consume (fw_quota fw') now cid (submit_charge input)))\<rparr>" gen now input]
    by (auto simp: submit_claimed_def Let_def case_prod_beta no_new_success_same
        split: result.split js_call.split prod.split)
  from this [of "fw\<lparr>fw_idempotency := _\<rparr>"] show ?thesis
    by (auto simp: submit_def Let_def case_prod_beta no_new_success_same split: result.split begin_outcome.split)
qed

lemma frozen_fields [simp]:
  "frozen (fw\<lparr>fw_idempotency := a\<rparr>) = frozen fw" "frozen (fw\<lparr>fw_quota := q\<rparr>) = frozen fw"
  by (simp_all add: frozen_def)

lemma submit_frozen: "frozen (fst (snd (submit gen fw now cid input))) = frozen fw"
proof -
  have "frozen (fst (snd (submit_claimed gen fw' now cid input))) = frozen fw'" for fw'
    using enqueue_frozen [of gen "fw'\<lparr>fw_quota := fst (snd (consume (fw_quota fw') now cid (submit_charge input)))\<rparr>" now input]
    by (simp add: submit_claimed_def Let_def case_prod_beta split: result.split js_call.split prod.split)
  then show ?thesis
    by (simp add: submit_def Let_def case_prod_beta split: result.split begin_outcome.split)
qed

lemma drive_success:
  assumes "job_ok j" "event \<in> {''retry'', ''dead_letter'', ''fail'', ''exhaust''}"
    "drive workerJobMachine (job_status j) event = ''succeeded''"
  shows "job_status j = ''succeeded''"
proof -
  have "declared_status (job_status j)" using assms(1) by (simp add: job_ok_def)
  then show ?thesis using assms(2,3) by (cases rule: declared_cases) auto
qed

lemma move_no_success:
  assumes "fw_wf gen fw" "map_get (fw_jobs fw) k = Some j"
    "event \<in> {''retry'', ''dead_letter'', ''fail'', ''exhaust''}"
    "job_status j' = drive workerJobMachine (job_status j) event"
    "fw_jobs fw' = map_set k j' (fw_jobs fw)"
  shows "no_new_success fw fw'"
  using fw_wfD [OF assms(1,2)] assms(4) drive_success [OF _ assms(3), of j]
  by (intro no_new_success_update [OF assms(2,5)]) simp

lemma retryJob_no_success: "fw_wf gen fw \<Longrightarrow> no_new_success fw (fst (snd (retryJob fw now k)))"
proof (cases "map_get (fw_jobs fw) k")
  case None
  then show ?thesis by (simp add: retryJob_def no_new_success_same)
next
  case (Some j)
  assume wf: "fw_wf gen fw"
  obtain r j1 fx where m: "move now j ''retry'' ''manual_retry'' True = (r, j1, fx)"
    by (cases "move now j ''retry'' ''manual_retry'' True")
  have "job_status j1 = drive workerJobMachine (job_status j) ''retry''"
    using move_eq [of now j "''retry''" "''manual_retry''" True] by (simp add: m)
  with Some m wf show ?thesis
    by (cases r) (simp_all add: retryJob_def Let_def no_new_success_same
        move_no_success [where event = "''retry''" and j' = "j1\<lparr>job_nextAttemptAt := None, job_attempts := 0\<rparr>"])
qed

lemma deadLetter_no_success: "fw_wf gen fw \<Longrightarrow> no_new_success fw (fst (snd (deadLetter fw now k)))"
proof (cases "map_get (fw_jobs fw) k")
  case None
  then show ?thesis by (simp add: deadLetter_def no_new_success_same)
next
  case (Some j)
  assume wf: "fw_wf gen fw"
  obtain r j1 fx where m: "move now j ''dead_letter'' ''manual_dead_letter'' True = (r, j1, fx)"
    by (cases "move now j ''dead_letter'' ''manual_dead_letter'' True")
  have "job_status j1 = drive workerJobMachine (job_status j) ''dead_letter''"
    using move_eq [of now j "''dead_letter''" "''manual_dead_letter''" True] by (simp add: m)
  with Some m wf show ?thesis
    by (cases r) (simp_all add: deadLetter_def no_new_success_same
        move_no_success [where event = "''dead_letter''" and j' = j1])
qed

lemma settles_no_success:
  assumes "fw_wf gen fw" "fw_aborted fw"
  shows "no_new_success fw (fst (promise_settles fw now k error))"
proof (cases "\<exists>d rest j. take_entry k (fw_inFlight fw) = Some (d, rest) \<and> map_get (fw_jobs fw) k = Some j")
  case False
  then show ?thesis by (auto simp: promise_settles_def no_new_success_same split: option.split)
next
  case True
  then obtain d rest j where e: "take_entry k (fw_inFlight fw) = Some (d, rest)" "map_get (fw_jobs fw) k = Some j"
    by blast
  have "settle_event True j error \<in> {''retry'', ''dead_letter'', ''fail'', ''exhaust''}"
    by (simp add: settle_event_def)
  from move_no_success [OF assms(1) e(2) this, of "fst (settle True (fw_reason fw) now j d error)"] e assms(2)
  show ?thesis
    by (simp add: promise_settles_def case_prod_beta Let_def settle_fields)
qed

lemma cancelled_step:
  assumes "fw_wf gen fw" "frozen fw"
  shows "frozen (worker_step gen fw e) \<and> no_new_success fw (worker_step gen fw e)"
proof (cases e)
  case (W_Register oper d m)
  then show ?thesis using assms by (simp add: register_def frozen_def no_new_success_same)
next
  case (W_Drain now h)
  then show ?thesis using assms by (simp add: drainDueJobs_def frozen_def no_new_success_same)
next
  case (W_Process now k out)
  then show ?thesis
    using assms by (simp add: processJob_def frozen_def no_new_success_same split: option.split)
next
  case (W_Settle now k error)
  have "frozen (fst (promise_settles fw now k error))"
    using assms(2) by (simp add: promise_settles_def frozen_def case_prod_beta Let_def split: option.split)
  then show ?thesis using W_Settle assms settles_no_success by (simp add: frozen_def)
next
  case (W_Retry now k)
  have "frozen (fst (snd (retryJob fw now k)))"
    using assms(2) by (simp add: retryJob_def frozen_def case_prod_beta Let_def split: option.split result.split)
  then show ?thesis using W_Retry assms retryJob_no_success by simp
next
  case (W_DeadLetter now k)
  have "frozen (fst (snd (deadLetter fw now k)))"
    using assms(2) by (simp add: deadLetter_def frozen_def case_prod_beta Let_def split: option.split result.split)
  then show ?thesis using W_DeadLetter assms deadLetter_no_success by simp
qed (use assms enqueue_no_success enqueue_frozen submit_no_success submit_frozen in
    \<open>simp_all add: cancel_def shutdown_finish_def Let_def frozen_def no_new_success_same\<close>)

lemma no_new_success_refl: "no_new_success fw fw"
  by (simp add: no_new_success_same)

lemma no_new_success_trans: "no_new_success a b \<Longrightarrow> no_new_success b c \<Longrightarrow> no_new_success a c"
  unfolding no_new_success_def by metis

lemma cancelled_runs:
  "inj gen \<Longrightarrow> monotone_system (worker_step gen) (\<lambda>fw. fw_wf gen fw \<and> frozen fw) no_new_success"
  using worker_step_ok cancelled_step no_new_success_trans
  by unfold_locales (blast intro: no_new_success_refl)+

text \<open>
  C2. A cancelled framework never reports a success: after \<open>cancel\<close>, whatever calls are
  made and however the handlers in flight settle, a job that ends \<open>succeeded\<close> had
  succeeded before the cancellation.
\<close>

theorem cancelled_never_succeeds:
  assumes "inj gen" "fw_wf gen fw" "fw_phase fw = Phase_Idle"
    "getById (foldl (worker_step gen) (cancel fw reason) es) k = Some j'" "job_status j' = ''succeeded''"
  shows "\<exists>j. getById fw k = Some j \<and> job_status j = ''succeeded''"
proof -
  have "fw_wf gen (cancel fw reason) \<and> frozen (cancel fw reason)"
    using assms(2,3) by (simp add: cancel_def frozen_def fw_same_jobs)
  from monotone_system.run_leq [OF cancelled_runs [OF assms(1)] this, of es] assms(3-5)
  show ?thesis by (simp add: getById_def no_new_success_def cancel_def)
qed

theorem cancelled_never_succeeds_witness:
  "\<exists>j. getById (sample_framework ''succeeded'' 1) [] = Some j \<and> job_status j = ''succeeded''"
proof -
  have "getById (foldl (worker_step unary_id) (cancel (sample_framework ''succeeded'' 1) ''stop'')
      [W_Process 5 [] Handler_Returned]) [] = Some (sample_job ''succeeded'' 1)"
    by (simp add: processJob_def cancel_def sample_framework_def createWorkerFramework_def map_get_def
        getById_def worker_terminal_iff sample_job_def)
  from cancelled_never_succeeds [OF inj_unary_id sample_framework_wf _ this] show ?thesis
    by (simp add: job_ok_def sample_job_def declared_status_def sample_framework_def createWorkerFramework_def)
qed

end
