(* ===== verification/Worker_Submit.thy ===== *)
theory Worker_Submit
  imports Worker_Runs
begin

text \<open>
  The exactly-once contract of \<open>submit\<close>: the worker framework uses the idempotency
  store only through its operations, so what theory \<open>Idempotency\<close> shows of every run of
  the store holds along every run of the framework.
\<close>

section \<open>The idempotency store of a run\<close>

fun event_before :: "int \<Rightarrow> worker_event \<Rightarrow> bool" where
  "event_before T (W_Submit now cid input) = (now < T)"
| "event_before T _ = True"

lemma enqueue_idempotency [simp]:
  "fw_idempotency (snd (enqueue gen fw now input)) = fw_idempotency fw"
  "fw_policy (snd (enqueue gen fw now input)) = fw_policy fw"
  "fw_gates (snd (enqueue gen fw now input)) = fw_gates fw"
  by (simp_all add: enqueue_def Let_def split: option.split)

lemma submit_claimed_idempotency:
  "idem_reached T (fw_idempotency fw) (fw_idempotency (fst (snd (submit_claimed gen fw now cid input))))"
proof -
  let ?k = "case ji_idempotencyKey input of Some k \<Rightarrow> k | None \<Rightarrow> []" and ?s = "fw_idempotency fw"
  let ?q = "fw\<lparr>fw_quota := fst (snd (consume (fw_quota fw) now cid (submit_charge input)))\<rparr>"
  let ?c = "idem_complete ?s ?k (JObj [(''jobId'', JStr (job_id (fst (enqueue gen ?q now input))))])"
  have ends: "idem_reached T ?s (fst (snd ?c))" "idem_reached T ?s (fst (snd (idem_abandon (fst (snd ?c)) ?k)))"
    using idem_reached_trans idem_reached_calls by blast+
  have "fw_idempotency (fst (snd (submit_claimed gen fw now cid input))) \<in>
      {fst (snd (idem_abandon ?s ?k)), fst (snd ?c), fst (snd (idem_abandon (fst (snd ?c)) ?k))}"
    by (simp add: submit_claimed_def Let_def case_prod_beta split: result.split js_call.split prod.split)
  with ends show ?thesis by auto
qed

lemma submit_idempotency:
  assumes "now < T"
  shows "idem_reached T (fw_idempotency fw) (fw_idempotency (fst (snd (submit gen fw now cid input))))"
proof -
  have "idem_reached T (fw_idempotency fw) (fst (snd (idem_begin (fw_idempotency fw) now cid (submit_request fw input))))"
    using assms by blast
  moreover from this have "idem_reached T (fw_idempotency fw) (fw_idempotency (fst (snd (submit_claimed gen
      (fw\<lparr>fw_idempotency := fst (snd (idem_begin (fw_idempotency fw) now cid (submit_request fw input)))\<rparr>) now cid input))))"
    by (rule idem_reached_trans [OF _ submit_claimed_idempotency [where fw = "fw\<lparr>fw_idempotency := _\<rparr>", simplified]])
  ultimately show ?thesis
    by (simp add: submit_def Let_def case_prod_beta split: result.split begin_outcome.split)
qed

lemma run_due_idempotency [simp]:
  "fw_idempotency (fst (run_due now h ids (fw, s, fx))) = fw_idempotency fw"
  "fw_policy (fst (run_due now h ids (fw, s, fx))) = fw_policy fw"
  "fw_gates (fst (run_due now h ids (fw, s, fx))) = fw_gates fw"
proof (induction ids arbitrary: fw s fx)
  case (Cons k ids)
  { case 1 then show ?case using Cons(1) by (simp add: run_in_def case_prod_beta Let_def split: option.split) }
  { case 2 then show ?case using Cons(2) by (simp add: run_in_def case_prod_beta Let_def split: option.split) }
  { case 3 then show ?case using Cons(3) by (simp add: run_in_def case_prod_beta Let_def split: option.split) }
qed simp_all

lemma submit_policy [simp]:
  "fw_policy (fst (snd (submit gen fw now cid input))) = fw_policy fw"
  "fw_gates (fst (snd (submit gen fw now cid input))) = fw_gates fw"
proof -
  have "fw_policy (fst (snd (submit_claimed gen fw' now cid input))) = fw_policy fw'"
    "fw_gates (fst (snd (submit_claimed gen fw' now cid input))) = fw_gates fw'" for fw'
    by (simp_all add: submit_claimed_def Let_def case_prod_beta split: result.split js_call.split prod.split)
  then show "fw_policy (fst (snd (submit gen fw now cid input))) = fw_policy fw"
    "fw_gates (fst (snd (submit gen fw now cid input))) = fw_gates fw"
    by (simp_all add: submit_def Let_def case_prod_beta split: result.split begin_outcome.split)
qed

lemma worker_step_idempotency:
  assumes "event_before T e"
  shows "idem_reached T (fw_idempotency fw) (fw_idempotency (worker_step gen fw e))"
    "fw_policy (worker_step gen fw e) = fw_policy fw" "fw_gates (worker_step gen fw e) = fw_gates fw"
  using assms submit_idempotency
  by (cases e; simp add: register_def drainDueJobs_def promise_settles_def processJob_def run_in_def retryJob_def
      deadLetter_def cancel_def shutdown_finish_def case_prod_beta Let_def split: option.split result.split)+

lemma run_idempotency:
  assumes "list_all (event_before T) es"
  shows "idem_reached T (fw_idempotency fw) (fw_idempotency (foldl (worker_step gen) fw es)) \<and>
    fw_policy (foldl (worker_step gen) fw es) = fw_policy fw \<and>
    fw_gates (foldl (worker_step gen) fw es) = fw_gates fw"
  using assms
proof (induction es arbitrary: fw)
  case (Cons e es)
  then show ?case
    using worker_step_idempotency [where T = T and e = e and fw = fw and gen = gen] idem_reached_trans by simp
qed simp

section \<open>Submitting twice\<close>

lemma persisted_job:
  assumes "scrubString t = t"
  shows "json_clone (persisted_response (JObj [(''jobId'', JStr t)])) = JObj [(''jobId'', JStr t)]"
    "no_big (persisted_response (JObj [(''jobId'', JStr t)]))"
proof -
  have "\<not> isSensitiveKey ''jobId''" by code_simp
  with assms show "json_clone (persisted_response (JObj [(''jobId'', JStr t)])) = JObj [(''jobId'', JStr t)]"
    "no_big (persisted_response (JObj [(''jobId'', JStr t)]))"
    by (simp_all add: persisted_response_def redact_def MAX_REDACT_DEPTH_def defined_def)
qed

lemma enqueue_stored:
  assumes "fw_wf gen fw"
  shows "getById (snd (enqueue gen fw now input)) (job_id (fst (enqueue gen fw now input))) =
    Some (fst (enqueue gen fw now input))"
proof (cases "dedupe_hit fw input")
  case None
  then show ?thesis by (simp add: enqueue_def Let_def getById_def)
next
  case (Some j)
  then have "j \<in> set (map_values (fw_jobs fw))"
    by (auto simp: dedupe_hit_def findingDedupe_def find_Some_iff split: option.splits if_splits)
  from map_values_mem [OF assms this] Some show ?thesis by (simp add: enqueue_def getById_def)
qed

definition gate_open :: "framework \<Rightarrow> string \<Rightarrow> bool" where
  "gate_open fw operation =
     (case findGate fw operation of
        Some g \<Rightarrow> countLive fw (gate_label g) < gate_maxConcurrent g | None \<Rightarrow> True)"

lemma submit_claimed_records:
  assumes "fw_wf gen fw" "idem_wf (fw_idempotency fw)" "ji_idempotencyKey input = Some k"
    "idem_read (fw_idempotency fw) k = Some r" "idem_status r = In_Flight"
    "submit_claimed gen fw now cid input = (Ok res, fw1, fx)"
  shows "idem_read (fw_idempotency fw1) k = Some (r\<lparr>idem_status := Completed,
      idem_response := json_clone (persisted_response (JObj [(''jobId'', JStr (job_id (sb_job res)))]))\<rparr>) \<and>
    getById fw1 (job_id (sb_job res)) = Some (sb_job res) \<and> \<not> sb_replayed res"
proof -
  let ?q = "fw\<lparr>fw_quota := fst (snd (consume (fw_quota fw) now cid (submit_charge input)))\<rparr>"
  let ?j = "fst (enqueue gen ?q now input)" and ?s = "fw_idempotency fw"
  have key: "idem_key r = k" using idem_wf_read [OF assms(2,4)] by simp
  have complete: "idem_complete ?s k v =
      (Returns (Ok (r\<lparr>idem_status := Completed, idem_response := v\<rparr>)), st, fx') \<Longrightarrow>
     idem_read st k = Some (r\<lparr>idem_status := Completed, idem_response := json_clone (persisted_response v)\<rparr>)" for v st fx'
    using assms(4,5) key by (auto simp: idem_complete_def Let_def read_write idem_read_def map_get_set
        idem_write_def split: if_splits)
  have wf: "fw_wf gen ?q" using assms(1) by (simp add: fw_update_fields)
  let ?c = "idem_complete ?s k (JObj [(''jobId'', JStr (job_id ?j))])"
  obtain rec where rec: "fst ?c = Returns (Ok rec)" and j: "sb_job res = ?j" "\<not> sb_replayed res"
    and f: "fw1 = (snd (enqueue gen ?q now input))\<lparr>fw_idempotency := fst (snd ?c)\<rparr>"
    using assms(3,6) by (auto simp: submit_claimed_def Let_def case_prod_beta
        split: result.splits js_call.splits prod.splits)
  then obtain st fx' where c: "?c = (Returns (Ok rec), st, fx')" "st = fst (snd ?c)"
    by (cases ?c) auto
  have "rec = r\<lparr>idem_status := Completed, idem_response := JObj [(''jobId'', JStr (job_id ?j))]\<rparr>"
    using c assms(4,5) by (auto simp: idem_complete_def Let_def split: option.splits if_splits)
  with complete c j f enqueue_stored [OF wf, of now input]
  show ?thesis by (simp add: getById_def)
qed

lemma submit_request_policy: "fw_policy fw' = fw_policy fw \<Longrightarrow> submit_request fw' input = submit_request fw input"
  by (simp add: submit_request_def cong: option.case_cong)

lemma submit_records:
  assumes "fw_wf gen fw" "idem_wf (fw_idempotency fw)" "ji_idempotencyKey input = Some k"
    "submit gen fw now cid input = (Ok res, fw1, fx)" "\<not> sb_replayed res"
  shows "isValidIdempotencyKey k \<and> idem_read (fw_idempotency fw1) k = Some
      ((claim_record (fw_idempotency fw) now cid k (submit_request fw input))\<lparr>idem_status := Completed,
      idem_response := json_clone (persisted_response (JObj [(''jobId'', JStr (job_id (sb_job res)))]))\<rparr>) \<and>
    getById fw1 (job_id (sb_job res)) = Some (sb_job res)"
proof -
  let ?b = "idem_begin (fw_idempotency fw) now cid (submit_request fw input)"
  have key: "req_key (submit_request fw input) = Some k" using assms(3) by (simp add: submit_request_def)
  obtain begun st fx1 where b0: "?b = (begun, st, fx1)" by (cases ?b)
  obtain r fx2 where b: "?b = (Ok (Claimed r), st, fx1)"
    and c: "submit_claimed gen (fw\<lparr>fw_idempotency := st\<rparr>) now cid input = (Ok res, fw1, fx2)"
    using assms(4,5) b0 by (auto simp: submit_def submit_replay_def Let_def
        split: if_splits result.splits begin_outcome.splits prod.splits option.splits)
  have r: "isValidIdempotencyKey k" "r = claim_record (fw_idempotency fw) now cid k (submit_request fw input)"
    using begin_Claimed [of "fw_idempotency fw" now cid "submit_request fw input" r] b key by auto
  have "idem_wf st" using wf_begin [OF assms(2), of now cid "submit_request fw input"] b by simp
  with submit_claimed_records [OF _ _ assms(3) _ _ c] assms(1) r begin_claims_store [OF b key]
  show ?thesis by (simp add: fw_update_fields)
qed

lemma submit_replays:
  assumes "gate_open fw (ji_operation input)" "ji_idempotencyKey input = Some k" "isValidIdempotencyKey k"
    "idem_read (fw_idempotency fw) k = Some r" "now < idem_expiresAt r" "idem_status r = Completed"
    "idem_hash r = requestDigest (or_null (req_request (submit_request fw input)))"
    "idem_operation r = ''worker.enqueue''" "idem_response r = JObj [(''jobId'', JStr t)]" "t \<noteq> []"
    "getById fw t = Some j"
  shows "\<exists>record fw' fx. submit gen fw now cid input =
      (Ok \<lparr>sb_job = j, sb_replayed = True, sb_record = record\<rparr>, fw', fx) \<and>
    fw_jobs fw' = fw_jobs fw \<and> fw_quota fw' = fw_quota fw"
proof -
  let ?r = "r\<lparr>idem_replays := idem_replays r + 1\<rparr>" and ?s = "fw_idempotency fw"
  have "idem_begin ?s now cid (submit_request fw input) = (Ok (Replayed ?r), idem_save ?r ?s,
      [emitTelemetry ''idempotency.replayed'' ''system'' True None])"
    using assms valid_key_nonempty [OF assms(3)]
    by (simp add: idem_begin_def begin_existing_def Let_def submit_request_def)
  then show ?thesis
    using assms(1,9-11)
    by (auto simp: submit_def gate_open_def submit_replay_def response_job_def getById_def split: option.splits)
qed

lemma submit_wf:
  assumes "idem_wf (fw_idempotency fw)"
  shows "idem_wf (fw_idempotency (fst (snd (submit gen fw now cid input))))"
  using submit_idempotency [of now "now + 1" fw gen cid input] idem_runs.run_keeps [OF assms]
  by (auto simp: idem_reached_def)


definition w_job_id :: "nat \<Rightarrow> string" where
  "w_job_id n = CHR ''j'' # unary_id n"

lemma inj_w_job_id: "inj w_job_id"
  using inj_unary_id by (auto simp: inj_def w_job_id_def)

definition w_input :: job_input where
  "w_input = \<lparr>ji_operation = ''op'', ji_params = None, ji_dedupeKey = None, ji_maxAttempts = None,
     ji_correlationId = None, ji_delayMs = None, ji_idempotencyKey = Some ''job-0001'', ji_principal = None\<rparr>"

definition w_framework :: framework where
  "w_framework = createWorkerFramework DEFAULT_POLICY None []"

lemma submit_accepts:
  assumes "gate_open fw (ji_operation input)" "ji_idempotencyKey input = Some k" "isValidIdempotencyKey k"
    "idem_read (fw_idempotency fw) k = None" "isOk (fst (consume (fw_quota fw) now cid (submit_charge input)))"
    "ji_dedupeKey input = None" "scrubString (gen (fw_nextId fw)) = gen (fw_nextId fw)"
  shows "\<exists>res fw1 fx. submit gen fw now cid input = (Ok res, fw1, fx) \<and> \<not> sb_replayed res \<and>
    job_id (sb_job res) = gen (fw_nextId fw)"
proof -
  let ?r = "claim_record (fw_idempotency fw) now cid k (submit_request fw input)"
  obtain st fx1 where b: "idem_begin (fw_idempotency fw) now cid (submit_request fw input) = (Ok (Claimed ?r), st, fx1)"
    using assms(2-4) valid_key_nonempty [OF assms(3)]
    by (auto simp: idem_begin_def claim_def Let_def submit_request_def)
  have key: "req_key (submit_request fw input) = Some k" using assms(2) by (simp add: submit_request_def)
  have read: "idem_read st k = Some ?r" "idem_status ?r = In_Flight"
    using begin_claims_store [OF b key] by auto
  have "\<exists>st' fx'. idem_complete st k (JObj [(''jobId'', JStr (gen (fw_nextId fw)))]) =
      (Returns (Ok (?r\<lparr>idem_status := Completed, idem_response := JObj [(''jobId'', JStr (gen (fw_nextId fw)))]\<rparr>)), st', fx')"
    using read persisted_job(2) [OF assms(7)] by (simp add: idem_complete_def Let_def idem_write_def)
  then show ?thesis
    using assms(1,2,5,6) b
    by (auto simp: submit_def gate_open_def submit_claimed_def enqueue_def dedupe_hit_def new_job_def Let_def
        case_prod_beta isOk_iff split: option.splits)
qed

lemma w_framework_facts:
  "fw_wf w_job_id w_framework" "idem_wf (fw_idempotency w_framework)" "gate_open w_framework operation"
  "idem_read (fw_idempotency w_framework) k = None" "w_job_id (fw_nextId w_framework) = ''j''"
  "idem_ttl (fw_idempotency w_framework) = 24 * 60 * 60 * 1000"
  by (simp_all add: w_framework_def created_wf) (simp_all add: createWorkerFramework_def createIdempotencyStore_def
      idem_wf_def map_wf_def gate_open_def findGate_def idem_read_def w_job_id_def unary_id_def DEFAULT_POLICY_def)

lemma w_charge: "isOk (fst (consume (fw_quota w_framework) 5 ''c'' (submit_charge w_input)))"
  by code_simp

lemma w_id_kept: "scrubString ''j'' = ''j''"
  by (simp add: scrubString_def looksLikeSecret_def MAX_SCANNABLE_STRING_LENGTH_def seed_match_def
      key_match_def bearer_match_def)


end
