(* ===== verification/Backpressure.thy ===== *)
theory Backpressure
  imports Worker_Submit Auth
begin

text \<open>
  \<open>core/workers/backpressure.ts\<close>: the gate in front of \<open>enqueue\<close>. A gate is its own state
  beside the framework it was created on; the live count is recomputed from the
  framework. The instants of enqueueing are compared as numbers, which is the order of
  their ISO texts for four-digit years. A waiter is a resolve function nobody called
  yet; the gate only ever calls all of them, so their number is the state.
\<close>

section \<open>Operations\<close>

datatype backpressure_error =
    Gate_Full | Gate_Unauthorized | Gate_Invalid_Capacity

definition evictable :: "string \<Rightarrow> job \<Rightarrow> bool" where
  "evictable label j =
     (startsWith (job_operation j) label \<and> (job_status j = ''queued'' \<or> job_status j = ''retrying''))"

definition oldestEvictable :: "framework \<Rightarrow> string \<Rightarrow> job option" where
  "oldestEvictable fw label =
     (case sort_key job_enqueuedAt (filter (evictable label) (inspect fw None)) of
        [] \<Rightarrow> None
      | j # _ \<Rightarrow> Some j)"

text \<open>\<open>Err\<close> is the message of the exception the factory throws.\<close>

definition createBoundedEnqueueGate ::
  "string \<Rightarrow> js_number \<Rightarrow> int option \<Rightarrow> overflow_policy option \<Rightarrow> (gate, string) result" where
  "createBoundedEnqueueGate label maxConcurrent ceiling overflow =
     (if trim label = [] then Err ''[backpressure] label is required''
      else case maxConcurrent of
        JNonInt \<Rightarrow> Err ''[backpressure] maxConcurrent must be a positive integer''
      | JInt n \<Rightarrow>
          if n < 1 then Err ''[backpressure] maxConcurrent must be a positive integer''
          else Ok \<lparr>gate_label = label, gate_maxConcurrent = nat n,
            gate_ceiling = nat (max 1 (case ceiling of Some c \<Rightarrow> c | None \<Rightarrow> n * 10)),
            gate_overflow = (case overflow of Some p \<Rightarrow> p | None \<Rightarrow> Overflow_Reject),
            gate_admitted = 0, gate_rejected = 0, gate_evicted = 0, gate_waiters = 0\<rparr>)"

definition notifyWaiters :: "gate \<Rightarrow> gate" where
  "notifyWaiters g = g\<lparr>gate_waiters := 0\<rparr>"

text \<open>\<open>waitForCapacity\<close>: whether the promise is resolved at once, and the gate.\<close>

definition waitForCapacity :: "gate \<Rightarrow> framework \<Rightarrow> bool \<times> gate" where
  "waitForCapacity g fw =
     (if countLive fw (gate_label g) < gate_maxConcurrent g then (True, g)
      else (False, g\<lparr>gate_waiters := gate_waiters g + 1\<rparr>))"

definition admit :: "gate \<Rightarrow> gate" where
  "admit g = g\<lparr>gate_admitted := gate_admitted g + 1\<rparr>"

definition gate_enqueued :: effect where
  "gate_enqueued = emitTelemetry ''backpressure.enqueue'' ''worker'' True None"

definition gate_overflowed :: effect where
  "gate_overflowed = emitTelemetry ''backpressure.overflow'' ''worker'' False (Some ''backpressure_full'')"

text \<open>\<open>{ ...input, correlationId }\<close>: the correlation id is drawn when the input has none.\<close>

definition with_correlation :: "string \<Rightarrow> job_input \<Rightarrow> job_input" where
  "with_correlation cid input =
     input\<lparr>ji_correlationId := Some (case ji_correlationId input of Some c \<Rightarrow> c | None \<Rightarrow> cid)\<rparr>"

definition gate_enqueue ::
  "(nat \<Rightarrow> string) \<Rightarrow> gate \<Rightarrow> framework \<Rightarrow> int \<Rightarrow> string \<Rightarrow> job_input \<Rightarrow>
     (job, backpressure_error) result \<times> gate \<times> framework \<times> effect list" where
  "gate_enqueue gen g fw now cid input0 =
     (let input = with_correlation cid input0; label = gate_label g in
      if \<not> startsWith (ji_operation input) label \<or> countLive fw label < gate_maxConcurrent g then
        let (j, fw1) = enqueue gen fw now input in (Ok j, admit g, fw1, [gate_enqueued])
      else
        case (if gate_overflow g = Overflow_Drop_Oldest then oldestEvictable fw label else None) of
          Some victim \<Rightarrow>
            let (_, fw1, fx) = deadLetter fw now (job_id victim);
                (j, fw2) = enqueue gen fw1 now input
            in (Ok j, admit (g\<lparr>gate_evicted := gate_evicted g + 1\<rparr>), fw2, fx @ [gate_overflowed, gate_enqueued])
        | None \<Rightarrow> (Err Gate_Full, g\<lparr>gate_rejected := gate_rejected g + 1\<rparr>, fw, [gate_overflowed]))"

record capacity_adjustment =
  ca_previous :: nat
  ca_next :: nat
  ca_reason :: string
  ca_at :: string

definition adjustCapacity ::
  "gate \<Rightarrow> int \<Rightarrow> auth_context \<Rightarrow> js_number \<Rightarrow> string \<Rightarrow>
     (capacity_adjustment, backpressure_error) result \<times> gate \<times> effect list" where
  "adjustCapacity g now auth next_cap reason =
     (if \<not> hasPermission (auth_role auth) ''admin:recovery'' then
        (Err Gate_Unauthorized, g,
         [emitTelemetry ''backpressure.capacity_changed'' ''user'' False (Some ''backpressure_unauthorized'')])
      else case next_cap of
        JNonInt \<Rightarrow> (Err Gate_Invalid_Capacity, g, [])
      | JInt n \<Rightarrow>
          if n < 1 \<or> n > int (gate_ceiling g) then (Err Gate_Invalid_Capacity, g, [])
          else
            let g1 = g\<lparr>gate_maxConcurrent := nat n\<rparr> in
            (Ok \<lparr>ca_previous = gate_maxConcurrent g, ca_next = nat n, ca_reason = reason, ca_at = toISOString now\<rparr>,
             if nat n > gate_maxConcurrent g then notifyWaiters g1 else g1,
             [emitTelemetry ''backpressure.capacity_changed'' ''user'' True None]))"

record gate_stats =
  gs_live :: nat
  gs_maxConcurrent :: nat
  gs_admitted :: nat
  gs_rejected :: nat
  gs_evicted :: nat

definition gate_statistics :: "gate \<Rightarrow> framework \<Rightarrow> gate_stats" where
  "gate_statistics g fw =
     \<lparr>gs_live = countLive fw (gate_label g), gs_maxConcurrent = gate_maxConcurrent g,
      gs_admitted = gate_admitted g, gs_rejected = gate_rejected g, gs_evicted = gate_evicted g\<rparr>"

section \<open>The live count\<close>

definition is_live :: "string \<Rightarrow> job \<Rightarrow> bool" where
  "is_live label j = (startsWith (job_operation j) label \<and> live_status (job_status j))"

definition live_ids :: "framework \<Rightarrow> string \<Rightarrow> string set" where
  "live_ids fw label = {k. \<exists>j. map_get (fw_jobs fw) k = Some j \<and> is_live label j}"

lemma live_ids_eq:
  assumes "fw_wf gen fw"
  shows "live_ids fw label = job_id ` set (filter (is_live label) (map_values (fw_jobs fw)))"
proof (rule set_eqI)
  fix k
  have wf: "map_wf (fw_jobs fw)" using assms by (simp add: fw_wf_def)
  show "k \<in> live_ids fw label \<longleftrightarrow> k \<in> job_id ` set (filter (is_live label) (map_values (fw_jobs fw)))"
  proof
    assume "k \<in> live_ids fw label"
    then obtain j where "map_get (fw_jobs fw) k = Some j" "is_live label j" by (auto simp: live_ids_def)
    moreover from this fw_wfD [OF assms] have "job_id j = k" by blast
    ultimately show "k \<in> job_id ` set (filter (is_live label) (map_values (fw_jobs fw)))"
      using map_values_mem_iff [OF wf] by force
  next
    assume "k \<in> job_id ` set (filter (is_live label) (map_values (fw_jobs fw)))"
    then show "k \<in> live_ids fw label" using map_values_mem [OF assms] by (auto simp: live_ids_def)
  qed
qed

lemma countLive_card:
  assumes "fw_wf gen fw"
  shows "countLive fw label = card (live_ids fw label)" "finite (live_ids fw label)"
proof -
  let ?js = "filter (is_live label) (map_values (fw_jobs fw))"
  have "distinct (map job_id ?js)"
    using assms values_ids [OF assms] by (simp add: fw_wf_def map_wf_def distinct_map_filter)
  then have "card (job_id ` set ?js) = length ?js"
    by (metis distinct_card length_map set_map)
  then show "countLive fw label = card (live_ids fw label)" "finite (live_ids fw label)"
    unfolding live_ids_eq [OF assms] countLive_def is_live_def by simp_all
qed

text \<open>An operation that adds no job does not raise the count.\<close>

lemma live_kept:
  assumes "job_kept j j'" "job_ok j" "is_live label j'"
  shows "is_live label j"
proof -
  have "declared_status (job_status j)" using assms(2) by (simp add: job_ok_def)
  then show ?thesis
    using assms(1,3) by (cases rule: declared_cases)
      (auto simp: is_live_def job_kept_def worker_terminal_iff live_status_def)
qed

definition no_new_jobs :: "framework \<Rightarrow> framework \<Rightarrow> bool" where
  "no_new_jobs fw fw' = (dom (map_get (fw_jobs fw')) \<subseteq> dom (map_get (fw_jobs fw)))"

lemma live_ids_mono:
  assumes "fw_wf gen fw" "fw_le fw fw'" "no_new_jobs fw fw'"
  shows "live_ids fw' label \<subseteq> live_ids fw label"
proof
  fix k assume "k \<in> live_ids fw' label"
  then obtain j' where j': "map_get (fw_jobs fw') k = Some j'" "is_live label j'" by (auto simp: live_ids_def)
  then obtain j where j: "map_get (fw_jobs fw) k = Some j"
    using assms(3) by (auto simp: no_new_jobs_def)
  with assms(2) j'(1) have "job_kept j j'" by (fastforce simp: fw_le_def)
  with live_kept fw_wfD [OF assms(1) j] j'(2) j show "k \<in> live_ids fw label" by (auto simp: live_ids_def)
qed

lemma no_new_jobs_refl [simp]: "no_new_jobs fw fw"
  by (simp add: no_new_jobs_def)

lemma no_new_jobs_same: "fw_jobs fw' = fw_jobs fw \<Longrightarrow> no_new_jobs fw fw'"
  by (simp add: no_new_jobs_def)

lemma run_in_no_new: "no_new_jobs fw (fst (run_in fw now k out))"
  by (auto simp: no_new_jobs_def run_in_def map_get_set case_prod_beta Let_def split: option.split)

lemma run_due_no_new: "no_new_jobs fw (fst (run_due now h ids (fw, s, fx)))"
proof (induction ids arbitrary: fw s fx)
  case (Cons k ids)
  then show ?case
    using run_in_no_new [of fw now k "h k"] unfolding no_new_jobs_def
    by (simp add: case_prod_beta Let_def) (meson subset_trans)
qed simp

text \<open>Whether an event can create a job that a gate with this label should have counted.\<close>

fun bypasses :: "string \<Rightarrow> worker_event \<Rightarrow> bool" where
  "bypasses label (W_Enqueue now input) = startsWith (ji_operation input) label"
| "bypasses label (W_Submit now cid input) = startsWith (ji_operation input) label"
| "bypasses label _ = False"

fun creates :: "worker_event \<Rightarrow> bool" where
  "creates (W_Enqueue now input) = True"
| "creates (W_Submit now cid input) = True"
| "creates _ = False"

lemma worker_step_no_new: "\<not> creates e \<Longrightarrow> no_new_jobs fw (worker_step gen fw e)"
  using run_due_no_new run_in_no_new
  by (cases e) (auto simp: register_def drainDueJobs_def promise_settles_def processJob_def retryJob_def
      deadLetter_def cancel_def shutdown_finish_def no_new_jobs_same case_prod_beta Let_def
      no_new_jobs_def map_get_set split: option.split result.split)

lemma enqueue_live:
  "live_ids (snd (enqueue gen fw now input)) label \<subseteq>
     (if startsWith (ji_operation input) label then insert (gen (fw_nextId fw)) (live_ids fw label)
      else live_ids fw label)"
  by (auto simp: enqueue_def Let_def live_ids_def map_get_set is_live_def new_job_def split: option.split if_splits)

lemma enqueue_live_other:
  "\<not> startsWith (ji_operation input) label \<Longrightarrow>
     live_ids (snd (enqueue gen fw now input)) label \<subseteq> live_ids fw label"
  using enqueue_live [of gen fw now input label] by simp

lemma live_ids_fields [simp]:
  "live_ids (fw\<lparr>fw_idempotency := a\<rparr>) label = live_ids fw label"
  "live_ids (fw\<lparr>fw_quota := q\<rparr>) label = live_ids fw label"
  by (simp_all add: live_ids_def)

lemma submit_live:
  assumes "\<not> startsWith (ji_operation input) label"
  shows "live_ids (fst (snd (submit gen fw now cid input))) label \<subseteq> live_ids fw label"
proof -
  have "live_ids (fst (snd (submit_claimed gen fw' now cid input))) label \<subseteq> live_ids fw' label" for fw'
    using enqueue_live [of gen "fw'\<lparr>fw_quota := fst (snd (consume (fw_quota fw') now cid (submit_charge input)))\<rparr>" now input label] assms
    by (simp add: submit_claimed_def Let_def case_prod_beta split: result.split js_call.split prod.split)
  from this [of "fw\<lparr>fw_idempotency := _\<rparr>"] show ?thesis
    by (simp add: submit_def Let_def case_prod_beta split: result.split begin_outcome.split)
qed

lemma worker_step_live:
  assumes "inj gen" "fw_wf gen fw" "\<not> bypasses label e"
  shows "live_ids (worker_step gen fw e) label \<subseteq> live_ids fw label"
proof (cases "creates e")
  case False
  with worker_step_ok [OF assms(1,2), of e] worker_step_no_new live_ids_mono [OF assms(2)] show ?thesis by blast
next
  case True
  then show ?thesis
    using assms(3) enqueue_live_other submit_live by (cases e) simp_all
qed

section \<open>Eviction\<close>

lemma oldestEvictable_Some:
  assumes "fw_wf gen fw" "oldestEvictable fw label = Some v"
  shows "map_get (fw_jobs fw) (job_id v) = Some v" "evictable label v"
    "\<And>k j. map_get (fw_jobs fw) k = Some j \<Longrightarrow> evictable label j \<Longrightarrow> job_enqueuedAt v \<le> job_enqueuedAt j"
proof -
  let ?js = "filter (evictable label) (map_values (fw_jobs fw))"
  obtain js where s: "sort_key job_enqueuedAt ?js = v # js"
    using assms(2) by (auto simp: oldestEvictable_def inspect_def split: list.splits)
  then have "set (v # js) = set ?js" by (metis set_sort)
  then have v: "v \<in> set ?js" and js: "set ?js \<subseteq> set (v # js)" by auto
  from v map_values_mem [OF assms(1)] show "map_get (fw_jobs fw) (job_id v) = Some v" "evictable label v" by auto
  have sorted: "sorted (map job_enqueuedAt (v # js))" using sorted_sort_key [of job_enqueuedAt ?js] s by simp
  fix k j assume j: "map_get (fw_jobs fw) k = Some j" "evictable label j"
  have "map_wf (fw_jobs fw)" using assms(1) by (simp add: fw_wf_def)
  with j map_values_mem_iff have "j \<in> set ?js" by fastforce
  with js sorted show "job_enqueuedAt v \<le> job_enqueuedAt j" by auto
qed

lemma oldestEvictable_None:
  assumes "fw_wf gen fw" "oldestEvictable fw label = None" "map_get (fw_jobs fw) k = Some j"
  shows "\<not> evictable label j"
proof -
  let ?js = "filter (evictable label) (map_values (fw_jobs fw))"
  have "sort_key job_enqueuedAt ?js = []"
    using assms(2) by (auto simp: oldestEvictable_def inspect_def split: list.splits)
  then have "?js = []" using set_sort [of job_enqueuedAt ?js] by (simp del: set_sort)
  moreover have "map_wf (fw_jobs fw)" using assms(1) by (simp add: fw_wf_def)
  ultimately show ?thesis using assms(3) map_values_mem_iff [of "fw_jobs fw" j] by (auto simp: filter_empty_conv)
qed

lemma evict_moves:
  assumes "map_get (fw_jobs fw) k = Some v" "evictable label v"
  shows "fw_jobs (fst (snd (deadLetter fw now k))) = map_set k (v\<lparr>job_status := ''dead_lettered''\<rparr>) (fw_jobs fw)"
    "fw_nextId (fst (snd (deadLetter fw now k))) = fw_nextId fw"
proof -
  obtain r j1 fx where m: "move now v ''dead_letter'' ''manual_dead_letter'' True = (r, j1, fx)"
    by (cases "move now v ''dead_letter'' ''manual_dead_letter'' True")
  have "drive workerJobMachine (job_status v) ''dead_letter'' = ''dead_lettered''"
    using assms(2) by (auto simp: evictable_def)
  moreover from this have "isOk (resolve workerJobMachine (job_status v) ''dead_letter'')"
    using assms(2) by (cases "resolve workerJobMachine (job_status v) ''dead_letter''")
      (auto simp: drive_def evictable_def)
  moreover note move_eq [of now v "''dead_letter''" "''manual_dead_letter''" True] m
  ultimately have j1: "j1 = v\<lparr>job_status := ''dead_lettered''\<rparr>"
    and "isOk (resolve workerJobMachine (job_status v) ''dead_letter'')" by simp_all
  with move_result [of now v "''dead_letter''" "''manual_dead_letter''" True] m obtain st where "r = Ok st"
    by (auto simp: isOk_iff)
  with m j1 assms(1) show
    "fw_jobs (fst (snd (deadLetter fw now k))) = map_set k (v\<lparr>job_status := ''dead_lettered''\<rparr>) (fw_jobs fw)"
    "fw_nextId (fst (snd (deadLetter fw now k))) = fw_nextId fw"
    by (simp_all add: deadLetter_def)
qed

lemma evict_live:
  assumes "map_get (fw_jobs fw) k = Some v" "evictable label v"
  shows "k \<in> live_ids fw label" "live_ids (fst (snd (deadLetter fw now k))) label = live_ids fw label - {k}"
  using assms
  by (auto simp: live_ids_def evict_moves(1) [OF assms] map_get_set is_live_def evictable_def live_status_def
      split: if_splits)

section \<open>What the gate bounds\<close>

lemma gate_enqueue_step:
  assumes "inj gen" "fw_wf gen fw"
  shows "fw_wf gen (fst (snd (snd (gate_enqueue gen g fw now cid input))))"
  using assms enqueue_step [OF assms(1)] deadLetter_step [OF assms(2)]
  by (simp add: gate_enqueue_def Let_def case_prod_beta split: option.split)

lemma card_enqueue:
  assumes "fw_wf gen fw"
  shows "card (live_ids (snd (enqueue gen fw now input)) label) \<le> card (live_ids fw label) + 1"
proof -
  have fin: "finite (live_ids fw label)" using countLive_card [OF assms] by blast
  have "live_ids (snd (enqueue gen fw now input)) label \<subseteq> insert (gen (fw_nextId fw)) (live_ids fw label)"
    using enqueue_live [of gen fw now input label] by (auto split: if_splits)
  from card_mono [OF _ this] fin card_insert_le_m1 show ?thesis
    by (metis card_insert_if finite_insert le_add1 le_trans Suc_eq_plus1 order_refl)
qed

lemma gate_enqueue_live:
  assumes "inj gen" "fw_wf gen fw"
  shows "countLive (fst (snd (snd (gate_enqueue gen g fw now cid input)))) (gate_label g) \<le>
    max (countLive fw (gate_label g)) (gate_maxConcurrent g)"
proof -
  let ?in = "with_correlation cid input" and ?l = "gate_label g"
  let ?fw' = "fst (snd (snd (gate_enqueue gen g fw now cid input)))"
  have fin: "finite (live_ids fw ?l)" using countLive_card [OF assms(2)] by blast
  note cards = countLive_card(1) [OF assms(2), of ?l]
    countLive_card(1) [OF gate_enqueue_step [OF assms, of g now cid input], of ?l]
  let ?v = "if gate_overflow g = Overflow_Drop_Oldest then oldestEvictable fw ?l else None"
  have "card (live_ids ?fw' ?l) \<le> max (card (live_ids fw ?l)) (gate_maxConcurrent g)"
  proof (cases "\<not> startsWith (ji_operation ?in) ?l \<or> countLive fw ?l < gate_maxConcurrent g")
    case True
    then have "?fw' = snd (enqueue gen fw now ?in)" by (auto simp: gate_enqueue_def Let_def case_prod_beta)
    with True card_mono [OF fin enqueue_live_other [of ?in ?l gen fw now]] card_enqueue [OF assms(2), of now ?in ?l] cards(1)
    show ?thesis by auto
  next
    case full: False
    show ?thesis
    proof (cases ?v)
      case None
      with full have "?fw' = fw" by (simp add: gate_enqueue_def Let_def)
      then show ?thesis by simp
    next
      case (Some v)
      let ?fw1 = "fst (snd (deadLetter fw now (job_id v)))"
      from Some full have fw': "?fw' = snd (enqueue gen ?fw1 now ?in)"
        by (simp add: gate_enqueue_def Let_def case_prod_beta)
      from Some have "oldestEvictable fw ?l = Some v" by (simp split: if_splits)
      note v = oldestEvictable_Some(1,2) [OF assms(2) this]
      from evict_live(1) [OF v] evict_live(2) [OF v, of now] fin
      have "card (live_ids ?fw1 ?l) + 1 = card (live_ids fw ?l)" by (simp add: card_Suc_Diff1 del: card_Diff_insert)
      moreover have "fw_wf gen ?fw1" using deadLetter_step [OF assms(2)] by simp
      ultimately show ?thesis using fw' card_enqueue [of gen ?fw1 now ?in ?l] by simp
    qed
  qed
  with cards show ?thesis by simp
qed

datatype gate_event =
    G_Enqueue int string job_input
  | G_Wait
  | G_Adjust int auth_context js_number string
  | G_Reset
  | G_Work worker_event

fun gate_step :: "(nat \<Rightarrow> string) \<Rightarrow> gate \<times> framework \<Rightarrow> gate_event \<Rightarrow> gate \<times> framework" where
  "gate_step gen (g, fw) (G_Enqueue now cid input) =
     (let (_, g', fw', _) = gate_enqueue gen g fw now cid input in (g', fw'))"
| "gate_step gen (g, fw) G_Wait = (snd (waitForCapacity g fw), fw)"
| "gate_step gen (g, fw) (G_Adjust now auth n reason) = (fst (snd (adjustCapacity g now auth n reason)), fw)"
| "gate_step gen (g, fw) G_Reset = (gate_reset g, fw)"
| "gate_step gen (g, fw) (G_Work e) = (g, worker_step gen fw e)"

text \<open>Every job of the label goes through the gate.\<close>

fun through_gate :: "string \<Rightarrow> gate_event \<Rightarrow> bool" where
  "through_gate label (G_Work e) = (\<not> bypasses label e)"
| "through_gate label _ = True"

definition gate_inv :: "(nat \<Rightarrow> string) \<Rightarrow> string \<Rightarrow> nat \<Rightarrow> nat \<Rightarrow> gate \<times> framework \<Rightarrow> bool" where
  "gate_inv gen label cap ceil s =
     (case s of (g, fw) \<Rightarrow>
        fw_wf gen fw \<and> gate_label g = label \<and> gate_ceiling g = ceil \<and>
        gate_maxConcurrent g \<le> max cap ceil \<and> countLive fw label \<le> max cap ceil)"

lemma gate_enqueue_fields:
  "gate_label (fst (snd (gate_enqueue gen g fw now cid input))) = gate_label g"
  "gate_ceiling (fst (snd (gate_enqueue gen g fw now cid input))) = gate_ceiling g"
  "gate_maxConcurrent (fst (snd (gate_enqueue gen g fw now cid input))) = gate_maxConcurrent g"
  "gate_waiters (fst (snd (gate_enqueue gen g fw now cid input))) = gate_waiters g"
  by (simp_all add: gate_enqueue_def admit_def Let_def case_prod_beta split: option.split)

lemma adjust_fields:
  "gate_label (fst (snd (adjustCapacity g now auth n reason))) = gate_label g"
  "gate_ceiling (fst (snd (adjustCapacity g now auth n reason))) = gate_ceiling g"
  "gate_maxConcurrent (fst (snd (adjustCapacity g now auth n reason))) \<le> max (gate_maxConcurrent g) (gate_ceiling g)"
  by (auto simp: adjustCapacity_def notifyWaiters_def Let_def split: js_number.split)

lemma gate_step_keeps:
  assumes "inj gen" "gate_inv gen label cap ceil s" "through_gate label e"
  shows "gate_inv gen label cap ceil (gate_step gen s e)"
proof (cases s)
  case (Pair g fw)
  then have wf: "fw_wf gen fw" and g: "gate_label g = label" "gate_ceiling g = ceil"
    "gate_maxConcurrent g \<le> max cap ceil" "countLive fw label \<le> max cap ceil"
    using assms(2) by (simp_all add: gate_inv_def)
  show ?thesis
  proof (cases e)
    case (G_Enqueue now cid input)
    with Pair g gate_enqueue_step [OF assms(1) wf, of g now cid input]
      gate_enqueue_live [OF assms(1) wf, of g now cid input]
    show ?thesis by (simp add: gate_inv_def case_prod_beta gate_enqueue_fields)
  next
    case G_Wait
    with Pair wf g show ?thesis by (simp add: gate_inv_def waitForCapacity_def)
  next
    case (G_Adjust now auth n reason)
    with Pair wf g adjust_fields [of g now auth n reason] show ?thesis by (simp add: gate_inv_def)
  next
    case G_Reset
    with Pair wf g show ?thesis by (simp add: gate_inv_def gate_reset_def)
  next
    case (G_Work we)
    have wf': "fw_wf gen (worker_step gen fw we)" using worker_step_ok [OF assms(1) wf] by simp
    have "live_ids (worker_step gen fw we) label \<subseteq> live_ids fw label"
      using worker_step_live [OF assms(1) wf] G_Work assms(3) by simp
    with countLive_card [OF wf, of label] countLive_card [OF wf', of label]
    have "countLive (worker_step gen fw we) label \<le> countLive fw label" by (simp add: card_mono)
    with Pair G_Work wf' g show ?thesis by (simp add: gate_inv_def)
  qed
qed

lemma gated_runs: "inj gen \<Longrightarrow> guarded_system (gate_step gen) (through_gate label) (gate_inv gen label cap ceil)"
  by unfold_locales (rule gate_step_keeps)

text \<open>
  C12. Capacity is hard: when every job of the label goes through the gate, no
  sequence of gate calls, capacity changes, worker calls and promise settlements makes
  the number of live jobs exceed the larger of the initial capacity and the ceiling.
\<close>

theorem gate_capacity_hard:
  assumes "inj gen" "createBoundedEnqueueGate label (JInt n) ceiling overflow = Ok g"
    "list_all (through_gate label) es"
    "foldl (gate_step gen) (g, createWorkerFramework pol quota gates) es = (g', fw')"
  shows "gs_live (gate_statistics g' fw') \<le> max (gate_maxConcurrent g) (gate_ceiling g)"
proof -
  let ?s = "(g, createWorkerFramework pol quota gates)"
  have label: "gate_label g = label" using assms(2) by (auto simp: createBoundedEnqueueGate_def split: if_splits)
  have "gate_inv gen label (gate_maxConcurrent g) (gate_ceiling g) ?s"
    using label created_wf by (simp add: gate_inv_def) (simp add: createWorkerFramework_def countLive_def map_values_def)
  from guarded_system.guarded_run [OF gated_runs [OF assms(1)] this assms(3)] assms(4)
  show ?thesis by (simp add: gate_inv_def gate_statistics_def)
qed

definition gate_input :: job_input where
  "gate_input = \<lparr>ji_operation = ''op'', ji_params = None, ji_dedupeKey = None, ji_maxAttempts = None,
     ji_correlationId = None, ji_delayMs = None, ji_idempotencyKey = None, ji_principal = None\<rparr>"

theorem gate_capacity_hard_witness:
  "\<exists>g g' fw'. createBoundedEnqueueGate ''op'' (JInt 1) (Some 2) None = Ok g \<and>
     foldl (gate_step unary_id) (g, createWorkerFramework DEFAULT_POLICY None [])
       [G_Enqueue 5 ''c'' gate_input, G_Enqueue 6 ''d'' gate_input] = (g', fw') \<and>
     gs_live (gate_statistics g' fw') \<le> 2"
proof -
  obtain g where g: "createBoundedEnqueueGate ''op'' (JInt 1) (Some 2) None = Ok g"
    "gate_maxConcurrent g = 1" "gate_ceiling g = 2"
    by (simp add: createBoundedEnqueueGate_def trim_def is_space_def code_of_def)
  obtain g' fw' where r: "foldl (gate_step unary_id) (g, createWorkerFramework DEFAULT_POLICY None [])
      [G_Enqueue 5 ''c'' gate_input, G_Enqueue 6 ''d'' gate_input] = (g', fw')" by fastforce
  from gate_capacity_hard [OF inj_unary_id g(1) _ r] g r show ?thesis by auto
qed

text \<open>
  Dropping the oldest: a full gate with that policy and a waiting job accepts the
  call, dead-letters a waiting job no other waiting job of the label is older than, and
  leaves every other job, the running ones included, as it was.
\<close>

lemma gate_evicts_oldest:
  assumes "inj gen" "fw_wf gen fw" "gate_overflow g = Overflow_Drop_Oldest"
    "startsWith (ji_operation input) (gate_label g)" "gate_maxConcurrent g \<le> countLive fw (gate_label g)"
    "getById fw k = Some w" "evictable (gate_label g) w"
  shows "\<exists>v j g' fw' fx. gate_enqueue gen g fw now cid input = (Ok j, g', fw', fx) \<and>
    getById fw (job_id v) = Some v \<and> evictable (gate_label g) v \<and>
    (\<forall>k j. getById fw k = Some j \<longrightarrow> evictable (gate_label g) j \<longrightarrow> job_enqueuedAt v \<le> job_enqueuedAt j) \<and>
    getById fw' (job_id v) = Some (v\<lparr>job_status := ''dead_lettered''\<rparr>) \<and>
    (\<forall>k j. k \<noteq> job_id v \<longrightarrow> getById fw k = Some j \<longrightarrow> getById fw' k = Some j) \<and>
    gate_evicted g' = gate_evicted g + 1"
proof -
  let ?l = "gate_label g" and ?in = "with_correlation cid input"
  obtain v where o: "oldestEvictable fw ?l = Some v"
    using oldestEvictable_None [OF assms(2)] assms(6,7) by (cases "oldestEvictable fw ?l") (auto simp: getById_def)
  note v = oldestEvictable_Some [OF assms(2) o]
  let ?fw1 = "fst (snd (deadLetter fw now (job_id v)))"
  obtain j fw2 where e: "enqueue gen ?fw1 now ?in = (j, fw2)" by fastforce
  have wf1: "fw_wf gen ?fw1" using deadLetter_step [OF assms(2)] by simp
  have call: "\<exists>fx. gate_enqueue gen g fw now cid input =
      (Ok j, admit (g\<lparr>gate_evicted := gate_evicted g + 1\<rparr>), fw2, fx)"
    using assms(3-5) o e by (simp add: gate_enqueue_def with_correlation_def Let_def case_prod_beta)
  have keep: "map_get (fw_jobs fw2) k = Some x" if "map_get (fw_jobs ?fw1) k = Some x" for k x
  proof (cases "dedupe_hit ?fw1 ?in")
    case None
    from fw_wf_gen [OF wf1 that] assms(1) have "k \<noteq> gen (fw_nextId ?fw1)" by (auto simp: inj_eq)
    then show ?thesis using that None e by (auto simp: enqueue_def new_job_def Let_def)
  next
    case Some
    then show ?thesis using that e by (simp add: enqueue_def)
  qed
  have "getById fw2 (job_id v) = Some (v\<lparr>job_status := ''dead_lettered''\<rparr>)"
    using keep [of "job_id v"] by (simp add: getById_def evict_moves(1) [OF v(1,2)])
  moreover have "getById fw2 k = Some x" if "k \<noteq> job_id v" "getById fw k = Some x" for k x
    using keep [of k x] that by (simp add: getById_def evict_moves(1) [OF v(1,2)])
  moreover have "gate_evicted (admit (g\<lparr>gate_evicted := gate_evicted g + 1\<rparr>)) = gate_evicted g + 1"
    by (simp add: admit_def)
  ultimately show ?thesis using call v unfolding getById_def by blast
qed

lemma sample_evictable: "evictable ''op'' (sample_job ''queued'' 0)"
  by (simp add: evictable_def sample_job_def startsWith_def)

lemma gate_evicts_oldest_witness:
  "\<exists>v j g' fw' fx. gate_enqueue unary_id
      \<lparr>gate_label = ''op'', gate_maxConcurrent = 1, gate_ceiling = 10, gate_overflow = Overflow_Drop_Oldest,
       gate_admitted = 1, gate_rejected = 0, gate_evicted = 0, gate_waiters = 0\<rparr>
      (sample_framework ''queued'' 0) 9 ''c'' gate_input = (Ok j, g', fw', fx) \<and>
     getById fw' (job_id v) = Some (v\<lparr>job_status := ''dead_lettered''\<rparr>)"
proof -
  let ?g = "\<lparr>gate_label = ''op'', gate_maxConcurrent = 1, gate_ceiling = 10, gate_overflow = Overflow_Drop_Oldest,
       gate_admitted = 1, gate_rejected = 0, gate_evicted = 0, gate_waiters = 0\<rparr>"
  have wf: "fw_wf unary_id (sample_framework ''queued'' 0)"
    by (rule sample_framework_wf) (simp add: job_ok_def sample_job_def declared_status_def)
  have "countLive (sample_framework ''queued'' 0) ''op'' = 1"
    by (simp add: countLive_def sample_framework_def map_values_def sample_job_def startsWith_def live_status_def)
  then show ?thesis
    using gate_evicts_oldest [OF inj_unary_id wf, of ?g gate_input "[]" "sample_job ''queued'' 0" 9 "''c''"]
    by (simp add: sample_evictable sample_get gate_input_def startsWith_def) blast
qed

text \<open>
  Who may change the capacity, and how far: a change is accepted exactly from the
  maintainer role for an integer between 1 and the ceiling; the gate then has that
  capacity, and a refused change leaves the gate as it was.
\<close>

lemma adjustCapacity_authorized:
  "(isOk (fst (adjustCapacity g now auth n reason)) \<longleftrightarrow>
     auth_role auth = ''maintainer'' \<and> (\<exists>i. n = JInt i \<and> 1 \<le> i \<and> i \<le> int (gate_ceiling g))) \<and>
   (case fst (adjustCapacity g now auth n reason) of
      Ok a \<Rightarrow> gate_maxConcurrent (fst (snd (adjustCapacity g now auth n reason))) = ca_next a \<and>
        1 \<le> ca_next a \<and> ca_next a \<le> gate_ceiling g
    | Err _ \<Rightarrow> fst (snd (adjustCapacity g now auth n reason)) = g)"
  by (auto simp: adjustCapacity_def recovery_role notifyWaiters_def Let_def split: js_number.split)

text \<open>
  A waiting producer is released by a raised capacity only: in a run without a
  capacity change or a reset no promise of \<open>waitForCapacity\<close> is resolved, whatever jobs
  settle and however many slots open.
\<close>

lemma waiters_stay:
  assumes "list_all (\<lambda>e. case e of G_Adjust _ _ _ _ \<Rightarrow> False | G_Reset \<Rightarrow> False | _ \<Rightarrow> True) es"
    "foldl (gate_step gen) (g, fw) es = (g', fw')"
  shows "gate_waiters g \<le> gate_waiters g'"
  using assms
proof (induction es arbitrary: g fw)
  case (Cons e es)
  obtain g1 fw1 where step: "gate_step gen (g, fw) e = (g1, fw1)" by fastforce
  then have "gate_waiters g \<le> gate_waiters g1"
    using Cons.prems(1) gate_enqueue_fields(4) [of gen g fw]
    by (cases e) (auto simp: waitForCapacity_def case_prod_beta split: if_splits)
  moreover have "gate_waiters g1 \<le> gate_waiters g'" using Cons step by simp
  ultimately show ?case by simp
qed simp

lemma waiters_stay_witness:
  "\<exists>g' fw'. foldl (gate_step unary_id)
      (\<lparr>gate_label = ''op'', gate_maxConcurrent = 1, gate_ceiling = 10, gate_overflow = Overflow_Reject,
        gate_admitted = 1, gate_rejected = 0, gate_evicted = 0, gate_waiters = 1\<rparr>, sample_framework ''queued'' 0)
      [G_Work (W_DeadLetter 9 [])] = (g', fw') \<and> countLive fw' ''op'' = 0 \<and> 1 \<le> gate_waiters g'"
proof -
  let ?g = "\<lparr>gate_label = ''op'', gate_maxConcurrent = 1, gate_ceiling = 10, gate_overflow = Overflow_Reject,
        gate_admitted = 1, gate_rejected = 0, gate_evicted = 0, gate_waiters = 1\<rparr>"
  let ?fw = "sample_framework ''queued'' 0" and ?es = "[G_Work (W_DeadLetter 9 [])]"
  obtain g' fw' where r: "foldl (gate_step unary_id) (?g, ?fw) ?es = (g', fw')" by fastforce
  have "map_get (fw_jobs ?fw) [] = Some (sample_job ''queued'' 0)" using sample_get by (simp add: getById_def)
  from evict_moves(1) [OF this sample_evictable, of 9] r
  have "fw_jobs fw' = map_set [] (sample_job ''dead_lettered'' 0) (fw_jobs ?fw)"
    by (auto simp: sample_job_def)
  then have "countLive fw' ''op'' = 0"
    by (simp add: countLive_def sample_framework_def map_values_def map_set_def sample_job_def live_status_def)
  moreover from waiters_stay [OF _ r] have "1 \<le> gate_waiters g'" by simp
  ultimately show ?thesis using r by blast
qed

end
