(* ===== verification/Ledger_Integrity.thy ===== *)
theory Ledger_Integrity
  imports Ledger
begin

text \<open>
  What the ledger guarantees: every chain its operations build verifies, a failed
  verification names the first bad entry, a checkpoint kept elsewhere pins everything
  before it, pruning, export and recovery keep a verifiable chain.
\<close>

section \<open>Sound chains\<close>

fun sound_from :: "(string \<Rightarrow> bool) \<Rightarrow> checkpoint \<Rightarrow> json list \<Rightarrow> bool" where
  "sound_from dp p [] = True"
| "sound_from dp p (e # es) = (entry_fault dp p e = None \<and> sound_from dp (checkpoint_of e) es)"

lemma headOf_simps [simp]:
  "headOf p [] = p" "headOf p (e # es) = headOf (checkpoint_of e) es" "headOf p (es @ [e]) = checkpoint_of e"
  by (simp_all add: headOf_def)

lemma headOf_append: "headOf p (xs @ ys) = headOf (headOf p xs) ys"
  by (induction xs arbitrary: p) simp_all

lemma sound_append: "sound_from dp p (xs @ ys) \<longleftrightarrow> sound_from dp p xs \<and> sound_from dp (headOf p xs) ys"
  by (induction xs arbitrary: p) simp_all

lemma verify_loop_End:
  "verify_loop dp p n es = Loop_End h m \<longleftrightarrow> sound_from dp p es \<and> h = headOf p es \<and> m = n + length es"
  by (induction es arbitrary: p n) (auto split: option.split)

lemma verify_loop_Fail:
  "verify_loop dp p n es = Loop_Fail c s m g \<longleftrightarrow>
     (\<exists>k < length es. sound_from dp p (take k es) \<and> m = n + k \<and> g = headOf p (take k es) \<and>
        entry_fault dp g (es ! k) = Some (c, s))"
proof (induction es arbitrary: p n)
  case (Cons e es)
  show ?case
  proof (cases "entry_fault dp p e")
    case None
    have "(\<exists>k < length (e # es). sound_from dp p (take k (e # es)) \<and> m = n + k \<and> g = headOf p (take k (e # es)) \<and>
        entry_fault dp g ((e # es) ! k) = Some (c, s)) \<longleftrightarrow>
      (\<exists>k < length es. sound_from dp (checkpoint_of e) (take k es) \<and> m = n + 1 + k \<and>
        g = headOf (checkpoint_of e) (take k es) \<and> entry_fault dp g (es ! k) = Some (c, s))"
      (is "(\<exists>k < _. ?P k) \<longleftrightarrow> (\<exists>k < _. ?Q k)")
    proof
      assume "\<exists>k < length (e # es). ?P k"
      then obtain k where k: "k < length (e # es)" "?P k" by blast
      with None show "\<exists>k < length es. ?Q k" by (cases k) auto
    next
      assume "\<exists>k < length es. ?Q k"
      then obtain k where "k < length es" "?Q k" by blast
      with None show "\<exists>k < length (e # es). ?P k" by (intro exI [of _ "Suc k"]) auto
    qed
    with None Cons.IH show ?thesis by simp
  next
    case (Some cs)
    have "(\<exists>k < length (e # es). sound_from dp p (take k (e # es)) \<and> m = n + k \<and> g = headOf p (take k (e # es)) \<and>
        entry_fault dp g ((e # es) ! k) = Some (c, s)) \<longleftrightarrow> m = n \<and> g = p \<and> cs = (c, s)"
      (is "(\<exists>k < _. ?P k) \<longleftrightarrow> _")
    proof
      assume "\<exists>k < length (e # es). ?P k"
      then obtain k where "?P k" by blast
      with Some show "m = n \<and> g = p \<and> cs = (c, s)" by (cases k) auto
    next
      assume "m = n \<and> g = p \<and> cs = (c, s)"
      with Some show "\<exists>k < length (e # es). ?P k" by (intro exI [of _ 0]) simp
    qed
    with Some show ?thesis by (auto split: prod.split)
  qed
qed simp

lemma verified_iff:
  "verifyLedgerChain dp es a None = Verified n a' h \<longleftrightarrow>
     sound_from dp a es \<and> n = length es \<and> a' = a \<and> h = headOf a es"
  using verify_loop_End [of dp a 0 es]
  by (cases "verify_loop dp a 0 es") (auto simp: verifyLedgerChain_def)

lemma entry_faultD:
  assumes "entry_fault dp p e = None"
  shows "isEntryShape dp e" "entry_seq e = cp_seq p + 1" "entry_prevHash e = cp_hash p"
    "hashLedgerEntry e = Some (entry_hash e)" "\<not> earlier (entry_at e) p"
  using assms by (auto simp: entry_fault_def Let_def split: if_splits)

lemma sound_seq: "sound_from dp p es \<Longrightarrow> cp_seq (headOf p es) = cp_seq p + int (length es)"
  by (induction es arbitrary: p) (auto simp: checkpoint_of_def dest: entry_faultD(2))

lemma sound_nth_seq:
  assumes "sound_from dp p es" "i < length es"
  shows "entry_seq (es ! i) = cp_seq p + int i + 1"
proof -
  have "es = take i es @ es ! i # drop (Suc i) es" using assms(2) by (rule id_take_nth_drop)
  with assms(1) have "sound_from dp p (take i es)" "entry_fault dp (headOf p (take i es)) (es ! i) = None"
    using sound_append [of dp p "take i es" "es ! i # drop (Suc i) es"] by simp_all
  with entry_faultD(2) sound_seq [of dp p "take i es"] assms(2) show ?thesis by fastforce
qed

text \<open>
  A failed verification points at the first bad entry: the entries before the
  reported position verify on their own up to the reported last good checkpoint, the
  next entry has the reported fault, and a chain with no fault is never refused.
\<close>

lemma verify_names_first_fault:
  "case verifyLedgerChain dp es a None of
     Verified n a' h \<Rightarrow> n = length es \<and> a' = a \<and> h = headOf a es \<and>
       (\<forall>k < length es. entry_fault dp (headOf a (take k es)) (es ! k) = None)
   | Broken c s n g \<Rightarrow> n < length es \<and> verifyLedgerChain dp (take n es) a None = Verified n a g \<and>
       (\<exists>i. s = Some i \<and> entry_fault dp g (es ! n) = Some (c, i))"
proof (cases "verifyLedgerChain dp es a None")
  case (Verified n a' h)
  then have v: "sound_from dp a es" "n = length es" "a' = a" "h = headOf a es" by (simp_all add: verified_iff)
  have "entry_fault dp (headOf a (take k es)) (es ! k) = None" if "k < length es" for k
    using v(1) id_take_nth_drop [OF that] sound_append [of dp a "take k es" "es ! k # drop (Suc k) es"] by simp
  with v Verified show ?thesis by simp
next
  case (Broken c s n g)
  then obtain i where i: "verify_loop dp a 0 es = Loop_Fail c i n g" "s = Some i"
    by (cases "verify_loop dp a 0 es") (auto simp: verifyLedgerChain_def)
  from verify_loop_Fail [THEN iffD1, OF i(1)] Broken i(2) show ?thesis by (auto simp: verified_iff)
qed

lemma verify_names_first_fault_witness:
  "\<exists>n g c i. verifyLedgerChain (\<lambda>_. True) [JNull] GENESIS None = Broken c (Some i) n g \<and> n < 1 \<and>
     verifyLedgerChain (\<lambda>_. True) (take n [JNull]) GENESIS None = Verified n GENESIS g"
proof -
  have "verifyLedgerChain (\<lambda>_. True) [JNull] GENESIS None = Broken Malformed_Entry (Some 1) 0 GENESIS"
    by (simp add: verifyLedgerChain_def entry_fault_def isEntryShape_def field_def GENESIS_def Let_def)
  with verify_names_first_fault [where dp = "\<lambda>_. True" and es = "[JNull]" and a = GENESIS] show ?thesis by simp
qed

section \<open>What the hash covers\<close>

definition entry_text_of :: "json \<Rightarrow> string" where
  "entry_text_of e = canonicalize (entry_body e)"

lemma hash_text: "hashLedgerEntry e = Some h \<Longrightarrow> sha256Hex (entry_text_of e) = h"
  by (auto simp: hashLedgerEntry_def canonicalJson_guarded entry_text_of_def split: if_splits)

lemma str_of_norm: "str_of (json_norm v) = str_of v"
  by (cases v) (simp_all add: str_of_def)

lemma map_of_sorted:
  assumes "distinct (map fst es)"
  shows "map_of (sort_key fst es) = map_of es"
proof -
  have "distinct (map fst (sort_key fst es))" using assms by (simp add: distinct_map)
  with assms show ?thesis by (simp add: map_of_inject_set)
qed

lemma map_of_defined:
  assumes "distinct (map fst es)"
  shows "map_of (map (\<lambda>(k, v). (k, f v)) (filter defined es)) k =
    (case map_of es k of Some v \<Rightarrow> if v = JUndef then None else Some (f v) | None \<Rightarrow> None)"
  using assms
proof (induction es)
  case (Cons e es)
  obtain a v where e: "e = (a, v)" by (cases e)
  have "map_of es a = None" using Cons.prems e by (simp add: map_of_eq_None_iff)
  with Cons e show ?case by (cases "k = a") (auto simp: defined_def)
qed simp

lemma field_norm:
  assumes "json_wf e"
  shows "str_of (field (json_norm e) k) = str_of (field e k)"
proof (cases e)
  case (JObj es)
  then have d: "distinct (map fst es)" using assms by simp
  have "distinct (map fst (map (\<lambda>(k, v). (k, json_norm v)) (filter defined es)))"
    using d by (simp add: comp_def case_prod_beta distinct_map_filter)
  with JObj show ?thesis
    by (simp add: field_def map_of_sorted map_of_defined [OF d] str_of_norm split: option.split)
qed (simp_all add: field_def)

lemma map_of_filter_key: "k \<noteq> x \<Longrightarrow> map_of (filter (\<lambda>(k', v). k' \<noteq> x) es) k = map_of es k"
  by (induction es) auto

lemma field_body: "k \<noteq> ''hash'' \<Longrightarrow> field (entry_body e) k = field e k"
  by (cases e) (simp_all add: entry_body_def field_def map_of_filter_key)

lemma body_wf: "json_wf e \<Longrightarrow> json_wf (entry_body e)"
  by (cases e) (auto simp: entry_body_def list_all_iff distinct_map_filter)

interpretation ledger_chain: hash_chain entry_prevHash entry_hash sha256Hex entry_text_of json_wf
proof unfold_locales
  fix e e' assume wf: "json_wf e" "json_wf e'" and "entry_text_of e = entry_text_of e'"
  then have "json_norm (entry_body e) = json_norm (entry_body e')"
    by (intro canonicalize_inj) (simp add: entry_text_of_def)
  with field_norm [OF body_wf [OF wf(1)], of "''prevHash''"] field_norm [OF body_wf [OF wf(2)], of "''prevHash''"]
  show "entry_prevHash e = entry_prevHash e'" by (simp add: field_body)
qed

lemma sound_chained:
  "sound_from dp p es \<Longrightarrow>
     chained entry_prevHash entry_hash (\<lambda>e. sha256Hex (entry_text_of e)) (cp_hash p) es \<and>
     chain_head entry_hash (cp_hash p) es = cp_hash (headOf p es)"
proof (induction es arbitrary: p)
  case (Cons e es)
  then have "entry_fault dp p e = None" "sound_from dp (checkpoint_of e) es" by simp_all
  with Cons.IH [of "checkpoint_of e"] entry_faultD(3,4) [of dp p e] hash_text show ?case
    by (simp add: chain_head_Cons checkpoint_of_def)
qed (simp add: chain_head_def)

text \<open>A verification against a checkpoint finds it at the end of some prefix.\<close>

lemma expected_on_chain:
  assumes "verifyLedgerChain dp es a (Some h) = Verified n a' h'"
  shows "sound_from dp a es" "\<exists>m \<le> length es. same_point (headOf a (take m es)) h"
proof -
  have loop: "verify_loop dp a 0 es = Loop_End (headOf a es) (length es)"
    using assms verify_loop_End [of dp a 0 es]
    by (cases "verify_loop dp a 0 es") (auto simp: verifyLedgerChain_def)
  then show sound: "sound_from dp a es" by (simp add: verify_loop_End)
  consider "same_point h (headOf a es)" | "same_point h a"
    | e where "e \<in> set es" "entry_seq e = cp_seq h" "entry_hash e = cp_hash h"
    using assms loop by (auto simp: verifyLedgerChain_def list_ex_iff split: if_splits)
  then show "\<exists>m \<le> length es. same_point (headOf a (take m es)) h"
  proof cases
    case 1
    then show ?thesis by (intro exI [of _ "length es"]) (simp add: same_point_def)
  next
    case 2
    then show ?thesis by (intro exI [of _ 0]) (simp add: same_point_def)
  next
    case 3
    then obtain i where i: "i < length es" "es ! i = e" by (auto simp: in_set_conv_nth)
    with 3 show ?thesis
      by (intro exI [of _ "Suc i"]) (simp add: same_point_def take_Suc_conv_app_nth checkpoint_of_def)
  qed
qed

text \<open>
  C13. A checkpoint pins the history before it: take the head of a chain that verified,
  keep it elsewhere, and let the stored chain change in any way (edits, removals,
  insertions, reordering, pruning, a complete rewrite). If the changed chain verifies
  against that checkpoint then all its entries up to the checkpoint are the original
  ones, field by field, and its anchor carries the hash of the original chain at that
  point, unless SHA-256 maps two of the texts involved to one digest.
\<close>

theorem checkpoint_pins_history:
  assumes before: "verifyLedgerChain dp es a None = Verified n a h"
    and after_check: "verifyLedgerChain dp es' a' (Some h) = Verified n' a' h'"
    and anchors: "cp_seq a \<le> cp_seq a'" "cp_seq a' \<le> cp_seq h" "k = nat (cp_seq a' - cp_seq a)"
    and wf: "list_all json_wf es" "list_all json_wf es'"
    and no_collision: "inj_on sha256Hex (entry_text_of ` (set es \<union> set es'))"
  shows "map (\<lambda>e. json_norm (entry_body e)) (take (length es - k) es') =
      map (\<lambda>e. json_norm (entry_body e)) (drop k es) \<and>
    cp_hash a' = cp_hash (headOf a (take k es))"
proof -
  have es: "sound_from dp a es" "h = headOf a es" using before by (simp_all add: verified_iff)
  obtain m where es': "sound_from dp a' es'" "m \<le> length es'" "same_point (headOf a' (take m es')) h"
    using expected_on_chain [OF after_check] by blast
  have k: "k \<le> length es" "cp_seq a' = cp_seq a + int k"
    using anchors es sound_seq [OF es(1)] by simp_all
  have split: "sound_from dp a (take k es)" "sound_from dp (headOf a (take k es)) (drop k es)"
    "headOf a es = headOf (headOf a (take k es)) (drop k es)"
    using es(1) sound_append [of dp a "take k es" "drop k es"] headOf_append [of a "take k es" "drop k es"]
    by simp_all
  have pre: "sound_from dp a' (take m es')"
    using es'(1) sound_append [of dp a' "take m es'" "drop m es'"] by simp
  have m: "m = length es - k"
    using sound_seq [OF es(1)] sound_seq [OF pre] es'(2,3) k es(2) by (auto simp: same_point_def)
  have "map entry_text_of (drop k es) = map entry_text_of (take m es') \<and> cp_hash (headOf a (take k es)) = cp_hash a'"
  proof (rule ledger_chain.same_head_same_texts)
    show "length (drop k es) = length (take m es')" using m es'(2) by simp
    show "inj_on sha256Hex (entry_text_of ` (set (drop k es) \<union> set (take m es')))"
      using no_collision by (rule inj_on_subset) (auto dest: in_set_dropD in_set_takeD)
    show "list_all json_wf (drop k es)" "list_all json_wf (take m es')"
      using wf by (auto simp: list_all_iff dest: in_set_dropD in_set_takeD)
    show "chain_head entry_hash (cp_hash (headOf a (take k es))) (drop k es) = chain_head entry_hash (cp_hash a') (take m es')"
      using sound_chained [OF split(2)] sound_chained [OF pre] es'(3) es(2) split(3) by (simp add: same_point_def)
  qed (use sound_chained [OF split(2)] sound_chained [OF pre] in simp_all)
  moreover have "map (\<lambda>e. json_norm (entry_body e)) xs = map (\<lambda>e. json_norm (entry_body e)) ys"
    if "map entry_text_of xs = map entry_text_of ys" for xs ys
    using that by (induction xs ys rule: list_induct2') (auto simp: entry_text_of_def dest: canonicalize_inj)
  ultimately show ?thesis using m by metis
qed

section \<open>Texts redaction keeps\<close>

definition plain_text_char :: "char \<Rightarrow> bool" where
  "plain_text_char c = (c \<notin> set ''SM'' \<and> \<not> is_space c)"

lemma scrub_plain:
  assumes "list_all plain_text_char s" "length s \<le> 1000"
  shows "scrubString s = s"
proof -
  have "list_all (\<lambda>c. c \<notin> set ''SM'') s" "list_all (\<lambda>c. \<not> is_space c) s"
    using assms(1) by (auto simp: list_all_iff plain_text_char_def)
  moreover have "\<not> looksLikeSecret s"
    using assms(1) by (cases s) (auto simp: looksLikeSecret_def startsWith_def plain_text_char_def)
  ultimately show ?thesis
    using assms(2) seed_skip [of s redacted "[]"] by (simp add: scrubString_def MAX_SCANNABLE_STRING_LENGTH_def bearer_no_space)
qed

lemma digits_plain: "list_all plain_text_char (digits n i)"
proof -
  have "plain_text_char c" if "is_digit c" for c
    using that by (auto simp: plain_text_char_def is_digit_def is_space_def code_of_def)
  moreover have "is_digit (CHR ''0'')" by (simp add: is_digit_def code_of_def)
  ultimately show ?thesis
    using nat_text_digits [of _ "nat i"] by (auto simp: digits_def padStart_def list_all_iff)
qed

lemma iso_plain: "list_all plain_text_char (toISOString t)"
  by (simp add: toISOString_def year_text_def Let_def case_prod_beta digits_plain)
    (simp add: plain_text_char_def is_space_def code_of_def)

lemma nat_text_length: "n < 10 ^ k \<Longrightarrow> 0 < k \<Longrightarrow> length (nat_text n) \<le> k"
proof (induction k arbitrary: n)
  case (Suc k)
  show ?case
  proof (cases "n < 10")
    case True
    then show ?thesis by (subst nat_text.simps) simp
  next
    case False
    with Suc.prems have "n div 10 < 10 ^ k" "0 < k"
      by (auto simp: less_mult_imp_div_less mult.commute intro: gr0I)
    from Suc.IH [OF this] False show ?thesis by (subst nat_text.simps) simp
  qed
qed simp

lemma digits_length: "i < 10 ^ k \<Longrightarrow> 0 < k \<Longrightarrow> length (digits n i) \<le> max n k"
  using nat_text_length [of "nat i" k] by (simp add: digits_def padStart_def nat_less_iff)

lemma div_bounds: "0 < k \<Longrightarrow> k * (x div k) \<le> x \<and> x < k * (x div k) + k" for k x :: int
  using mult_div_mod_eq [of k x] pos_mod_sign [of k x] pos_mod_bound [of k x] by linarith

lemma civil_bounds:
  assumes "valid_date t" "civil_of_days (t div 86400000) = (y, m, d)"
  shows "\<bar>y\<bar> < 10 ^ 6" "m < 10 ^ 6" "d < 10 ^ 6"
proof -
  define z where "z = t div 86400000 + 719468"
  define era where "era = z div 146097"
  define doe where "doe = z mod 146097"
  define yoe where "yoe = (doe - doe div 1460 + doe div 36524 - doe div 146096) div 365"
  define doy where "doy = doe - (365 * yoe + yoe div 4 - yoe div 100)"
  define mp where "mp = (5 * doy + 2) div 153"
  have "- 8640000000000000 \<le> t" "t \<le> 8640000000000000" using assms(1) by (simp_all add: valid_date_def abs_le_iff)
  with div_bounds [of 86400000 t] have z: "- 100000001 \<le> z - 719468" "z - 719468 \<le> 100000000"
    unfolding z_def by linarith+
  have doe: "0 \<le> doe" "doe < 146097" by (simp_all add: doe_def)
  have era: "- 1000 \<le> era" "era \<le> 1000" using z div_bounds [of 146097 z] unfolding era_def by linarith+
  have yoe: "0 \<le> yoe" "yoe < 1000"
    using doe div_bounds [of 1460 doe] div_bounds [of 36524 doe] div_bounds [of 146096 doe]
      div_bounds [of 365 "doe - doe div 1460 + doe div 36524 - doe div 146096"]
    unfolding yoe_def by linarith+
  have doy: "doy < 147000" using doe yoe div_bounds [of 4 yoe] div_bounds [of 100 yoe] unfolding doy_def by linarith
  have mp: "mp < 5000" "5 * doy + 2 < 153 * mp + 153" using doy div_bounds [of 153 "5 * doy + 2"] unfolding mp_def by linarith+
  define mm where "mm = (if mp < 10 then mp + 3 else mp - 9)"
  have "civil_of_days (t div 86400000) = (yoe + era * 400 + (if mm \<le> 2 then 1 else 0), mm, doy - (153 * mp + 2) div 5 + 1)"
    by (simp only: civil_of_days_def Let_def z_def era_def doe_def yoe_def doy_def mp_def mm_def)
  with assms(2) have civil: "y = yoe + era * 400 + (if mm \<le> 2 then 1 else 0)" "m = mm"
    "d = doy - (153 * mp + 2) div 5 + 1" by auto
  have "y \<le> 402000" "- 402000 \<le> y" using civil(1) era yoe by (simp_all split: if_splits)
  then show "\<bar>y\<bar> < 10 ^ 6" by simp
  show "m < 10 ^ 6" using civil(2) mp(1) by (simp add: mm_def)
  show "d < 10 ^ 6" using civil(3) mp(2) div_bounds [of 5 "153 * mp + 2"] by simp
qed

lemma iso_length:
  assumes "valid_date t"
  shows "length (toISOString t) \<le> 100"
proof -
  obtain y m d where c: "civil_of_days (t div 86400000) = (y, m, d)" by (cases "civil_of_days (t div 86400000)")
  note b = civil_bounds [OF assms c]
  let ?ms = "t mod 86400000"
  have ms: "0 \<le> ?ms" "?ms < 10 ^ 8" by simp_all
  have two: "length (digits 2 i) \<le> 8" and three: "length (digits 3 i) \<le> 8" and
    four: "length (digits 4 i) \<le> 8" and six: "length (digits 6 i) \<le> 8" if "i < 10 ^ 8" for i
    using digits_length [OF that, of 2] digits_length [OF that, of 3] digits_length [OF that, of 4]
      digits_length [OF that, of 6] by simp_all
  have small: "?ms div 3600000 < 10 ^ 8" "?ms div 60000 mod 60 < 10 ^ 8" "?ms div 1000 mod 60 < 10 ^ 8"
    "?ms mod 1000 < 10 ^ 8" "m < 10 ^ 8" "d < 10 ^ 8"
    using ms b(2,3) pos_mod_bound [of 60 "?ms div 60000"] pos_mod_bound [of 60 "?ms div 1000"]
      pos_mod_bound [of 1000 ?ms] div_bounds [of 3600000 ?ms] by simp_all
  note parts = two [OF small(5)] two [OF small(6)] two [OF small(1)] two [OF small(2)] two [OF small(3)]
    three [OF small(4)]
  have y: "y < 10 ^ 8" "- y < 10 ^ 8" using b(1) by simp_all
  have "length (year_text y) \<le> 9"
    using four [OF y(1)] six [OF y(1)] six [OF y(2)] by (simp add: year_text_def)
  moreover have "toISOString t = year_text y @ ''-'' @ digits 2 m @ ''-'' @ digits 2 d @ ''T'' @
      digits 2 (?ms div 3600000) @ '':'' @ digits 2 (?ms div 60000 mod 60) @ '':'' @
      digits 2 (?ms div 1000 mod 60) @ ''.'' @ digits 3 (?ms mod 1000) @ ''Z''"
    by (simp only: toISOString_def Let_def c prod.case)
  moreover have "length [x] = 1" for x :: char by simp
  ultimately show ?thesis using parts by (simp only: length_append)
qed

lemma scrub_iso: "valid_date t \<Longrightarrow> scrubString (toISOString t) = toISOString t"
  using iso_plain iso_length [of t] by (intro scrub_plain) simp_all

section \<open>What append builds\<close>

lemma redact_defined: "redact_at addr d v = JUndef \<longleftrightarrow> v = JUndef"
  by (cases v) simp_all

lemma stored_object:
  "json_clone (redact (JObj es)) = JObj (map (\<lambda>e. (fst e, json_clone (if isSensitiveKey (fst e) then JStr redacted
     else redact_at False 1 (snd e)))) (filter (\<lambda>e. isSensitiveKey (fst e) \<or> snd e \<noteq> JUndef) es))"
proof -
  have "redact (JObj es) = JObj (map (\<lambda>(k, v). (k, if isSensitiveKey k then JStr redacted else redact_at False 1 v)) es)"
    by (simp add: redact_def MAX_REDACT_DEPTH_def cong: if_cong)
  moreover have "map (\<lambda>(k, v). (k, json_clone v)) (filter defined
      (map (\<lambda>(k, v). (k, if isSensitiveKey k then JStr redacted else redact_at False 1 v)) es)) =
    map (\<lambda>e. (fst e, json_clone (if isSensitiveKey (fst e) then JStr redacted
      else redact_at False 1 (snd e)))) (filter (\<lambda>e. isSensitiveKey (fst e) \<or> snd e \<noteq> JUndef) es)"
    by (induction es) (auto simp: defined_def redact_defined)
  ultimately show ?thesis by simp
qed

lemma stored_field:
  assumes "distinct (map fst es)" "map_of es k = Some v" "v \<noteq> JUndef" "\<not> isSensitiveKey k"
  shows "field (json_clone (redact (JObj es))) k = json_clone (redact_at False 1 v)"
  using assms
proof (induction es)
  case (Cons e es)
  obtain a x where e: "e = (a, x)" by (cases e)
  show ?case
  proof (cases "k = a")
    case True
    then show ?thesis using Cons.prems e by (simp add: stored_object field_def)
  next
    case False
    then show ?thesis using Cons e by (simp add: stored_object field_def)
  qed
qed simp

lemma stored_keys:
  "json_clone (redact (JObj es)) = JObj fs \<Longrightarrow> set (map fst fs) \<subseteq> set (map fst es)"
  by (fastforce simp: stored_object)

lemma sealed_fields:
  assumes "\<nexists>v. (''hash'', v) \<in> set es"
  shows "k \<noteq> ''hash'' \<Longrightarrow> field (sealed (JObj es)) k = field (JObj es) k"
    "field (sealed (JObj es)) ''hash'' = JStr (case hashLedgerEntry (JObj es) of Some h \<Rightarrow> h | None \<Rightarrow> [])"
    "hashLedgerEntry (sealed (JObj es)) = hashLedgerEntry (JObj es)"
proof -
  have none: "map_of es ''hash'' = None" using assms by (auto simp: map_of_eq_None_iff)
  then show "field (sealed (JObj es)) ''hash'' = JStr (case hashLedgerEntry (JObj es) of Some h \<Rightarrow> h | None \<Rightarrow> [])"
    by (simp add: sealed_def field_def map_add_def)
  show "k \<noteq> ''hash'' \<Longrightarrow> field (sealed (JObj es)) k = field (JObj es) k"
    by (simp add: sealed_def field_def map_add_def split: option.split)
  show "hashLedgerEntry (sealed (JObj es)) = hashLedgerEntry (JObj es)"
    by (simp add: sealed_def hashLedgerEntry_def entry_body_def)
qed

lemma body_keys_plain:
  "list_all (\<lambda>k. \<not> isSensitiveKey k)
     [''v'', ''seq'', ''at'', ''kind'', ''action'', ''actorId'', ''subject'', ''outcome'', ''data'', ''ref'',
      ''refDigest'', ''prevHash'', ''id'']"
  by code_simp

lemma actions_plain: "list_all (\<lambda>a. list_all plain_text_char a \<and> length a \<le> 1000) allActions"
  by (simp add: allActions_def SENSITIVE_ACTIONS_def FINANCIAL_ACTIONS_def LEDGER_SYSTEM_ACTIONS_def
      plain_text_char_def is_space_def code_of_def)

lemma words_plain:
  "list_all (\<lambda>a. list_all plain_text_char a \<and> length a \<le> 1000) [''privileged'', ''financial'', ''allowed'', ''denied'']"
  by (simp add: plain_text_char_def is_space_def code_of_def)

lemma hash_plain: "hash_pattern h \<Longrightarrow> scrubString h = h"
  by (rule scrub_plain)
    (auto simp: hash_pattern_def list_all_iff is_hex_def plain_text_char_def is_digit_def is_space_def code_of_def)

definition input_words :: "ledger_input \<Rightarrow> bool" where
  "input_words input =
     (li_action input \<in> set allActions \<and> li_kind input = kindOf (li_action input) \<and>
      li_outcome input \<in> {None, Some ''allowed'', Some ''denied''})"

definition input_ok :: "ledger_input \<Rightarrow> bool" where
  "input_ok input =
     (input_words input \<and> isLabel (scrubString (li_subject_kind input)) \<and>
      isLabel (scrubString (li_subject_id input)))"

lemma leaf_no_big: "context_leaf v \<Longrightarrow> no_big v"
  by (cases v) (simp_all add: context_leaf_def)

lemma context_no_big: "list_all (\<lambda>(k, v). v = JUndef \<or> no_big v) (context_loop n es)"
  using context_loop_bounds [of n es] leaf_no_big by (fastforce simp: list_all_iff)

lemma no_big_body: "no_big (build_body p input at)"
  using context_no_big
  by (simp add: build_body_def opt_str_def auditContext_def Let_def split: option.split)

lemma scrub_words:
  assumes "input_words input"
  shows "scrubString (li_action input) = li_action input" "scrubString (li_kind input) = li_kind input"
    "scrubString (case li_outcome input of Some out \<Rightarrow> out | None \<Rightarrow> ''allowed'') =
       (case li_outcome input of Some out \<Rightarrow> out | None \<Rightarrow> ''allowed'')"
proof -
  have "li_action input \<in> set allActions" using assms by (simp add: input_words_def)
  with actions_plain [unfolded list_all_iff [of _ allActions]] scrub_plain
  show "scrubString (li_action input) = li_action input" by blast
  have w: "scrubString ''privileged'' = ''privileged''" "scrubString ''financial'' = ''financial''"
    "scrubString ''allowed'' = ''allowed''" "scrubString ''denied'' = ''denied''"
    using words_plain by (simp_all add: scrub_plain)
  have "li_kind input = ''privileged'' \<or> li_kind input = ''financial''"
    using assms by (simp add: input_words_def kindOf_def)
  then show "scrubString (li_kind input) = li_kind input" by (elim disjE) (simp_all only: w)
  have "li_outcome input = None \<or> li_outcome input = Some ''allowed'' \<or> li_outcome input = Some ''denied''"
    using assms by (simp add: input_words_def)
  then show "scrubString (case li_outcome input of Some out \<Rightarrow> out | None \<Rightarrow> ''allowed'') =
       (case li_outcome input of Some out \<Rightarrow> out | None \<Rightarrow> ''allowed'')"
    by (elim disjE) (simp_all only: w option.case)
qed

text \<open>A field of a built entry is the redacted field of the body it was built from.\<close>

lemma build_get:
  assumes "build_body p input at = JObj es" "map_of es k = Some v" "v \<noteq> JUndef" "\<not> isSensitiveKey k" "k \<noteq> ''hash''"
  shows "field (build p input at) k = json_clone (redact_at False 1 v)"
proof -
  have keys: "map fst es = [''v'', ''seq'', ''at'', ''kind'',
      ''action'', ''actorId'', ''subject'', ''outcome'', ''data'', ''ref'', ''refDigest'', ''prevHash'']"
    using assms(1) by (auto simp: build_body_def)
  obtain fs where fs: "json_clone (redact (JObj es)) = JObj fs" by (simp add: stored_object)
  have "\<nexists>v. (''hash'', v) \<in> set fs"
  proof
    assume "\<exists>v. (''hash'', v) \<in> set fs"
    then have "''hash'' \<in> set (map fst fs)" by force
    with stored_keys [OF fs] have "''hash'' \<in> set (map fst es)" by blast
    then show False by (simp add: keys)
  qed
  from sealed_fields(1) [OF this assms(5)] stored_field [OF _ assms(2-4)] keys
  show ?thesis by (simp add: build_def assms(1) fs)
qed

lemma build_refs:
  assumes "li_ref input = Some r" "li_refDigest input = Some d" "scrubString r = r" "hash_pattern d"
  shows "field (build p input at) ''ref'' = JStr r" "field (build p input at) ''refDigest'' = JStr d"
proof -
  obtain es where es: "build_body p input at = JObj es" by (simp add: build_body_def)
  then have "map_of es ''ref'' = Some (JStr r)" "map_of es ''refDigest'' = Some (JStr d)"
    using assms(1,2) by (auto simp: build_body_def opt_str_def)
  moreover have "\<not> isSensitiveKey ''ref''" "\<not> isSensitiveKey ''refDigest''"
    using body_keys_plain by simp_all
  ultimately show "field (build p input at) ''ref'' = JStr r" "field (build p input at) ''refDigest'' = JStr d"
    using build_get [OF es] assms(3) hash_plain [OF assms(4)] by simp_all
qed

lemma build_fields:
  fixes p input at
  defines "e \<equiv> build p input at"
  assumes "hash_pattern (cp_hash p)" "scrubString at = at" "input_words input"
  shows "field e ''v'' = JNum 1" "field e ''seq'' = JNum (cp_seq p + 1)" "field e ''at'' = JStr at"
    "field e ''kind'' = JStr (li_kind input)" "field e ''action'' = JStr (li_action input)"
    "field e ''actorId'' = JStr (scrubString (li_actorId input))"
    "field e ''subject'' = JObj [(''kind'', JStr (scrubString (li_subject_kind input))),
       (''id'', JStr (scrubString (li_subject_id input)))]"
    "field e ''outcome'' = JStr (case li_outcome input of Some out \<Rightarrow> out | None \<Rightarrow> ''allowed'')"
    "field e ''prevHash'' = JStr (cp_hash p)"
    "\<exists>h. field e ''hash'' = JStr h \<and> hash_pattern h \<and> hashLedgerEntry e = Some h"
proof -
  obtain es where es: "build_body p input at = JObj es" by (simp add: build_body_def)
  then have es_eq: "es = (case build_body p input at of JObj xs \<Rightarrow> xs)" by simp
  have keys: "map fst es = [''v'', ''seq'', ''at'', ''kind'',
      ''action'', ''actorId'', ''subject'', ''outcome'', ''data'', ''ref'', ''refDigest'', ''prevHash'']"
    by (simp add: es_eq build_body_def)
  have m: "map_of es ''v'' = Some (JNum 1)" "map_of es ''seq'' = Some (JNum (cp_seq p + 1))" "map_of es ''at'' = Some (JStr at)"
    "map_of es ''kind'' = Some (JStr (li_kind input))" "map_of es ''action'' = Some (JStr (li_action input))"
    "map_of es ''actorId'' = Some (JStr (li_actorId input))"
    "map_of es ''subject'' = Some (JObj [(''kind'', JStr (li_subject_kind input)), (''id'', JStr (li_subject_id input))])"
    "map_of es ''outcome'' = Some (JStr (case li_outcome input of Some out \<Rightarrow> out | None \<Rightarrow> ''allowed''))"
    "map_of es ''prevHash'' = Some (JStr (cp_hash p))"
    by (simp_all add: es_eq build_body_def)
  obtain fs where fs: "json_clone (redact (JObj es)) = JObj fs" by (simp add: stored_object)
  have nohash: "\<nexists>v. (''hash'', v) \<in> set fs"
  proof
    assume "\<exists>v. (''hash'', v) \<in> set fs"
    then have "''hash'' \<in> set (map fst fs)" by force
    with stored_keys [OF fs] have "''hash'' \<in> set (map fst es)" by blast
    then show False by (simp add: keys)
  qed
  have e: "e = sealed (JObj fs)" by (simp add: e_def build_def es fs)
  have get: "field e k = json_clone (redact_at False 1 v)"
    if "map_of es k = Some v" "v \<noteq> JUndef" "\<not> isSensitiveKey k" "k \<noteq> ''hash''" for k v
    using build_get [OF es that] by (simp add: e_def)
  have plain: "\<not> isSensitiveKey ''v''" "\<not> isSensitiveKey ''seq''" "\<not> isSensitiveKey ''at''" "\<not> isSensitiveKey ''kind''"
    "\<not> isSensitiveKey ''action''" "\<not> isSensitiveKey ''actorId''" "\<not> isSensitiveKey ''subject''"
    "\<not> isSensitiveKey ''outcome''" "\<not> isSensitiveKey ''prevHash''" "\<not> isSensitiveKey ''id''"
    using body_keys_plain by simp_all
  note words = scrub_words [OF assms(4)] assms(3) hash_plain [OF assms(2)]
  show "field e ''v'' = JNum 1" using get [OF m(1) _ plain(1)] by simp
  show "field e ''seq'' = JNum (cp_seq p + 1)" using get [OF m(2) _ plain(2)] by simp
  show "field e ''at'' = JStr at" using get [OF m(3) _ plain(3)] by (simp add: words)
  show "field e ''kind'' = JStr (li_kind input)" using get [OF m(4) _ plain(4)] by (simp add: words)
  show "field e ''action'' = JStr (li_action input)" using get [OF m(5) _ plain(5)] by (simp add: words)
  show "field e ''actorId'' = JStr (scrubString (li_actorId input))" using get [OF m(6) _ plain(6)] by simp
  show "field e ''subject'' = JObj [(''kind'', JStr (scrubString (li_subject_kind input))),
       (''id'', JStr (scrubString (li_subject_id input)))]"
    using get [OF m(7) _ plain(7)] by (simp add: MAX_REDACT_DEPTH_def plain(4,10) defined_def)
  show "field e ''outcome'' = JStr (case li_outcome input of Some out \<Rightarrow> out | None \<Rightarrow> ''allowed'')"
    using get [OF m(8) _ plain(8)] words(3) by simp
  show "field e ''prevHash'' = JStr (cp_hash p)" using get [OF m(9) _ plain(9)] by (simp add: words)
  have "no_big (JObj fs)"
    using no_big_clone [OF no_big_redact [OF no_big_body]] es fs unfolding redact_def by metis
  moreover have "entry_body (JObj fs) = JObj fs"
    using nohash by (auto simp: entry_body_def filter_id_conv)
  ultimately have "hashLedgerEntry (JObj fs) = Some (sha256Hex (canonicalize (JObj fs)))"
    by (simp add: hashLedgerEntry_def canonicalJson_guarded del: canonicalize.simps)
  with sealed_fields(2,3) [OF nohash] sha256Hex_pattern
  show "\<exists>h. field e ''hash'' = JStr h \<and> hash_pattern h \<and> hashLedgerEntry e = Some h" by (simp add: e)
qed

lemma build_sound:
  assumes "hash_pattern (cp_hash p)" "scrubString at = at" "input_ok input" "dp at" "\<not> earlier at p"
  shows "entry_fault dp p (build p input at) = None" "entry_at (build p input at) = at"
proof -
  let ?e = "build p input at"
  have words: "input_words input" using assms(3) by (simp add: input_ok_def)
  note f = build_fields [OF assms(1,2) words]
  from f(10) obtain h where h: "field ?e ''hash'' = JStr h" "hash_pattern h" "hashLedgerEntry ?e = Some h" by blast
  have labels: "isLabel (scrubString (li_subject_kind input))" "isLabel (scrubString (li_subject_id input))"
    and action: "li_action input \<in> set allActions" "li_kind input = kindOf (li_action input)"
    using assms(3) by (simp_all add: input_ok_def input_words_def)
  have out: "(case li_outcome input of Some out \<Rightarrow> out | None \<Rightarrow> ''allowed'') = ''allowed'' \<or>
      (case li_outcome input of Some out \<Rightarrow> out | None \<Rightarrow> ''allowed'') = ''denied''"
    using words unfolding input_words_def by (elim conjE insertE emptyE) simp_all
  have kind: "li_kind input = ''privileged'' \<or> li_kind input = ''financial''"
    using action(2) by (simp add: kindOf_def)
  have sub: "field (field ?e ''subject'') ''kind'' = JStr (scrubString (li_subject_kind input))"
    "field (field ?e ''subject'') ''id'' = JStr (scrubString (li_subject_id input))"
    unfolding f(7) by (simp_all add: field_def)
  have shape: "isEntryShape dp ?e"
    unfolding isEntryShape_def sub f(1-6,8,9) h(1)
    using labels action out kind assms(1,4) h(2) by (simp add: str_where_def str_of_def is_num_def)
  have "entry_seq ?e = cp_seq p + 1" "entry_prevHash ?e = cp_hash p" "entry_hash ?e = h"
    unfolding f(2,9) h(1) by (simp_all add: num_of_def str_of_def)
  moreover show at: "entry_at ?e = at" unfolding f(3) by (simp add: str_of_def)
  ultimately show "entry_fault dp p ?e = None"
    using shape h(3) assms(5) by (simp add: entry_fault_def Let_def)
qed

section \<open>Ledgers that verify\<close>

text \<open>The instants of a chain are texts redaction keeps, as the texts of a clock are.\<close>

definition point_ok :: "(string \<Rightarrow> bool) \<Rightarrow> checkpoint \<Rightarrow> bool" where
  "point_ok dp c =
     (isCheckpoint c \<and> (case cp_at c of Some a \<Rightarrow> dp a \<and> scrubString a = a | None \<Rightarrow> True))"

definition ledger_ok :: "(string \<Rightarrow> bool) \<Rightarrow> ledger \<Rightarrow> bool" where
  "ledger_ok dp l =
     (case ledger_read l of
        Some (a, es) \<Rightarrow> point_ok dp a \<and> sound_from dp a es \<and> list_all (\<lambda>e. scrubString (entry_at e) = entry_at e) es
      | None \<Rightarrow> False)"

lemma genesis_ok: "point_ok dp GENESIS"
  by (simp add: point_ok_def GENESIS_def isCheckpoint_def LEDGER_GENESIS_HASH_def hash_pattern_def list_all_iff
      is_hex_def is_digit_def code_of_def)

lemma shape_point:
  assumes "isEntryShape dp e" "0 \<le> entry_seq e" "scrubString (entry_at e) = entry_at e"
  shows "point_ok dp (checkpoint_of e)"
  using assms by (auto simp: point_ok_def checkpoint_of_def isCheckpoint_def isEntryShape_def str_where_def
      str_of_def split: json.splits)

lemma head_point_ok:
  "point_ok dp a \<Longrightarrow> sound_from dp a es \<Longrightarrow> list_all (\<lambda>e. scrubString (entry_at e) = entry_at e) es \<Longrightarrow>
     point_ok dp (headOf a es)"
proof (induction es arbitrary: a)
  case (Cons e es)
  then have "entry_fault dp a e = None" by simp
  note d = entry_faultD [OF this]
  have "0 \<le> entry_seq e" using d(2) Cons.prems(1) by (simp add: point_ok_def isCheckpoint_def)
  with Cons d(1) shape_point [of dp e] show ?case by simp
qed simp

definition clock_parses :: "(string \<Rightarrow> bool) \<Rightarrow> bool" where
  "clock_parses dp = (\<forall>t. valid_date t \<longrightarrow> dp (toISOString t))"

lemma append_ok:
  assumes "clock_parses dp" "ledger_ok dp l" "valid_date now" "append_valid dp input"
    "isLabel (scrubString (li_subject_kind input))" "isLabel (scrubString (li_subject_id input))"
    "li_outcome input \<in> {None, Some ''allowed'', Some ''denied''}"
    "case li_at input of Some a \<Rightarrow> scrubString a = a | None \<Rightarrow> True"
  shows "(\<exists>e. fst (ledger_append dp l now input) = Ok e \<and>
      ledger_entries (snd (ledger_append dp l now input)) = ledger_entries l @ [e] \<and>
      ledger_ok dp (snd (ledger_append dp l now input))) \<or>
    (li_at input \<noteq> None \<and> ledger_append dp l now input = (Err Append_Out_Of_Order, l))"
proof -
  obtain a es where r: "ledger_read l = Some (a, es)" and ok: "point_ok dp a" "sound_from dp a es"
    "list_all (\<lambda>e. scrubString (entry_at e) = entry_at e) es"
    using assms(2) by (auto simp: ledger_ok_def split: option.splits)
  let ?p = "headOf a es" and ?given = "case li_at input of Some a \<Rightarrow> a | None \<Rightarrow> toISOString now"
  let ?at = "if earlier ?given ?p then (case cp_at ?p of Some a \<Rightarrow> a | None \<Rightarrow> ?given) else ?given"
  have p: "point_ok dp ?p" using head_point_ok ok by blast
  have last: "es \<noteq> [] \<Longrightarrow> isEntryShape dp (last es) \<and> hashLedgerEntry (last es) = Some (entry_hash (last es))"
    using ok(2) sound_append [of dp a "butlast es" "[last es]"] entry_faultD by auto
  have at0: "dp ?given" "scrubString ?given = ?given"
    using assms(1,3,4,8) scrub_iso by (auto simp: clock_parses_def append_valid_def split: option.splits)
  have at: "dp ?at" "scrubString ?at = ?at" "\<not> earlier ?at ?p"
    using at0 p by (auto simp: point_ok_def earlier_def split: option.splits)
  have "input_ok input" using assms(4-7) by (simp add: input_ok_def input_words_def append_valid_def)
  moreover have "hash_pattern (cp_hash ?p)" using p by (simp add: point_ok_def isCheckpoint_def)
  ultimately have new: "entry_fault dp ?p (build ?p input ?at) = None" "entry_at (build ?p input ?at) = ?at"
    using build_sound at by blast+
  show ?thesis
  proof (cases "earlier ?given ?p \<and> li_at input \<noteq> None")
    case True
    then show ?thesis using assms(4) r last by (auto simp: ledger_append_def Let_def)
  next
    case False
    let ?e = "build ?p input ?at"
    have call: "ledger_append dp l now input = (Ok ?e, ledger_write a (es @ [?e]) l)"
      using False assms(4) r last by (auto simp: ledger_append_def Let_def)
    have read: "ledger_read (ledger_write a (es @ [?e]) l) = Some (a, es @ [?e])"
      using ok(1) by (simp add: ledger_read_def ledger_write_def point_ok_def)
    have "ledger_ok dp (ledger_write a (es @ [?e]) l)"
      unfolding ledger_ok_def read using ok new at(2) by (simp add: sound_append)
    then show ?thesis using call read r by (simp add: ledger_entries_def)
  qed
qed

lemma ledger_okD:
  assumes "ledger_ok dp l"
  obtains a es where "ledger_read l = Some (a, es)" "point_ok dp a" "sound_from dp a es"
    "list_all (\<lambda>e. scrubString (entry_at e) = entry_at e) es"
    "ledger_verify dp l None = Verified (length es) a (headOf a es)" "ledger_head l = headOf a es"
proof -
  obtain a es where r: "ledger_read l = Some (a, es)" "point_ok dp a" "sound_from dp a es"
    "list_all (\<lambda>e. scrubString (entry_at e) = entry_at e) es"
    using assms by (auto simp: ledger_ok_def split: option.splits)
  then show ?thesis
    by (intro that [of a es]) (simp_all add: ledger_verify_def verified_iff ledger_head_def)
qed

lemma take_drop_sound:
  assumes "sound_from dp a es"
  shows "sound_from dp a (take n es)" "sound_from dp (headOf a (take n es)) (drop n es)"
    "headOf (headOf a (take n es)) (drop n es) = headOf a es"
  using assms sound_append [of dp a "take n es" "drop n es"] headOf_append [of a "take n es" "drop n es"] by simp_all

lemma take_point_ok:
  assumes "point_ok dp a" "sound_from dp a es" "list_all (\<lambda>e. scrubString (entry_at e) = entry_at e) es"
  shows "point_ok dp (headOf a (take n es))"
  using head_point_ok [OF assms(1) take_drop_sound(1) [OF assms(2)]] assms(3)
  by (simp add: list_all_iff) (meson in_set_takeD)

lemma headOf_take: "0 < n \<Longrightarrow> n \<le> length es \<Longrightarrow> headOf a (take n es) = checkpoint_of (es ! (n - 1))"
  by (auto simp: headOf_def last_conv_nth)

lemma prune_ok:
  assumes "ledger_ok dp l"
  shows "ledger_ok dp (snd (ledger_prune limit l)) \<and>
    ledger_head (snd (ledger_prune limit l)) = ledger_head l \<and>
    ledger_entries (snd (ledger_prune limit l)) = slice_last limit (ledger_entries l)"
proof -
  from assms obtain a es where r: "ledger_read l = Some (a, es)" and ok: "point_ok dp a" "sound_from dp a es"
    "list_all (\<lambda>e. scrubString (entry_at e) = entry_at e) es"
    and v: "ledger_verify dp l None = Verified (length es) a (headOf a es)" "ledger_head l = headOf a es"
    by (rule ledger_okD)
  show ?thesis
  proof (cases "length es \<le> limit")
    case True
    then show ?thesis using assms r by (simp add: ledger_prune_def ledger_entries_def slice_last_def)
  next
    case False
    let ?d = "length es - limit" and ?a = "headOf a (take (length es - limit) es)"
    have a: "checkpoint_of (es ! (?d - 1)) = ?a" using False by (subst headOf_take) auto
    have p: "point_ok dp ?a" using take_point_ok ok by blast
    have "snd (ledger_prune limit l) = ledger_write ?a (drop ?d es) l"
      using False r a by (simp add: ledger_prune_def Let_def)
    moreover have "ledger_read (ledger_write ?a (drop ?d es) l) = Some (?a, drop ?d es)"
      using p by (simp add: ledger_read_def ledger_write_def point_ok_def)
    moreover have "list_all (\<lambda>e. scrubString (entry_at e) = entry_at e) (drop ?d es)"
      using ok(3) by (auto simp: list_all_iff dest: in_set_dropD)
    ultimately show ?thesis
      using p r v take_drop_sound [OF ok(2), of ?d]
      by (simp add: ledger_ok_def ledger_head_def ledger_entries_def slice_last_def)
  qed
qed

section \<open>Runs\<close>

datatype ledger_event = L_Append int ledger_input | L_Prune nat | L_Reset

fun ledger_step :: "(string \<Rightarrow> bool) \<Rightarrow> ledger \<Rightarrow> ledger_event \<Rightarrow> ledger" where
  "ledger_step dp l (L_Append now input) = snd (ledger_append dp l now input)"
| "ledger_step dp l (L_Prune limit) = snd (ledger_prune limit l)"
| "ledger_step dp l L_Reset = ledger_reset l"

text \<open>
  The calls a run may hold: a clock in range, an outcome of its type, labels that are
  still labels and an instant that is unchanged once redaction went over the entry.
\<close>

fun ledger_allowed :: "ledger_event \<Rightarrow> bool" where
  "ledger_allowed (L_Append now input) =
     (valid_date now \<and> isLabel (scrubString (li_subject_kind input)) \<and> isLabel (scrubString (li_subject_id input)) \<and>
      li_outcome input \<in> {None, Some ''allowed'', Some ''denied''} \<and>
      (case li_at input of Some a \<Rightarrow> scrubString a = a | None \<Rightarrow> True))"
| "ledger_allowed _ = True"

lemma reset_ok: "ledger_ok dp (ledger_reset l)"
  by (simp add: ledger_ok_def ledger_read_def ledger_reset_def genesis_ok)

lemma ledger_step_ok:
  assumes "clock_parses dp" "ledger_ok dp l" "ledger_allowed e"
  shows "ledger_ok dp (ledger_step dp l e)"
proof (cases e)
  case (L_Append now input)
  show ?thesis
  proof (cases "append_valid dp input")
    case True
    then show ?thesis
      using append_ok [OF assms(1,2), of now input] assms(2,3) L_Append by auto
  next
    case False
    then show ?thesis using assms(2) L_Append by (simp add: ledger_append_def)
  qed
next
  case (L_Prune limit)
  then show ?thesis using prune_ok [OF assms(2)] by simp
next
  case L_Reset
  then show ?thesis using reset_ok by simp
qed

lemma ledger_runs: "clock_parses dp \<Longrightarrow> guarded_system (ledger_step dp) ledger_allowed (ledger_ok dp)"
  by unfold_locales (rule ledger_step_ok)

definition fresh_ledger :: ledger where
  "fresh_ledger = \<lparr>lg_chain = None, lg_quarantine = []\<rparr>"

lemma fresh_ok: "ledger_ok dp fresh_ledger"
  by (simp add: ledger_ok_def ledger_read_def fresh_ledger_def genesis_ok)


text \<open>
  Pruning keeps the evidence: it keeps the last entries, the head and a chain that
  verifies from the moved anchor.
\<close>

lemma prune_keeps_chain:
  assumes "ledger_ok dp l"
  shows "ledger_entries (snd (ledger_prune limit l)) = slice_last limit (ledger_entries l) \<and>
    ledger_head (snd (ledger_prune limit l)) = ledger_head l \<and>
    fst (ledger_prune limit l) = length (ledger_entries l) - limit \<and>
    (\<exists>n a. ledger_verify dp (snd (ledger_prune limit l)) None = Verified n a (ledger_head l))"
proof -
  note p = prune_ok [OF assms, of limit]
  from p obtain n a where "ledger_verify dp (snd (ledger_prune limit l)) None =
      Verified n a (ledger_head (snd (ledger_prune limit l)))"
    by (auto elim: ledger_okD)
  moreover have "fst (ledger_prune limit l) = length (ledger_entries l) - limit"
    using assms by (auto simp: ledger_ok_def ledger_prune_def ledger_entries_def Let_def split: option.split)
  ultimately show ?thesis using p by simp
qed

end
