(* ===== verification/Ledger_Recovery.thy ===== *)
theory Ledger_Recovery
  imports Ledger_Integrity
begin

text \<open>
  Exports and recovery of the ledger: an export of a good ledger verifies offline, and
  resealing a broken ledger gives one that verifies, keeps the good prefix and keeps the
  broken bytes aside. The last part gives concrete ledgers for the properties.
\<close>

section \<open>Export\<close>

lemma verify_export_doc:
  assumes "point_ok dp a" "sound_from dp a es" "list_all (\<lambda>e. scrubString (entry_at e) = entry_at e) es"
  shows "verifyLedgerExport dp (export_doc now format a es) None = Verified (length es) a (headOf a es)"
proof -
  have "isCheckpoint a" "isCheckpoint (headOf a es)"
    using assms(1) head_point_ok [OF assms] by (simp_all add: point_ok_def)
  moreover have "verifyLedgerChain dp es a None = Verified (length es) a (headOf a es)"
    using assms(2) by (simp add: verified_iff)
  ultimately show ?thesis by (simp add: verifyLedgerExport_def export_doc_def same_point_def)
qed


section \<open>Resealing\<close>

lemma trim_nonempty: "\<not> is_space c \<Longrightarrow> trim (c # s) \<noteq> []"
  by (simp add: trim_def dropWhile_append)

lemma reseal_input_ok:
  assumes "valid_date now"
  shows "input_ok (reseal_input who (LEDGER_QUARANTINE_PREFIX @ toISOString now) code seq dropped reason)"
proof -
  let ?k = "LEDGER_QUARANTINE_PREFIX @ toISOString now"
  have plain: "list_all plain_text_char ?k" "list_all plain_text_char ''ledger''"
    using iso_plain [of now] by (simp_all add: LEDGER_QUARANTINE_PREFIX_def plain_text_char_def is_space_def code_of_def)
  have len: "length ?k \<le> 128" using iso_length [OF assms] by (simp add: LEDGER_QUARANTINE_PREFIX_def)
  have "scrubString ?k = ?k" "scrubString ''ledger'' = ''ledger''"
    using scrub_plain [OF plain(1)] scrub_plain [OF plain(2)] len by simp_all
  moreover have "trim ?k \<noteq> []"
    by (simp add: LEDGER_QUARANTINE_PREFIX_def trim_nonempty is_space_def code_of_def)
  moreover have "isLabel ''ledger''" by code_simp
  ultimately show ?thesis
    using len by (simp add: input_ok_def input_words_def reseal_input_def isLabel_def allActions_def LEDGER_SYSTEM_ACTIONS_def
        kindOf_def FINANCIAL_ACTIONS_def)
qed

lemma broken_prefix:
  assumes "verifyLedgerChain dp es a None = Broken c s n g"
  shows "n < length es" "sound_from dp a (take n es)" "g = headOf a (take n es)"
proof -
  obtain i where "verify_loop dp a 0 es = Loop_Fail c i n g"
    using assms by (cases "verify_loop dp a 0 es") (auto simp: verifyLedgerChain_def)
  from verify_loop_Fail [THEN iffD1, OF this]
  show "n < length es" "sound_from dp a (take n es)" "g = headOf a (take n es)" by auto
qed

lemma broken_ledger:
  assumes "ledger_verify dp l None = Broken code seq verified good"
  obtains a kept total where "(case ledger_read l of Some (a, es) \<Rightarrow> (a, take verified es, length es) | None \<Rightarrow> (GENESIS, [], 0)) = (a, kept, total)"
    "isCheckpoint a" "sound_from dp a kept" "good = headOf a kept" "kept = take verified (ledger_entries l)"
    "length kept = verified" "lg_chain l \<noteq> None"
proof (cases "ledger_read l")
  case None
  then show ?thesis
    using assms genesis_ok [of dp]
    by (intro that [of GENESIS "[]" 0])
      (auto simp: ledger_verify_def ledger_entries_def point_ok_def ledger_read_def split: option.splits)
next
  case (Some r)
  obtain a es where r: "r = (a, es)" by (cases r)
  have b: "verifyLedgerChain dp es a None = Broken code seq verified good"
    using assms Some r by (simp add: ledger_verify_def)
  have chain: "lg_chain l \<noteq> None" "isCheckpoint a"
    using Some r b by (auto simp: ledger_read_def verifyLedgerChain_def split: option.splits ledger_cell.splits if_splits)
  show ?thesis
    using broken_prefix [OF b] Some r chain by (intro that [of a "take verified es" "length es"]) (simp_all add: ledger_entries_def)
qed


section \<open>Concrete ledgers\<close>

definition funded :: ledger_input where
  "funded = \<lparr>li_kind = ''financial'', li_action = ''faucet.funded'', li_actorId = ''user'',
     li_subject_kind = ''account'', li_subject_id = ''acct:1'', li_outcome = None, li_data = None,
     li_ref = None, li_refDigest = None, li_at = None\<rparr>"

definition w_events :: "ledger_event list" where
  "w_events = [L_Append 9 funded, L_Append 5 funded, L_Append 12 (funded\<lparr>li_at := Some ''x''\<rparr>), L_Prune 1]"

definition w_ledger :: ledger where
  "w_ledger = foldl (ledger_step (\<lambda>_. True)) fresh_ledger w_events"

lemma any_clock: "clock_parses (\<lambda>_. True)"
  by (simp add: clock_parses_def)

lemma short_plain:
  "scrubString ''account'' = ''account''" "scrubString ''acct:1'' = ''acct:1''" "scrubString ''x'' = ''x''"
  by (rule scrub_plain; simp add: plain_text_char_def is_space_def code_of_def)+

lemma short_labels: "isLabel ''account''" "isLabel ''acct:1''"
  by code_simp+

lemma w_allowed: "list_all ledger_allowed w_events"
  by (simp add: w_events_def funded_def valid_date_def short_plain short_labels)

lemma w_ledger_ok: "ledger_ok (\<lambda>_. True) w_ledger"
  unfolding w_ledger_def
  by (rule guarded_system.guarded_run [OF ledger_runs [OF any_clock] fresh_ok w_allowed])


lemma prune_keeps_chain_witness:
  "ledger_head (snd (ledger_prune 1 w_ledger)) = ledger_head w_ledger"
  using prune_keeps_chain [OF w_ledger_ok, of 1] by simp

definition auditor :: audit_actor where
  "auditor = \<lparr>actor_kind = Maintainer, actor_id = Some ''ops''\<rparr>"



section \<open>Entries are objects with distinct keys\<close>

lemma redact_wf: "json_wf v \<Longrightarrow> json_wf (redact_at addr d v)"
proof (induction addr d v rule: redact_at.induct)
  case (8 addr d es)
  then show ?case by (fastforce simp: list_all_iff comp_def case_prod_beta)
qed (auto simp: list_all_iff)

lemma clone_wf: "json_wf v \<Longrightarrow> json_wf (json_clone v)"
proof (induction v rule: json_clone.induct)
  case (2 es)
  then have "distinct (map fst (filter defined es))" by (simp add: distinct_map_filter)
  with 2 show ?case by (fastforce simp: list_all_iff comp_def case_prod_beta)
qed (auto simp: list_all_iff)

lemma context_wf: "distinct (map fst es) \<Longrightarrow> json_wf (JObj (context_loop n es))"
proof -
  have "json_wf v" if "context_leaf v" for v using that by (cases v) (simp_all add: context_leaf_def)
  then show "distinct (map fst es) \<Longrightarrow> ?thesis"
    using context_loop_bounds [of n es] by (fastforce simp: list_all_iff)
qed

lemma build_wf:
  assumes "case li_data input of Some d \<Rightarrow> distinct (map fst d) | None \<Rightarrow> True"
  shows "json_wf (build p input at)"
proof -
  have "json_wf (build_body p input at)"
    using assms context_wf by (simp add: build_body_def opt_str_def auditContext_def Let_def split: option.splits)
  then have wf: "json_wf (json_clone (redact (build_body p input at)))"
    unfolding redact_def by (intro clone_wf redact_wf)
  obtain es where es: "build_body p input at = JObj es" "''hash'' \<notin> set (map fst es)"
    by (simp add: build_body_def)
  obtain fs where fs: "json_clone (redact (JObj es)) = JObj fs" by (simp add: stored_object)
  from stored_keys [OF fs] es(2) have "''hash'' \<notin> set (map fst fs)" by blast
  with wf show ?thesis by (simp add: build_def es(1) fs sealed_def)
qed

text \<open>A chain of one entry, and the same chain checked against its own head.\<close>

definition one_entry :: json where
  "one_entry = build GENESIS funded ''t''"

lemma one_entry_sound: "sound_from (\<lambda>_. True) GENESIS [one_entry]"
proof -
  have "input_ok funded"
    by (simp add: input_ok_def input_words_def funded_def short_plain short_labels allActions_def FINANCIAL_ACTIONS_def kindOf_def)
  moreover have "scrubString ''t'' = ''t''"
    by (rule scrub_plain) (simp_all add: plain_text_char_def is_space_def code_of_def)
  moreover have "hash_pattern (cp_hash GENESIS)" using genesis_ok [of "\<lambda>_. True"] by (simp add: point_ok_def isCheckpoint_def)
  ultimately have "entry_fault (\<lambda>_. True) GENESIS one_entry = None"
    unfolding one_entry_def by (intro build_sound(1)) (simp_all add: earlier_def GENESIS_def)
  then show ?thesis by simp
qed

theorem checkpoint_pins_history_witness:
  "\<exists>h. verifyLedgerChain (\<lambda>_. True) [one_entry] GENESIS (Some h) = Verified 1 GENESIS h \<and>
     map (\<lambda>e. json_norm (entry_body e)) (take 1 [one_entry]) = map (\<lambda>e. json_norm (entry_body e)) [one_entry] \<and>
     cp_hash GENESIS = cp_hash (headOf GENESIS (take 0 [one_entry]))"
proof -
  let ?h = "checkpoint_of one_entry"
  have v: "verifyLedgerChain (\<lambda>_. True) [one_entry] GENESIS None = Verified 1 GENESIS ?h"
    using one_entry_sound by (simp add: verified_iff)
  have "verify_loop (\<lambda>_. True) GENESIS 0 [one_entry] = Loop_End ?h 1"
    using one_entry_sound by (simp add: verify_loop_End del: verify_loop.simps)
  then have c: "verifyLedgerChain (\<lambda>_. True) [one_entry] GENESIS (Some ?h) = Verified 1 GENESIS ?h"
    by (simp add: verifyLedgerChain_def same_point_def)
  have seq: "cp_seq ?h = cp_seq GENESIS + 1" using sound_seq [OF one_entry_sound] by simp
  have wf: "list_all json_wf [one_entry]" by (simp add: one_entry_def build_wf funded_def)
  from checkpoint_pins_history [OF v c _ _ refl wf wf] seq c show ?thesis by auto
qed

section \<open>A label redaction makes too long\<close>

definition bearer_label :: "nat \<Rightarrow> string" where
  "bearer_label n = concat (replicate n ''Bearer a '')"

lemma bearer_label_Suc [simp]: "bearer_label 0 = []" "bearer_label (Suc n) = ''Bearer a '' @ bearer_label n"
  by (simp_all add: bearer_label_def)

lemma bearer_label_length: "length (bearer_label n) = 9 * n"
  by (induction n) simp_all

lemma bearer_replaced:
  "replace_matches bearer_match rep (bearer_label n) = concat (replicate n (rep @ '' ''))"
proof (induction n)
  case (Suc n)
  have "char_of (98 :: nat) = CHR ''b''" by code_simp
  then have "bearer_match (''Bearer a '' @ s) = 8" for s
    by (simp add: bearer_match_def is_space_def is_token_char_def to_lower_def is_upper_def is_lower_def is_digit_def
        code_of_def)
  from this [of "bearer_label n"] have m: "bearer_match (CHR ''B'' # ''earer a '' @ bearer_label n) = 8" by simp
  have "bearer_match (CHR '' '' # bearer_label n) = 0"
    by (simp add: bearer_match_def to_lower_def is_upper_def code_of_def)
  with m Suc show ?case by simp
qed simp

lemma bearer_scrubbed:
  assumes "n \<le> 100"
  shows "scrubString (bearer_label n) = concat (replicate n (redacted @ '' ''))"
proof -
  have "list_all (\<lambda>c. c \<notin> set ''SM'') (bearer_label n)" by (induction n) simp_all
  then have "replace_matches seed_match redacted (bearer_label n) = bearer_label n"
    using seed_skip [of "bearer_label n" redacted "[]"] by simp
  moreover have "\<not> looksLikeSecret (bearer_label n)"
    by (cases n) (simp_all add: looksLikeSecret_def startsWith_def)
  ultimately show ?thesis
    using assms by (simp add: scrubString_def MAX_SCANNABLE_STRING_LENGTH_def bearer_replaced bearer_label_length)
qed

definition bearer_input :: ledger_input where
  "bearer_input = funded\<lparr>li_subject_id := bearer_label 14\<rparr>"

text \<open>
  A label can outgrow its limit when it is redacted: a subject id of 126 characters
  that holds bearer tokens is accepted, stored with 154 characters, and from then on the
  ledger fails verification at that entry and refuses every append.
\<close>

lemma redacted_label_breaks_ledger:
  "\<exists>e l. ledger_append (\<lambda>_. True) fresh_ledger 0 bearer_input = (Ok e, l) \<and>
     ledger_verify (\<lambda>_. True) l None = Broken Malformed_Entry (Some 1) 0 GENESIS \<and>
     (\<forall>now. ledger_append (\<lambda>_. True) l now funded = (Err Ledger_Broken, l))"
proof -
  let ?e = "build GENESIS bearer_input (toISOString 0)"
  have len: "length (bearer_label 14) = 126" by (simp add: bearer_label_length)
  then have "isLabel (bearer_label 14)"
    using trim_nonempty [of "CHR ''B''"] by (simp add: isLabel_def bearer_label_def is_space_def code_of_def numeral_eq_Suc)
  moreover have "isLabel ''user''" by code_simp
  ultimately have valid: "append_valid (\<lambda>_. True) bearer_input" "append_valid (\<lambda>_. True) funded"
    by (simp_all add: append_valid_def bearer_input_def funded_def allActions_def FINANCIAL_ACTIONS_def kindOf_def short_labels)
  have call: "ledger_append (\<lambda>_. True) fresh_ledger 0 bearer_input = (Ok ?e, ledger_write GENESIS [?e] fresh_ledger)"
    using valid(1) by (simp add: ledger_append_def fresh_ledger_def ledger_read_def earlier_def GENESIS_def
        bearer_input_def funded_def Let_def)
  have g: "point_ok (\<lambda>_. True) GENESIS" by (rule genesis_ok)
  have words: "input_words bearer_input"
    by (simp add: input_words_def bearer_input_def funded_def allActions_def FINANCIAL_ACTIONS_def kindOf_def)
  have iso: "scrubString (toISOString 0) = toISOString 0" by (rule scrub_iso) (simp add: valid_date_def)
  have "hash_pattern (cp_hash GENESIS)" using g by (simp add: point_ok_def isCheckpoint_def)
  from build_fields(7) [OF this iso words]
  have "field (field ?e ''subject'') ''id'' = JStr (scrubString (bearer_label 14))"
    by (simp add: field_def bearer_input_def)
  then have "field (field ?e ''subject'') ''id'' = JStr (concat (replicate 14 (redacted @ '' '')))"
    by (simp add: bearer_scrubbed)
  then have bad: "\<not> isEntryShape (\<lambda>_. True) ?e"
    by (simp add: isEntryShape_def str_where_def isLabel_def length_concat sum_list_replicate redacted_def)
  let ?l = "ledger_write GENESIS [?e] fresh_ledger"
  have read: "ledger_read ?l = Some (GENESIS, [?e])"
    using g by (simp add: ledger_read_def ledger_write_def point_ok_def)
  have "ledger_verify (\<lambda>_. True) ?l None = Broken Malformed_Entry (Some 1) 0 GENESIS"
    using bad by (simp add: ledger_verify_def read verifyLedgerChain_def entry_fault_def)
      (simp add: GENESIS_def)
  moreover have "ledger_append (\<lambda>_. True) ?l now funded = (Err Ledger_Broken, ?l)" for now
    using bad valid(2) by (simp add: ledger_append_def read)
  ultimately show ?thesis using call by blast
qed

end
