(* ===== verification/Audit_Anchoring.thy ===== *)
theory Audit_Anchoring
  imports Audit_Trail Ledger_Recovery
begin

text \<open>
  The audit trail and the ledger together: \<open>record\<close> of \<open>core/audit/audit.ts\<close> commits each
  event to the chain, and \<open>verifyAuditTrail\<close> of \<open>core/ledger/ledger.ts\<close> compares the two.
\<close>

section \<open>Stored events\<close>

text \<open>Values that redaction keeps, at the two depths at which an event is redacted.\<close>

definition kept :: "json \<Rightarrow> bool" where
  "kept v = (redact_at False 0 v = v \<and> redact_at False 1 v = v)"

lemma map_fixed: "map f xs = xs \<Longrightarrow> x \<in> set xs \<Longrightarrow> f x = x"
  by (induction xs) auto

lemma redact_clone: "redact_at addr d v = v \<Longrightarrow> redact_at addr d (json_clone v) = json_clone v"
proof (induction addr d v rule: redact_at.induct)
  case (7 addr d xs)
  then have d: "\<not> d \<ge> MAX_REDACT_DEPTH" by auto
  have "redact_at addr (d + 1) x = x" if "x \<in> set xs" for x
    using 7(2) d map_fixed [OF _ that] by simp
  with 7(1) d show ?case by simp
next
  case (8 addr d es)
  then have d: "\<not> d \<ge> MAX_REDACT_DEPTH" by auto
  have "(if isSensitiveKey k then JStr redacted else redact_at addr (d + 1) v) = v" if "(k, v) \<in> set es" for k v
    using 8(2) d map_fixed [OF _ that] by fastforce
  then have "(if isSensitiveKey k then JStr redacted else redact_at addr (d + 1) (json_clone v)) = json_clone v"
    if "(k, v) \<in> set es" for k v
    using 8(1) [OF d] that by (metis json_clone.simps(7))
  then show ?case using d by (auto simp: comp_def split_beta)
qed simp_all

lemma clone_undef [simp]: "json_clone v = JUndef \<longleftrightarrow> v = JUndef"
  by (cases v) simp_all

lemma clone_clone [simp]: "json_clone (json_clone v) = json_clone v"
proof (induction v rule: json_clone.induct)
  case (2 es)
  have "filter defined (map (\<lambda>(k, v). (k, json_clone v)) (filter defined es)) =
      map (\<lambda>(k, v). (k, json_clone v)) (filter defined es)"
    by (auto simp: filter_id_conv defined_def)
  with 2 show ?case by auto
qed auto

lemma clone_field:
  "map_of es k = Some v \<Longrightarrow> v \<noteq> JUndef \<Longrightarrow> field (json_clone (JObj es)) k = json_clone v"
  by (induction es) (auto simp: field_def defined_def split: if_splits)

section \<open>Recorded events\<close>

text \<open>The fields of a stored event, none of which is lost to the copy.\<close>

lemma stored_event_fields:
  fixes eid cid now input
  defines "s \<equiv> json_clone (audit_event eid cid now input)"
  shows "field s ''id'' = JStr eid" "field s ''action'' = JStr (in_action input)"
    "field s ''actorId'' = JStr (actorId_of (in_actor input))"
    "field s ''scope'' \<in> {JStr ''own'', JStr ''maintainer''}"
    "field (field s ''target'') ''kind'' = JStr (in_target_kind input)"
    "field (field s ''target'') ''id'' = JStr (scrubSecrets (in_target_id input))"
    "field s ''outcome'' = JStr (case in_outcome input of Some out \<Rightarrow> outcome_text out | None \<Rightarrow> ''allowed'')"
    "\<exists>a. field s ''at'' = JStr a" "\<exists>c. field s ''correlationId'' = JStr c"
proof -
  obtain es where es: "audit_event eid cid now input = JObj es" by (simp add: audit_event_def)
  then have es_eq: "es = (case audit_event eid cid now input of JObj xs \<Rightarrow> xs)" by simp
  have get: "field s k = json_clone v" if "map_of es k = Some v" "v \<noteq> JUndef" for k v
    using clone_field [OF that] by (simp add: s_def es)
  show "field s ''id'' = JStr eid" using get [of "''id''" "JStr eid"] by (simp add: es_eq audit_event_def)
  show "field s ''action'' = JStr (in_action input)"
    using get [of "''action''" "JStr (in_action input)"] by (simp add: es_eq audit_event_def)
  show "field s ''actorId'' = JStr (actorId_of (in_actor input))"
    using get [of "''actorId''" "JStr (actorId_of (in_actor input))"] by (simp add: es_eq audit_event_def)
  show "field s ''outcome'' = JStr (case in_outcome input of Some out \<Rightarrow> outcome_text out | None \<Rightarrow> ''allowed'')"
    using get [of "''outcome''"] by (simp add: es_eq audit_event_def)
  show "field s ''scope'' \<in> {JStr ''own'', JStr ''maintainer''}"
    using get [of "''scope''"]
    by (simp add: es_eq audit_event_def scope_text_def split: option.split audit_scope.split)
  have "field s ''target'' = JObj [(''kind'', JStr (in_target_kind input)), (''id'', JStr (scrubSecrets (in_target_id input)))]"
    using get [of "''target''"] by (simp add: es_eq audit_event_def defined_def)
  then show "field (field s ''target'') ''kind'' = JStr (in_target_kind input)"
    "field (field s ''target'') ''id'' = JStr (scrubSecrets (in_target_id input))"
    by (simp_all add: field_def)
  show "\<exists>a. field s ''at'' = JStr a" "\<exists>c. field s ''correlationId'' = JStr c"
    using get [of "''at''"] get [of "''correlationId''"] by (simp_all add: es_eq audit_event_def)
qed

lemma stored_is_event: "isAction (in_action input) \<Longrightarrow> isEvent (json_clone (audit_event eid cid now input))"
  using stored_event_fields [of eid cid now input]
  unfolding isEvent_def by (auto simp: str_where_def outcome_text_def split: option.split audit_outcome.split)

lemma recorded_is_event: "isAction (in_action input) \<Longrightarrow> isEvent (audit_event eid cid now input)"
  by (simp add: isEvent_def audit_event_def field_def str_where_def outcome_text_def scope_text_def
      split: option.split audit_outcome.split audit_scope.split)

lemma no_big_context: "context_json c = JUndef \<or> no_big (context_json c)"
  using context_no_big by (simp add: context_json_def auditContext_def Let_def split: option.split)

lemma no_big_event: "no_big (audit_event eid cid now input)"
  using no_big_context [of "in_before input"] no_big_context [of "in_after input"]
  by (auto simp: audit_event_def opt_str_def split: option.split)

lemma digest_pattern: "no_big e \<Longrightarrow> hash_pattern (auditEventDigest e)"
  using no_big_redact [of e False 0]
  by (simp add: auditEventDigest_def redact_def canonicalJson_guarded sha256Hex_pattern del: canonicalize.simps)

lemma kept_entry:
  assumes "kept (JObj es)" "(k, v) \<in> set es" "\<not> isSensitiveKey k"
  shows "redact_at False 1 v = v"
proof -
  have "map (\<lambda>(k, v). (k, if isSensitiveKey k then JStr redacted else redact_at False 1 v)) es = es"
    using assms(1) by (simp add: kept_def MAX_REDACT_DEPTH_def cong: if_cong)
  from map_fixed [OF this assms(2)] assms(3) show ?thesis by simp
qed

lemma kept_event:
  assumes "kept (audit_event eid cid now input)"
  shows "scrubString eid = eid" "scrubString (in_target_kind input) = in_target_kind input"
    "scrubString (scrubSecrets (in_target_id input)) = scrubSecrets (in_target_id input)"
proof -
  have plain: "\<not> isSensitiveKey ''id''" "\<not> isSensitiveKey ''kind''" "\<not> isSensitiveKey ''target''"
    using body_keys_plain by simp_all code_simp
  have "redact_at False 1 (JStr eid) = JStr eid"
    by (rule kept_entry [OF assms [unfolded audit_event_def] _ plain(1)]) simp
  then show "scrubString eid = eid" by simp
  let ?target = "JObj [(''kind'', JStr (in_target_kind input)), (''id'', JStr (scrubSecrets (in_target_id input)))]"
  have "redact_at False 1 ?target = ?target"
    by (rule kept_entry [OF assms [unfolded audit_event_def] _ plain(3)]) simp
  then show "scrubString (in_target_kind input) = in_target_kind input"
    "scrubString (scrubSecrets (in_target_id input)) = scrubSecrets (in_target_id input)"
    by (simp_all add: MAX_REDACT_DEPTH_def plain)
qed

lemma kept_clone: "kept v \<Longrightarrow> kept (json_clone v)"
  by (simp add: kept_def redact_clone)

section \<open>The commitments\<close>

lemma committed_snoc:
  "committed_refs (es @ [e]) m =
     (if json_truthy (field e ''ref'') \<and> json_truthy (field e ''refDigest'')
      then map_set (field e ''ref'') (field e ''refDigest'') (committed_refs es m) else committed_refs es m)"
  by (induction es m rule: committed_refs.induct) simp_all

lemma cross_all_anchored:
  "list_all (\<lambda>e. map_get m (field e ''id'') = Some (JStr (auditEventDigest e))) es \<Longrightarrow>
     cross_loop m es c = c\<lparr>cc_anchored := cc_anchored c + length es\<rparr>"
  by (induction es arbitrary: c) simp_all

lemma cross_tampered:
  "cc_tampered (cross_loop m es c) = cc_tampered c @ map (\<lambda>e. str_of (field e ''id''))
     (filter (\<lambda>e. case map_get m (field e ''id'') of Some d \<Rightarrow> d \<noteq> JStr (auditEventDigest e) | None \<Rightarrow> False) es)"
  by (induction es arbitrary: c) (simp_all add: Let_def split: option.split)

lemma append_build:
  "ledger_append dp l now input = (Ok e, l') \<Longrightarrow> \<exists>p at. e = build p input at"
  by (auto simp: ledger_append_def Let_def split: if_splits option.splits) blast+

text \<open>An audit event is a valid ledger input, and its entry names the event and its digest.\<close>

lemma audit_commit:
  assumes "clock_parses dp" "ledger_ok dp l" "valid_date now" "record_valid input"
    "isLabel (actorId_of (in_actor input))" "isLabel (scrubSecrets (in_target_id input))"
    "kept (audit_event eid cid at input)"
  defines "s \<equiv> json_clone (audit_event eid cid at input)"
  shows "\<exists>e. ledger_entries (snd (ledger_append dp l now (ledgerInputForAudit s))) = ledger_entries l @ [e] \<and>
    ledger_ok dp (snd (ledger_append dp l now (ledgerInputForAudit s))) \<and>
    field e ''ref'' = JStr eid \<and> field e ''refDigest'' = JStr (auditEventDigest s)"
proof -
  let ?in = "ledgerInputForAudit s"
  note f = stored_event_fields [of eid cid at input, folded s_def]
  note k = kept_event [OF assms(7)]
  have digest: "hash_pattern (auditEventDigest s)"
    unfolding s_def by (intro digest_pattern no_big_clone no_big_event)
  have subject: "li_subject_kind ?in = in_target_kind input" "li_subject_id ?in = scrubSecrets (in_target_id input)"
    and ref: "li_ref ?in = Some eid" "li_refDigest ?in = Some (auditEventDigest s)" "li_at ?in = None"
    and act: "li_action ?in = in_action input" "li_kind ?in = ''privileged''" "li_actorId ?in = actorId_of (in_actor input)"
    and out: "li_outcome ?in \<in> {None, Some ''allowed'', Some ''denied''}"
    using f by (auto simp: ledgerInputForAudit_def str_of_def outcome_text_def split: option.split audit_outcome.split)
  have action: "in_action input \<in> set SENSITIVE_ACTIONS" using assms(4) by (simp add: record_valid_def isAction_def)
  moreover have "list_all (\<lambda>a. a \<notin> set FINANCIAL_ACTIONS) SENSITIVE_ACTIONS" by code_simp
  ultimately have "kindOf (in_action input) = ''privileged''" by (auto simp: kindOf_def list_all_iff)
  then have valid: "append_valid dp ?in"
    unfolding append_valid_def act subject ref using action assms(4-6) digest
    by (simp add: allActions_def record_valid_def)
  from append_ok [OF assms(1-3) valid] out obtain e where
    e: "fst (ledger_append dp l now ?in) = Ok e" "ledger_entries (snd (ledger_append dp l now ?in)) = ledger_entries l @ [e]"
      "ledger_ok dp (snd (ledger_append dp l now ?in))"
    unfolding subject ref k using assms(4,6) by (auto simp: record_valid_def)
  from e(1) append_build obtain p a where "e = build p ?in a" by (metis prod.collapse)
  with build_refs [OF ref(1,2) k(1) digest] e show ?thesis by blast
qed

section \<open>Runs of the trail\<close>

text \<open>
  Records whose event redaction leaves alone and whose labels the ledger takes; an event
  that the ledger refuses or that redaction changes a second time is not anchored.
\<close>

definition anchorable :: "(nat \<Rightarrow> string) \<Rightarrow> audit_trail \<Rightarrow> int \<Rightarrow> audit_input \<Rightarrow> bool" where
  "anchorable gen t now input =
     (valid_date now \<and> gen (tr_nextId t) \<noteq> [] \<and> isLabel (actorId_of (in_actor input)) \<and>
      isLabel (scrubSecrets (in_target_id input)) \<and>
      kept (audit_event (gen (tr_nextId t)) (gen (tr_nextId t + 1)) now input))"

definition fresh_trail :: audit_trail where
  "fresh_trail = \<lparr>tr_cell = None, tr_ledger = Some fresh_ledger, tr_nextId = 0\<rparr>"

inductive audit_run :: "(string \<Rightarrow> bool) \<Rightarrow> (nat \<Rightarrow> string) \<Rightarrow> audit_trail \<Rightarrow> bool"
  for dp gen where
  run_fresh: "audit_run dp gen fresh_trail"
| run_record: "audit_run dp gen t \<Longrightarrow> anchorable gen t now input \<Longrightarrow> audit_run dp gen (snd (audit_record dp gen t now input))"
| run_prune: "audit_run dp gen t \<Longrightarrow> audit_run dp gen (snd (audit_prune limit t))"
| run_reset: "audit_run dp gen t \<Longrightarrow> audit_run dp gen (audit_reset t)"

definition committed :: "ledger \<Rightarrow> (json, json) js_map" where
  "committed l = committed_refs (ledger_entries l) []"

definition anchored_event :: "ledger \<Rightarrow> json \<Rightarrow> bool" where
  "anchored_event l e =
     (map_get (committed l) (field e ''id'') = Some (JStr (auditEventDigest e)) \<and> kept e \<and> json_clone e = e)"

definition anchored :: "(string \<Rightarrow> bool) \<Rightarrow> (nat \<Rightarrow> string) \<Rightarrow> audit_trail \<Rightarrow> bool" where
  "anchored dp gen t =
     (case tr_ledger t of
        None \<Rightarrow> False
      | Some l \<Rightarrow>
          ledger_ok dp l \<and> (\<forall>k \<in> set (map_keys (committed l)). \<exists>i < tr_nextId t. k = JStr (gen i)) \<and>
          list_all (anchored_event l) (readAll t))"

lemma get_key: "map_get m k = Some v \<Longrightarrow> k \<in> set (map_keys m)"
  by (auto simp: map_keys_def dest!: map_get_in_set intro: rev_image_eqI)

lemma readAll_write: "readAll (writeAll es t) = filter isEvent (map stored_event es)"
  by (simp add: readAll_def writeAll_def)

lemma write_anchored:
  assumes "list_all (anchored_event l) es" "list_all isEvent es"
  shows "readAll (writeAll es t) = es"
proof -
  have "stored_event e = e" if "e \<in> set es" for e
    using assms(1) that by (auto simp: list_all_iff anchored_event_def kept_def stored_event_def)
  then have "map stored_event es = es" by (simp add: map_idI)
  with assms(2) show ?thesis by (simp add: readAll_write filter_id_conv list_all_iff)
qed

lemma readAll_simps [simp]:
  "readAll (t\<lparr>tr_ledger := x\<rparr>) = readAll t" "readAll (t\<lparr>tr_nextId := n\<rparr>) = readAll t"
  by (simp_all add: readAll_def)

lemma anchored_fresh: "anchored dp gen fresh_trail"
  using fresh_ok
  by (simp add: anchored_def fresh_trail_def committed_def readAll_def fresh_ledger_def ledger_entries_def
      ledger_read_def map_keys_def)

lemma anchored_prune: "anchored dp gen t \<Longrightarrow> anchored dp gen (snd (audit_prune limit t))"
proof -
  assume a: "anchored dp gen t"
  then obtain l where l: "tr_ledger t = Some l" "list_all (anchored_event l) (readAll t)"
    by (auto simp: anchored_def split: option.splits)
  let ?es = "slice_last limit (readAll t)"
  have es: "list_all (anchored_event l) ?es" "list_all isEvent ?es"
    using l(2) set_slice_last [of limit "readAll t"] readAll_events by (auto simp: list_all_iff)
  show ?thesis
    using a es write_anchored [OF es, of t] l(1)
    by (simp add: audit_prune_def Let_def anchored_def) (simp add: writeAll_def)
qed

lemma anchored_reset: "anchored dp gen t \<Longrightarrow> anchored dp gen (audit_reset t)"
  by (simp add: anchored_def audit_reset_def readAll_def split: option.splits)

lemma anchored_record:
  assumes "inj gen" "clock_parses dp" "anchored dp gen t" "anchorable gen t now input"
  shows "anchored dp gen (snd (audit_record dp gen t now input))"
proof (cases "record_valid input")
  case False
  with assms(3) show ?thesis by (simp add: audit_record_def)
next
  case valid: True
  define eid cid event s where defs: "eid = gen (tr_nextId t)" "cid = gen (tr_nextId t + 1)"
    "event = audit_event eid cid now input" "s = json_clone event"
  let ?t = "t\<lparr>tr_nextId := tr_nextId t + 2\<rparr>"
  from assms(3) obtain l where l: "tr_ledger t = Some l" and ok: "ledger_ok dp l"
    and keys: "\<And>k. k \<in> set (map_keys (committed l)) \<Longrightarrow> \<exists>i < tr_nextId t. k = JStr (gen i)"
    and events: "list_all (anchored_event l) (readAll t)"
    by (auto simp: anchored_def split: option.splits)
  from assms(4) have g: "valid_date now" "eid \<noteq> []" "isLabel (actorId_of (in_actor input))"
    "isLabel (scrubSecrets (in_target_id input))" "kept event"
    by (simp_all add: anchorable_def defs)
  define l2 where "l2 = snd (ledger_append dp l now (ledgerInputForAudit s))"
  from audit_commit [OF assms(2) ok g(1) valid g(3,4) g(5) [unfolded defs(3)]] obtain e where
    e: "ledger_entries l2 = ledger_entries l @ [e]" "ledger_ok dp l2" "field e ''ref'' = JStr eid"
      "field e ''refDigest'' = JStr (auditEventDigest s)" unfolding l2_def defs(3,4) by blast
  have "hash_pattern (auditEventDigest s)"
    unfolding defs(3,4) by (intro digest_pattern no_big_clone no_big_event)
  then have "auditEventDigest s \<noteq> []" by (auto simp: hash_pattern_def)
  then have m: "committed l2 = map_set (JStr eid) (JStr (auditEventDigest s)) (committed l)"
    using e g(2) by (simp add: committed_def committed_snoc json_truthy_def)
  have fresh: "JStr eid \<notin> set (map_keys (committed l))"
    using keys assms(1) by (fastforce simp: defs(1) dest: injD)
  have old: "anchored_event l2 x" if "anchored_event l x" for x
  proof -
    have "field x ''id'' \<noteq> JStr eid" using that fresh get_key by (fastforce simp: anchored_event_def)
    then show ?thesis using that by (simp add: anchored_event_def m)
  qed
  have new: "anchored_event l2 s"
    using stored_event_fields(1) [of eid cid now input] kept_clone [OF g(5)] by (simp add: anchored_event_def m defs(3,4))
  have action: "isAction (in_action input)" using valid by (simp add: record_valid_def)
  have redact: "redact event = event" "stored_event event = s" "stored_event s = s"
    using g(5) kept_clone [OF g(5)] by (simp_all add: kept_def redact_def stored_event_def defs(4))
  have all: "list_all (anchored_event l2) (readAll t @ [s])"
    using events old new by (auto simp: list_all_iff)
  have "readAll (writeAll (readAll t @ [event]) ?t) = readAll (writeAll (readAll t @ [s]) ?t)"
    by (simp add: readAll_write redact)
  also have "\<dots> = readAll t @ [s]"
    using stored_is_event [OF action] readAll_events
    by (intro write_anchored [OF all]) (auto simp: list_all_iff defs(3,4))
  finally have read: "readAll (writeAll (readAll t @ [event]) ?t) = readAll t @ [s]" .
  have call: "snd (audit_record dp gen t now input) = (writeAll (readAll t @ [event]) ?t)\<lparr>tr_ledger := Some l2\<rparr>"
    using valid recorded_is_event [OF action, of eid cid now] l
    unfolding audit_record_def Let_def commitToLedger_def defs(1,2,3) [symmetric] l2_def defs(4)
    by (simp add: writeAll_def redact)
  have "\<exists>i < tr_nextId t + 2. k = JStr (gen i)" if "k \<in> set (map_keys (committed l2))" for k
  proof (cases "k = JStr eid")
    case True
    then show ?thesis by (auto simp: defs(1) intro!: exI [of _ "tr_nextId t"])
  next
    case False
    then have "k \<in> set (map_keys (committed l))" using that fresh by (simp add: m map_keys_set)
    with keys show ?thesis by (meson trans_less_add1)
  qed
  moreover have "tr_ledger (snd (audit_record dp gen t now input)) = Some l2"
    "tr_nextId (snd (audit_record dp gen t now input)) = tr_nextId t + 2"
    "readAll (snd (audit_record dp gen t now input)) = readAll t @ [s]"
    unfolding call by (simp, simp add: writeAll_def, simp only: readAll_simps read)
  ultimately show ?thesis using e(2) all unfolding anchored_def by simp
qed

lemma run_anchored:
  assumes "inj gen" "clock_parses dp"
  shows "audit_run dp gen t \<Longrightarrow> anchored dp gen t"
  by (induction rule: audit_run.induct)
    (auto intro: anchored_fresh anchored_prune anchored_reset anchored_record [OF assms])

lemma ledger_no_null: "ledger_ok dp l \<Longrightarrow> JNull \<notin> set (ledger_entries l)"
proof -
  assume "ledger_ok dp l"
  then obtain a es where "ledger_read l = Some (a, es)" "sound_from dp a es"
    by (auto simp: ledger_ok_def split: option.splits)
  moreover have "sound_from dp p es \<Longrightarrow> JNull \<notin> set es" for p es
    by (induction es arbitrary: p) (auto dest: entry_faultD simp: isEntryShape_def field_def)
  ultimately show ?thesis by (simp add: ledger_entries_def)
qed



section \<open>A run\<close>

definition w_gen :: "nat \<Rightarrow> string" where
  "w_gen n = replicate (Suc n) CHR ''e''"

definition w_input :: audit_input where
  "w_input = \<lparr>in_action = ''admin.config_changed'', in_actor = \<lparr>actor_kind = Maintainer, actor_id = Some ''m1''\<rparr>,
     in_scope = None, in_target_kind = ''config'', in_target_id = ''limits'', in_reason = None, in_outcome = None,
     in_before = None, in_after = None, in_at = None, in_correlationId = None, in_errorCode = None\<rparr>"

definition w_trail :: audit_trail where
  "w_trail = snd (audit_record (\<lambda>_. True) w_gen fresh_trail 0 w_input)"

lemma w_gen_inj: "inj w_gen"
  by (rule injI) (metis (no_types) Suc_inject length_replicate w_gen_def)

lemma w_words:
  "list_all (\<lambda>s. scrubString s = s) [''e'', ''ee'', ''admin.config_changed'', ''maintainer'', ''m1'', ''config'', ''limits'',
     ''allowed'', toISOString 0]"
  using scrub_iso [of 0]
  by (simp add: valid_date_def) (intro conjI scrub_plain; simp add: plain_text_char_def is_space_def code_of_def)

lemma w_anchorable: "anchorable w_gen fresh_trail 0 w_input"
proof -
  have "list_all (\<lambda>k. \<not> isSensitiveKey k) [''id'', ''action'', ''actor'', ''kind'', ''actorId'', ''scope'', ''target'',
      ''reason'', ''outcome'', ''before'', ''after'', ''at'', ''correlationId'', ''errorCode'']" by code_simp
  then have keys: "\<not> isSensitiveKey ''id''" "\<not> isSensitiveKey ''action''" "\<not> isSensitiveKey ''actor''"
    "\<not> isSensitiveKey ''kind''" "\<not> isSensitiveKey ''actorId''" "\<not> isSensitiveKey ''scope''" "\<not> isSensitiveKey ''target''"
    "\<not> isSensitiveKey ''reason''" "\<not> isSensitiveKey ''outcome''" "\<not> isSensitiveKey ''before''" "\<not> isSensitiveKey ''after''"
    "\<not> isSensitiveKey ''at''" "\<not> isSensitiveKey ''correlationId''" "\<not> isSensitiveKey ''errorCode''"
    by simp_all
  have "scrubSecrets ''limits'' = ''limits''" "isLabel ''limits''" "isLabel ''m1''" by code_simp+
  with w_words show ?thesis
    by (simp add: anchorable_def w_input_def fresh_trail_def w_gen_def kept_def audit_event_def keys MAX_REDACT_DEPTH_def
        actorId_of_def kind_text_def context_json_def auditContext_def opt_str_def valid_date_def)
qed

lemma w_run: "audit_run (\<lambda>_. True) w_gen w_trail"
  unfolding w_trail_def by (intro run_record run_fresh w_anchorable)


lemma w_read: "readAll w_trail \<noteq> []"
proof -
  let ?event = "audit_event (w_gen 0) (w_gen (Suc 0)) 0 w_input"
  have "kept ?event" using w_anchorable by (simp add: anchorable_def fresh_trail_def)
  then have stored: "stored_event ?event = json_clone ?event" by (simp add: kept_def stored_event_def)
  have valid: "record_valid w_input" unfolding record_valid_def w_input_def by code_simp
  then have action: "isAction (in_action w_input)" by (simp add: record_valid_def)
  have "readAll (commitToLedger dp now e t) = readAll t" for dp now e t
    by (simp add: commitToLedger_def split: option.split)
  then show ?thesis
    using valid recorded_is_event [OF action] stored_is_event [OF action]
    by (simp add: w_trail_def audit_record_def Let_def fresh_trail_def readAll_write stored)
qed


end
