(* ===== verification/Audit_Csv.thy ===== *)
theory Audit_Csv
  imports Audit_Trail
begin

text \<open>
  The CSV export of the audit trail, read back: a reader for comma-separated records with
  quoted fields, as the export's consumers apply it, recovers every column of every event.
\<close>

section \<open>A reader\<close>

fun csv_quoted :: "string \<Rightarrow> string \<times> string" where
  "csv_quoted [] = ([], [])"
| "csv_quoted [c] = (if c = CHR 0x22 then [] else [c], [])"
| "csv_quoted (c # d # r) =
     (if c = CHR 0x22
      then if d = CHR 0x22 then (let (v, s) = csv_quoted r in (c # v, s)) else ([], d # r)
      else (let (v, s) = csv_quoted (d # r) in (c # v, s)))"

definition csv_bare :: "char \<Rightarrow> bool" where
  "csv_bare c = (c \<noteq> CHR '','' \<and> c \<noteq> CHR 0x0A)"

definition csv_field :: "string \<Rightarrow> string \<times> string" where
  "csv_field s =
     (case s of
        c # r \<Rightarrow> if c = CHR 0x22 then csv_quoted r else (takeWhile csv_bare s, dropWhile csv_bare s)
      | [] \<Rightarrow> ([], []))"

lemma csv_quoted_length: "length (snd (csv_quoted s)) \<le> length s"
  by (induction s rule: csv_quoted.induct) (auto simp: split_beta)

lemma csv_field_length: "length (snd (csv_field s)) \<le> length s"
  using csv_quoted_length [of "tl s"] length_dropWhile_le [of csv_bare s]
  by (auto simp: csv_field_def split: list.split)

function csv_records :: "string \<Rightarrow> string list list" where
  "csv_records s =
     (case snd (csv_field s) of
        [] \<Rightarrow> [[fst (csv_field s)]]
      | c # r \<Rightarrow>
          if c = CHR '',''
          then (case csv_records r of
                  row # rows \<Rightarrow> (fst (csv_field s) # row) # rows
                | [] \<Rightarrow> [[fst (csv_field s)]])
          else [fst (csv_field s)] # csv_records r)"
  by pat_completeness auto
termination
proof (relation "measure length")
  fix s c r
  assume "snd (csv_field s) = c # r"
  then have "length r < length s" using csv_field_length [of s] by simp
  then show "(r, s) \<in> measure length" "(r, s) \<in> measure length" by simp_all
qed simp

declare csv_records.simps [simp del]

section \<open>Reading what the export writes\<close>

definition csv_text :: "string option \<Rightarrow> string" where
  "csv_text v = (case v of Some t \<Rightarrow> t | None \<Rightarrow> [])"

definition csv_stop :: "string \<Rightarrow> bool" where
  "csv_stop r = (case r of [] \<Rightarrow> True | c # _ \<Rightarrow> \<not> csv_bare c)"

lemma csv_quoted_doubled:
  "csv_stop r \<Longrightarrow>
     csv_quoted (concat (map (\<lambda>c. if c = CHR 0x22 then [c, c] else [c]) t) @ CHR 0x22 # r) = (t, r)"
proof (induction t)
  case Nil
  then show ?case by (cases r) (auto simp: csv_stop_def csv_bare_def)
next
  case (Cons c t)
  let ?rest = "concat (map (\<lambda>c. if c = CHR 0x22 then [c, c] else [c]) t) @ CHR 0x22 # r"
  obtain d s where "?rest = d # s" by (cases ?rest) auto
  with Cons show ?case by (auto simp: split_beta)
qed

lemma csv_field_escape:
  assumes "csv_stop r"
  shows "csv_field (csv_escape v @ r) = (csv_text v, r)"
proof -
  have stop: "csv_field r = ([], r)"
    using assms by (cases r) (auto simp: csv_field_def csv_stop_def csv_bare_def)
  have bare: "csv_field (t @ r) = (t, r)" if "\<not> list_ex (\<lambda>c. c \<in> {CHR 0x22, CHR '','', CHR 0x0A}) t" for t
  proof (cases t)
    case Nil
    with stop show ?thesis by simp
  next
    case (Cons c s)
    from that have "\<And>x. x \<in> set t \<Longrightarrow> csv_bare x" by (auto simp: list_ex_iff csv_bare_def)
    moreover have "takeWhile csv_bare r = [] \<and> dropWhile csv_bare r = r"
      using assms by (cases r) (simp_all add: csv_stop_def)
    ultimately have "takeWhile csv_bare (t @ r) = t" "dropWhile csv_bare (t @ r) = r"
      by (simp_all add: takeWhile_append2 dropWhile_append2)
    with Cons that show ?thesis by (simp add: csv_field_def)
  qed
  show ?thesis
  proof (cases v)
    case None
    with stop show ?thesis by (simp add: csv_escape_def csv_text_def)
  next
    case (Some t)
    with bare [of t] csv_quoted_doubled [OF assms, of t] show ?thesis
      by (simp add: csv_escape_def csv_text_def csv_field_def)
  qed
qed

lemma csv_records_row:
  "csv_records (csv_row (v # vs)) = [map csv_text (v # vs)] \<and>
   csv_records (csv_row (v # vs) @ CHR 0x0A # r) = map csv_text (v # vs) # csv_records r"
proof (induction vs arbitrary: v)
  case Nil
  have "csv_records (csv_row [v]) = [[csv_text v]]"
    using csv_field_escape [of "[]" v] by (simp add: csv_records.simps csv_row_def csv_stop_def)
  moreover have "csv_records (csv_row [v] @ CHR 0x0A # r) = [csv_text v] # csv_records r"
    using csv_field_escape [of "CHR 0x0A # r" v]
    by (simp add: csv_records.simps [of "csv_escape v @ _"] csv_row_def csv_stop_def csv_bare_def)
  ultimately show ?case by simp
next
  case (Cons w vs)
  have row: "csv_row (v # w # vs) @ s = csv_escape v @ CHR '','' # (csv_row (w # vs) @ s)" for s
    by (simp add: csv_row_def)
  have "csv_records (csv_escape v @ CHR '','' # s) =
      (case csv_records s of row # rows \<Rightarrow> (csv_text v # row) # rows | [] \<Rightarrow> [[csv_text v]])" for s
    using csv_field_escape [of "CHR '','' # s" v]
    by (simp add: csv_records.simps [of "csv_escape v @ _"] csv_stop_def csv_bare_def split: list.split)
  then have "csv_records (csv_row (v # w # vs) @ s) =
      (case csv_records (csv_row (w # vs) @ s) of row # rows \<Rightarrow> (csv_text v # row) # rows | [] \<Rightarrow> [[csv_text v]])" for s
    by (simp add: row)
  from this [of "[]"] this [of "CHR 0x0A # r"] Cons.IH [of w] show ?case by simp
qed

lemma csv_records_rows:
  assumes "list_all (\<lambda>vs. vs \<noteq> []) rows" "rows \<noteq> []"
  shows "csv_records (join [CHR 0x0A] (map csv_row rows)) = map (map csv_text) rows"
  using assms
proof (induction rows)
  case (Cons vs rows)
  then obtain v ws where vs: "vs = v # ws" by (cases vs) auto
  show ?case
  proof (cases rows)
    case Nil
    then show ?thesis using csv_records_row [of v ws] vs by simp
  next
    case (Cons us rest)
    then show ?thesis
      using Cons.IH Cons.prems csv_records_row [of v ws] vs by simp
  qed
qed simp

lemma csv_header: "join '','' csv_columns = csv_row (map Some csv_columns)"
  by (simp add: csv_row_def csv_columns_def csv_escape_def)

text \<open>
  C24. The CSV export is lossless: a reader of comma-separated records recovers from the
  exported text the header and, for every event in order, the thirteen column values,
  whatever quotes, commas or line breaks they hold. The export raises exactly when an
  event has no actor.
\<close>

theorem csv_export_reads_back:
  "case toCsv events of
     Returns text \<Rightarrow> csv_records text = csv_columns # map (\<lambda>e. map csv_text (csv_values e)) events
   | Throws_TypeError \<Rightarrow> list_ex (\<lambda>e. field e ''actor'' \<in> {JUndef, JNull}) events"
proof (cases "list_ex (\<lambda>e. field e ''actor'' \<in> {JUndef, JNull}) events")
  case False
  let ?rows = "map Some csv_columns # map csv_values events"
  have "csv_records (join [CHR 0x0A] (map csv_row ?rows)) = map (map csv_text) ?rows"
    by (rule csv_records_rows) (simp_all add: list_all_iff csv_values_def csv_columns_def)
  moreover have "map csv_text (map Some csv_columns) = csv_columns" by (simp add: csv_text_def csv_columns_def)
  ultimately have "csv_records (join [CHR 0x0A] (map csv_row ?rows)) =
      csv_columns # map (\<lambda>e. map csv_text (csv_values e)) events" by simp
  then show ?thesis using False by (simp add: toCsv_def csv_header comp_def)
qed (simp add: toCsv_def)

end
