(* ===== verification/Dependency_Graph.thy ===== *)
theory Dependency_Graph
  imports Json Auth
begin

text \<open>
  \<open>core/dependencies/graph.ts\<close>: \<open>analyzeImpact\<close>, a breadth-first walk over declared
  dependencies with a report that is redacted for callers without \<open>admin:config\<close>.
\<close>

definition IMPACT_READ_PERMISSION :: string where
  "IMPACT_READ_PERMISSION = ''view:dashboard''"

definition IMPACT_RESTRICTED_PERMISSION :: string where
  "IMPACT_RESTRICTED_PERMISSION = ''admin:config''"

definition REDACTED_KIND :: string where
  "REDACTED_KIND = ''redacted''"

text \<open>An absent \<open>restricted\<close> flag is \<open>False\<close>.\<close>

record dependency_node =
  dn_id :: string
  dn_kind :: string
  dn_dependsOn :: "string list"
  dn_restricted :: bool

datatype impact_direction = Dependents | Dependencies

datatype impact_error = Impact_Denied | Resource_Not_Found

record impact_entry =
  ie_id :: string
  ie_kind :: string
  ie_depth :: nat

record missing_reference =
  mr_from :: string
  mr_missingId :: string

record impact_report =
  ir_rootId :: string
  ir_direction :: impact_direction
  ir_direct :: "impact_entry list"
  ir_indirect :: "impact_entry list"
  ir_cycles :: "string list list"
  ir_missingReferences :: "missing_reference list"
  ir_redactedCount :: nat

type_synonym node_table = "(string, dependency_node) js_map"

section \<open>Lookup and edges\<close>

definition byId :: "dependency_node list \<Rightarrow> node_table" where
  "byId nodes = fold (\<lambda>node. map_set (dn_id node) node) nodes []"

definition has_node :: "node_table \<Rightarrow> string \<Rightarrow> bool" where
  "has_node table i = (map_get table i \<noteq> None)"

definition edge_of :: "impact_direction \<Rightarrow> dependency_node \<Rightarrow> string \<Rightarrow> string \<times> string" where
  "edge_of direction node target =
     (if direction = Dependencies then (dn_id node, target) else (target, dn_id node))"

fun add_edges :: "(string \<times> string) list \<Rightarrow> (string, string list) js_map \<Rightarrow> (string, string list) js_map" where
  "add_edges [] edges = edges"
| "add_edges ((from, to) # es) edges =
     add_edges es (map_set from ((case map_get edges from of Some ts \<Rightarrow> ts | None \<Rightarrow> []) @ [to]) edges)"

definition edge_list :: "impact_direction \<Rightarrow> dependency_node list \<Rightarrow> (string \<times> string) list" where
  "edge_list direction nodes = concat (map (\<lambda>node. map (edge_of direction node) (dn_dependsOn node)) nodes)"

definition next_ids :: "node_table \<Rightarrow> (string, string list) js_map \<Rightarrow> string \<Rightarrow> string list" where
  "next_ids table edges i =
     sort (filter (has_node table) (case map_get edges i of Some ts \<Rightarrow> ts | None \<Rightarrow> []))"

section \<open>The walk\<close>

record walk =
  wk_depths :: "(string, nat) js_map"
  wk_parents :: "(string, string) js_map"
  wk_queue :: "string list"
  wk_cycles :: "string list list"

text \<open>
  The inner loop that follows parents to the root; \<open>None\<close> is a loop that does not end,
  which is what an id without a parent would make of it.
\<close>

partial_function (option) parent_chain ::
  "(string, string) js_map \<Rightarrow> string \<Rightarrow> string \<Rightarrow> string list option" where
  "parent_chain parents rootId step =
     (if step = rootId then Some []
      else case map_get parents step of
        None \<Rightarrow> None
      | Some p \<Rightarrow> Option.bind (parent_chain parents rootId p) (\<lambda>chain. Some (step # chain)))"

declare parent_chain.simps [code]

fun visit :: "string \<Rightarrow> string \<Rightarrow> string list \<Rightarrow> walk \<Rightarrow> walk option" where
  "visit rootId current [] w = Some w"
| "visit rootId current (to # ts) w =
     (if to = rootId then
        (case parent_chain (wk_parents w) rootId current of
           None \<Rightarrow> None
         | Some chain \<Rightarrow>
             visit rootId current ts (w\<lparr>wk_cycles := wk_cycles w @ [rootId # rev chain @ [rootId]]\<rparr>))
      else if map_get (wk_depths w) to = None then
        visit rootId current ts
          (w\<lparr>wk_depths := map_set to ((case map_get (wk_depths w) current of Some d \<Rightarrow> d | None \<Rightarrow> 0) + 1) (wk_depths w),
             wk_parents := map_set to current (wk_parents w), wk_queue := wk_queue w @ [to]\<rparr>)
      else visit rootId current ts w)"

definition undiscovered :: "node_table \<Rightarrow> walk \<Rightarrow> string set" where
  "undiscovered table w = {i. has_node table i \<and> map_get (wk_depths w) i = None}"

lemma undiscovered_finite [simp]: "finite (undiscovered table w)"
proof (rule finite_subset)
  show "undiscovered table w \<subseteq> set (map fst table)"
    by (auto simp: undiscovered_def has_node_def map_get_def dest: map_of_SomeD intro: rev_image_eqI)
qed simp

text \<open>Every id pushed on the queue leaves the set of undiscovered nodes.\<close>

lemma visit_measure:
  "visit rootId current ts w = Some w' \<Longrightarrow> list_all (has_node table) ts \<Longrightarrow>
     card (undiscovered table w') + length (wk_queue w') = card (undiscovered table w) + length (wk_queue w)"
proof (induction rootId current ts w rule: visit.induct)
  case (2 rootId current to ts w)
  let ?d = "(case map_get (wk_depths w) current of Some d \<Rightarrow> d | None \<Rightarrow> 0) + 1"
  let ?w = "w\<lparr>wk_depths := map_set to ?d (wk_depths w), wk_parents := map_set to current (wk_parents w),
     wk_queue := wk_queue w @ [to]\<rparr>"
  have "card (undiscovered table ?w) + length (wk_queue ?w) = card (undiscovered table w) + length (wk_queue w)"
    if "map_get (wk_depths w) to = None"
  proof -
    have "undiscovered table ?w = undiscovered table w - {to}" "to \<in> undiscovered table w"
      using that 2(5) by (auto simp: undiscovered_def map_get_set)
    then show ?thesis using card_Suc_Diff1 [of "undiscovered table w" to] by simp
  qed
  moreover have "undiscovered table (w\<lparr>wk_cycles := c\<rparr>) = undiscovered table w" for c
    by (simp add: undiscovered_def)
  ultimately show ?case
    using 2 by (auto split: if_splits option.splits)
qed simp

lemma visit_queue: "visit rootId current ts w = Some w' \<Longrightarrow> \<exists>ys. wk_queue w' = wk_queue w @ ys"
  by (induction rootId current ts w rule: visit.induct) (auto split: if_splits option.splits)

lemma next_ids_known: "list_all (has_node table) (next_ids table edges i)"
  by (simp add: next_ids_def list_all_iff)

function bfs ::
  "node_table \<Rightarrow> (string, string list) js_map \<Rightarrow> string \<Rightarrow> nat \<Rightarrow> walk \<Rightarrow> walk option" where
  "bfs table edges rootId index w =
     (if index < length (wk_queue w) then
        (case visit rootId (wk_queue w ! index) (next_ids table edges (wk_queue w ! index)) w of
           None \<Rightarrow> None
         | Some w' \<Rightarrow> bfs table edges rootId (index + 1) w')
      else Some w)"
  by pat_completeness auto
termination
proof (relation "measure (\<lambda>(table, edges, rootId, index, w). card (undiscovered table w) + (length (wk_queue w) - index))")
  fix table :: node_table and edges rootId index w w'
  assume i: "index < length (wk_queue w)"
    and v: "visit rootId (wk_queue w ! index) (next_ids table edges (wk_queue w ! index)) w = Some w'"
  from visit_measure [OF v next_ids_known] have
    "card (undiscovered table w') + length (wk_queue w') = card (undiscovered table w) + length (wk_queue w)" .
  moreover from visit_queue [OF v] have "length (wk_queue w) \<le> length (wk_queue w')" by auto
  ultimately show "((table, edges, rootId, index + 1, w'), (table, edges, rootId, index, w)) \<in>
      measure (\<lambda>(table, edges, rootId, index, w). card (undiscovered table w) + (length (wk_queue w) - index))"
    using i by simp
qed simp

declare bfs.simps [simp del]

definition start_walk :: "string \<Rightarrow> walk" where
  "start_walk rootId = \<lparr>wk_depths = [(rootId, 0)], wk_parents = [], wk_queue = [rootId], wk_cycles = []\<rparr>"

section \<open>The report\<close>

record reveal_state =
  rs_aliases :: "(string, string) js_map"
  rs_redactedCount :: nat

definition hidden :: "node_table \<Rightarrow> bool \<Rightarrow> string \<Rightarrow> bool" where
  "hidden table canSeeRestricted i =
     (case map_get table i of Some node \<Rightarrow> dn_restricted node \<and> \<not> canSeeRestricted | None \<Rightarrow> False)"

definition reveal ::
  "node_table \<Rightarrow> bool \<Rightarrow> string \<Rightarrow> reveal_state \<Rightarrow> (string \<times> string) \<times> reveal_state" where
  "reveal table canSeeRestricted i st =
     (if hidden table canSeeRestricted i then
        let st' = (if map_get (rs_aliases st) i = None
          then st\<lparr>rs_aliases := map_set i (REDACTED_KIND @ '':'' @ nat_text (length (rs_aliases st) + 1)) (rs_aliases st),
                 rs_redactedCount := rs_redactedCount st + 1\<rparr>
          else st)
        in ((case map_get (rs_aliases st') i of Some a \<Rightarrow> a | None \<Rightarrow> [], REDACTED_KIND), st')
      else ((i, case map_get table i of Some node \<Rightarrow> dn_kind node | None \<Rightarrow> ''unknown''), st))"

fun reveal_entries ::
  "node_table \<Rightarrow> bool \<Rightarrow> (string \<times> nat) list \<Rightarrow> reveal_state \<Rightarrow> impact_entry list \<times> reveal_state" where
  "reveal_entries table see [] st = ([], st)"
| "reveal_entries table see ((i, depth) # xs) st =
     (let ((shown, kind), st1) = reveal table see i st;
          (rest, st2) = reveal_entries table see xs st1
      in (\<lparr>ie_id = shown, ie_kind = kind, ie_depth = depth\<rparr> # rest, st2))"

fun reveal_missing ::
  "node_table \<Rightarrow> bool \<Rightarrow> (string \<times> string) list \<Rightarrow> reveal_state \<Rightarrow> missing_reference list \<times> reveal_state" where
  "reveal_missing table see [] st = ([], st)"
| "reveal_missing table see ((i, missingId) # xs) st =
     (let ((shown, _), st1) = reveal table see i st;
          (rest, st2) = reveal_missing table see xs st1
      in (\<lparr>mr_from = shown, mr_missingId = missingId\<rparr> # rest, st2))"

fun reveal_path :: "node_table \<Rightarrow> bool \<Rightarrow> string list \<Rightarrow> reveal_state \<Rightarrow> string list \<times> reveal_state" where
  "reveal_path table see [] st = ([], st)"
| "reveal_path table see (i # xs) st =
     (let ((shown, _), st1) = reveal table see i st;
          (rest, st2) = reveal_path table see xs st1
      in (shown # rest, st2))"

fun reveal_cycles ::
  "node_table \<Rightarrow> bool \<Rightarrow> string list list \<Rightarrow> reveal_state \<Rightarrow> string list list \<times> reveal_state" where
  "reveal_cycles table see [] st = ([], st)"
| "reveal_cycles table see (p # ps) st =
     (let (shown, st1) = reveal_path table see p st;
          (rest, st2) = reveal_cycles table see ps st1
      in (shown # rest, st2))"

text \<open>Depth first, then id; the ids are distinct, so the order is total.\<close>

definition sorted_depths :: "string \<Rightarrow> walk \<Rightarrow> (string \<times> nat) list" where
  "sorted_depths rootId w = sort_key snd (sort_key fst (filter (\<lambda>(i, _). i \<noteq> rootId) (wk_depths w)))"

definition dangling :: "node_table \<Rightarrow> walk \<Rightarrow> (string \<times> string) list" where
  "dangling table w =
     concat (map (\<lambda>i. map (Pair i) (filter (\<lambda>t. \<not> has_node table t)
       (case map_get table i of Some node \<Rightarrow> dn_dependsOn node | None \<Rightarrow> []))) (map_keys (wk_depths w)))"

definition impact_of ::
  "node_table \<Rightarrow> bool \<Rightarrow> string \<Rightarrow> impact_direction \<Rightarrow> walk \<Rightarrow> impact_report" where
  "impact_of table see rootId direction w =
     (let (entries, st1) = reveal_entries table see (sorted_depths rootId w) \<lparr>rs_aliases = [], rs_redactedCount = 0\<rparr>;
          (missing, st2) = reveal_missing table see (dangling table w) st1;
          (cycles, st3) = reveal_cycles table see (wk_cycles w) st2
      in \<lparr>ir_rootId = rootId, ir_direction = direction,
          ir_direct = filter (\<lambda>e. ie_depth e = 1) entries,
          ir_indirect = filter (\<lambda>e. ie_depth e > 1) entries,
          ir_cycles = cycles, ir_missingReferences = missing, ir_redactedCount = rs_redactedCount st3\<rparr>)"

text \<open>\<open>None\<close> is a call that does not return.\<close>

definition analyzeImpact ::
  "dependency_node list \<Rightarrow> string \<Rightarrow> auth_context \<Rightarrow> impact_direction \<Rightarrow> (impact_report, impact_error) result option" where
  "analyzeImpact nodes rootId auth direction =
     (if \<not> hasPermission (auth_role auth) IMPACT_READ_PERMISSION then Some (Err Impact_Denied)
      else let table = byId nodes in
        case map_get table rootId of
          None \<Rightarrow> Some (Err Resource_Not_Found)
        | Some root \<Rightarrow>
            let see = hasPermission (auth_role auth) IMPACT_RESTRICTED_PERMISSION in
            if dn_restricted root \<and> \<not> see then Some (Err Impact_Denied)
            else
              map_option (\<lambda>w. Ok (impact_of table see rootId direction w))
                (bfs table (add_edges (edge_list direction nodes) []) rootId 0 (start_walk rootId)))"

end
