(* ===== verification/Graph_Walk.thy ===== *)
theory Graph_Walk
  imports Dependency_Graph
begin

text \<open>
  The walk of \<open>analyzeImpact\<close> against its specification: it ends on every graph, cycles
  and self-loops included, finds exactly the reachable resources at their distance from
  the root, reports closed walks as cycles, and hides restricted resources.
\<close>

section \<open>Specification\<close>

text \<open>The edges the caller declared, between known resources.\<close>

definition linked :: "dependency_node list \<Rightarrow> impact_direction \<Rightarrow> string \<Rightarrow> string \<Rightarrow> bool" where
  "linked nodes direction u v =
     (v \<in> dn_id ` set nodes \<and>
      (\<exists>node \<in> set nodes. \<exists>target \<in> set (dn_dependsOn node). edge_of direction node target = (u, v)))"

inductive reaches :: "('a \<Rightarrow> 'a \<Rightarrow> bool) \<Rightarrow> 'a \<Rightarrow> nat \<Rightarrow> 'a \<Rightarrow> bool" for R r where
  reaches_root: "reaches R r 0 r"
| reaches_edge: "reaches R r n u \<Longrightarrow> R u v \<Longrightarrow> reaches R r (Suc n) v"

definition is_distance :: "('a \<Rightarrow> 'a \<Rightarrow> bool) \<Rightarrow> 'a \<Rightarrow> 'a \<Rightarrow> nat \<Rightarrow> bool" where
  "is_distance R r v d = (reaches R r d v \<and> (\<forall>m < d. \<not> reaches R r m v))"

fun path_in :: "('a \<Rightarrow> 'a \<Rightarrow> bool) \<Rightarrow> 'a list \<Rightarrow> bool" where
  "path_in R (x # y # zs) = (R x y \<and> path_in R (y # zs))"
| "path_in R _ = True"

definition cycle_at :: "('a \<Rightarrow> 'a \<Rightarrow> bool) \<Rightarrow> 'a \<Rightarrow> 'a list \<Rightarrow> bool" where
  "cycle_at R r c = (length c > 1 \<and> hd c = r \<and> last c = r \<and> path_in R c)"

lemma path_in_snoc: "xs \<noteq> [] \<Longrightarrow> path_in R (xs @ [y]) \<longleftrightarrow> path_in R xs \<and> R (last xs) y"
  by (induction xs rule: path_in.induct [of _ R]) auto

section \<open>Tables\<close>

lemma map_of_fold_set:
  "map_get (fold (\<lambda>x. map_set (f x) x) xs m) k \<noteq> None \<longleftrightarrow> k \<in> f ` set xs \<or> map_get m k \<noteq> None"
  by (induction xs arbitrary: m) (auto simp: map_get_set)

lemma has_node_iff: "has_node (byId nodes) i \<longleftrightarrow> i \<in> dn_id ` set nodes"
  using map_of_fold_set [of dn_id nodes "[]" i] by (simp add: has_node_def byId_def)

definition targets :: "(string, string list) js_map \<Rightarrow> string \<Rightarrow> string list" where
  "targets edges u = (case map_get edges u of Some ts \<Rightarrow> ts | None \<Rightarrow> [])"

lemma add_edges_targets: "set (targets (add_edges es m) u) = {v. (u, v) \<in> set es} \<union> set (targets m u)"
  by (induction es m rule: add_edges.induct) (auto simp: targets_def map_get_set split: if_splits option.splits)

lemma next_linked:
  "v \<in> set (next_ids (byId nodes) (add_edges (edge_list direction nodes) []) u) \<longleftrightarrow> linked nodes direction u v"
  using add_edges_targets [of "edge_list direction nodes" "[]" u]
  by (auto simp: next_ids_def targets_def [symmetric] has_node_iff linked_def edge_list_def image_iff)
    (auto simp: targets_def intro!: bexI)

section \<open>The invariant of the walk\<close>

definition depth_in :: "walk \<Rightarrow> string \<Rightarrow> nat" where
  "depth_in w v = (case map_get (wk_depths w) v of Some d \<Rightarrow> d | None \<Rightarrow> 0)"

definition walk_ok :: "(string \<Rightarrow> string \<Rightarrow> bool) \<Rightarrow> string \<Rightarrow> walk \<Rightarrow> bool" where
  "walk_ok R r w =
     (distinct (wk_queue w) \<and> r \<in> set (wk_queue w) \<and> map_keys (wk_depths w) = wk_queue w \<and> depth_in w r = 0 \<and>
      sorted (map (depth_in w) (wk_queue w)) \<and>
      (\<forall>v \<in> set (wk_queue w). v \<noteq> r \<longrightarrow>
         (\<exists>p \<in> set (wk_queue w). map_get (wk_parents w) v = Some p \<and> R p v \<and> depth_in w v = depth_in w p + 1)) \<and>
      list_all (cycle_at R r) (wk_cycles w))"

lemma parent_chain_ok:
  "walk_ok R r w \<Longrightarrow> u \<in> set (wk_queue w) \<Longrightarrow>
     \<exists>chain. parent_chain (wk_parents w) r u = Some chain \<and> path_in R (r # rev chain) \<and> last (r # rev chain) = u"
proof (induction "depth_in w u" arbitrary: u rule: less_induct)
  case less
  show ?case
  proof (cases "u = r")
    case True
    then show ?thesis by (simp add: parent_chain.simps)
  next
    case False
    with less.prems obtain p where p: "p \<in> set (wk_queue w)" "map_get (wk_parents w) u = Some p" "R p u"
      "depth_in w u = depth_in w p + 1" by (auto simp: walk_ok_def)
    with less obtain chain where c: "parent_chain (wk_parents w) r p = Some chain" "path_in R (r # rev chain)"
      "last (r # rev chain) = p" by (metis less_add_one)
    have "parent_chain (wk_parents w) r u = Some (u # chain)"
      using False p(2) c(1) by (subst parent_chain.simps) simp
    moreover have "path_in R (r # rev (u # chain))"
      using c p(3) path_in_snoc [of "r # rev chain" R u] by simp
    ultimately show ?thesis by simp
  qed
qed

text \<open>A node that was not known, met from \<open>current\<close>.\<close>

definition discover :: "string \<Rightarrow> string \<Rightarrow> walk \<Rightarrow> walk" where
  "discover current to w =
     w\<lparr>wk_depths := map_set to (depth_in w current + 1) (wk_depths w),
       wk_parents := map_set to current (wk_parents w), wk_queue := wk_queue w @ [to]\<rparr>"

lemma depths_queue: "walk_ok R r w \<Longrightarrow> map_get (wk_depths w) v \<noteq> None \<longleftrightarrow> v \<in> set (wk_queue w)"
  by (metis map_get_def map_keys_def map_of_eq_None_iff set_map walk_ok_def)

lemma depth_discover [simp]:
  "depth_in (discover current to w) v = (if v = to then depth_in w current + 1 else depth_in w v)"
  by (simp add: depth_in_def discover_def)

lemma discover_sel [simp]:
  "wk_queue (discover current to w) = wk_queue w @ [to]" "wk_cycles (discover current to w) = wk_cycles w"
  "wk_parents (discover current to w) = map_set to current (wk_parents w)"
  by (simp_all add: discover_def)

lemma depth_cycles [simp]: "depth_in (w\<lparr>wk_cycles := c\<rparr>) = depth_in w"
  by (rule ext) (simp add: depth_in_def)

lemma discover_ok:
  assumes "walk_ok R r w" "current \<in> set (wk_queue w)" "R current to" "to \<noteq> r" "map_get (wk_depths w) to = None"
    "\<forall>v \<in> set (wk_queue w). depth_in w v \<le> depth_in w current + 1"
  shows "walk_ok R r (discover current to w)"
proof -
  have new: "to \<notin> set (wk_queue w)" using assms(1,5) depths_queue by blast
  have keys: "map_keys (wk_depths (discover current to w)) = wk_queue w @ [to]"
    using assms(1) new by (simp add: discover_def map_keys_set walk_ok_def)
  have depths: "map (depth_in (discover current to w)) (wk_queue w) = map (depth_in w) (wk_queue w)"
    using new by (auto intro!: map_cong)
  have sorted: "sorted (map (depth_in (discover current to w)) (wk_queue w @ [to]))"
    unfolding map_append depths using assms(1,6) new by (auto simp: walk_ok_def sorted_append)
  have "\<exists>p \<in> set (wk_queue w @ [to]). map_get (wk_parents (discover current to w)) v = Some p \<and> R p v \<and>
      depth_in (discover current to w) v = depth_in (discover current to w) p + 1"
    if v: "v \<in> set (wk_queue w @ [to])" "v \<noteq> r" for v
  proof (cases "v = to")
    case True
    have "current \<noteq> to" using assms(2) new by auto
    with True assms(2,3) show ?thesis by (intro bexI [of _ current]) simp_all
  next
    case False
    with v assms(1) obtain p where p: "p \<in> set (wk_queue w)" "map_get (wk_parents w) v = Some p" "R p v"
      "depth_in w v = depth_in w p + 1" by (auto simp: walk_ok_def)
    moreover have "p \<noteq> to" using p(1) new by auto
    ultimately show ?thesis using False by (intro bexI [of _ p]) simp_all
  qed
  then show ?thesis
    using assms(1,4) new keys sorted unfolding walk_ok_def by simp
qed

definition extends :: "walk \<Rightarrow> walk \<Rightarrow> bool" where
  "extends w w' =
     ((\<exists>ys. wk_queue w' = wk_queue w @ ys) \<and> (\<forall>v \<in> set (wk_queue w). depth_in w' v = depth_in w v))"

lemma extends_trans: "extends w w1 \<Longrightarrow> extends w1 w2 \<Longrightarrow> extends w w2"
  by (auto simp: extends_def)

lemma extends_discover: "map_get (wk_depths w) to = None \<Longrightarrow> walk_ok R r w \<Longrightarrow> extends w (discover current to w)"
  using depths_queue [of R r w to] by (auto simp: extends_def)

lemma extends_cycles: "extends w (w\<lparr>wk_cycles := c\<rparr>)"
  by (simp add: extends_def)

lemma visit_ok:
  "walk_ok R r w \<Longrightarrow> current \<in> set (wk_queue w) \<Longrightarrow> list_all (R current) ts \<Longrightarrow>
     \<forall>v \<in> set (wk_queue w). depth_in w v \<le> depth_in w current + 1 \<Longrightarrow>
     \<exists>w'. visit r current ts w = Some w' \<and> walk_ok R r w' \<and> extends w w' \<and>
       (\<forall>v \<in> set (wk_queue w'). depth_in w' v \<le> depth_in w' current + 1) \<and> set ts \<subseteq> set (wk_queue w')"
proof (induction ts arbitrary: w)
  case Nil
  then show ?case by (simp add: extends_def)
next
  case (Cons to ts)
  have step: ?case if w1: "walk_ok R r w1" "extends w w1" "to \<in> set (wk_queue w1)"
    "\<forall>v \<in> set (wk_queue w1). depth_in w1 v \<le> depth_in w1 current + 1"
    and eq: "visit r current (to # ts) w = visit r current ts w1" for w1
  proof -
    have "current \<in> set (wk_queue w1)" using Cons.prems(2) w1(2) by (auto simp: extends_def)
    from Cons.IH [OF w1(1) this _ w1(4)] Cons.prems(3) obtain w' where w': "visit r current ts w1 = Some w'"
      "walk_ok R r w'" "extends w1 w'" "\<forall>v \<in> set (wk_queue w'). depth_in w' v \<le> depth_in w' current + 1"
      "set ts \<subseteq> set (wk_queue w')" by auto
    moreover have "to \<in> set (wk_queue w')" using w1(3) w'(3) by (auto simp: extends_def)
    ultimately show ?thesis using eq extends_trans [OF w1(2)] by auto
  qed
  consider "to = r" | "to \<noteq> r" "map_get (wk_depths w) to = None" | "to \<noteq> r" "map_get (wk_depths w) to \<noteq> None" by blast
  then show ?case
  proof cases
    case 1
    from parent_chain_ok [OF Cons.prems(1,2)] obtain chain where c: "parent_chain (wk_parents w) r current = Some chain"
      "path_in R (r # rev chain)" "last (r # rev chain) = current" by blast
    have "cycle_at R r (r # rev chain @ [r])"
      using c path_in_snoc [of "r # rev chain" R r] Cons.prems(3) 1 by (simp add: cycle_at_def)
    then have "walk_ok R r (w\<lparr>wk_cycles := wk_cycles w @ [r # rev chain @ [r]]\<rparr>)"
      using Cons.prems(1) by (simp add: walk_ok_def)
    then show ?thesis
      using 1 c(1) Cons.prems by (intro step [OF _ extends_cycles]) (auto simp: walk_ok_def)
  next
    case 2
    have new: "to \<notin> set (wk_queue w)" using 2 Cons.prems(1) depths_queue by blast
    have "visit r current (to # ts) w = visit r current ts (discover current to w)"
      using 2 by (simp add: discover_def depth_in_def)
    moreover have "walk_ok R r (discover current to w)"
      using discover_ok [OF Cons.prems(1,2)] 2 Cons.prems(3,4) by simp
    moreover have "current \<noteq> to" using new Cons.prems(2) by auto
    ultimately show ?thesis
      using extends_discover [OF 2(2) Cons.prems(1)] Cons.prems(4) by (intro step) auto
  next
    case 3
    have "to \<in> set (wk_queue w)" using 3 Cons.prems(1) depths_queue by blast
    then show ?thesis using 3 Cons.prems by (intro step [of w]) (auto simp: extends_def)
  qed
qed

lemma visit_cycles:
  "visit r current ts w = Some w' \<Longrightarrow> r \<in> set ts \<or> wk_cycles w \<noteq> [] \<Longrightarrow> wk_cycles w' \<noteq> []"
  by (induction r current ts w rule: visit.induct) (auto split: if_splits option.splits)

section \<open>The whole walk\<close>

definition bfs_ok :: "(string \<Rightarrow> string \<Rightarrow> bool) \<Rightarrow> string \<Rightarrow> nat \<Rightarrow> walk \<Rightarrow> bool" where
  "bfs_ok R r i w =
     (walk_ok R r w \<and> i \<le> length (wk_queue w) \<and> (\<forall>j < i. R (wk_queue w ! j) r \<longrightarrow> wk_cycles w \<noteq> []) \<and>
      (\<forall>j < i. \<forall>v. R (wk_queue w ! j) v \<longrightarrow> v \<in> set (wk_queue w) \<and> depth_in w v \<le> depth_in w (wk_queue w ! j) + 1) \<and>
      (i < length (wk_queue w) \<longrightarrow> (\<forall>v \<in> set (wk_queue w). depth_in w v \<le> depth_in w (wk_queue w ! i) + 1)))"

lemma bfs_step:
  assumes "bfs_ok R r i w" "i < length (wk_queue w)" "\<And>v. v \<in> set ts \<longleftrightarrow> R (wk_queue w ! i) v"
  shows "\<exists>w'. visit r (wk_queue w ! i) ts w = Some w' \<and> bfs_ok R r (i + 1) w'"
proof -
  let ?cur = "wk_queue w ! i"
  from assms have "walk_ok R r w" "list_all (R ?cur) ts" "\<forall>v \<in> set (wk_queue w). depth_in w v \<le> depth_in w ?cur + 1"
    by (auto simp: bfs_ok_def list_all_iff)
  from visit_ok [OF this(1) _ this(2,3)] assms(2) obtain w' where w': "visit r ?cur ts w = Some w'" "walk_ok R r w'"
    "extends w w'" "\<forall>v \<in> set (wk_queue w'). depth_in w' v \<le> depth_in w' ?cur + 1" "set ts \<subseteq> set (wk_queue w')" by auto
  from w'(3) obtain ys where ys: "wk_queue w' = wk_queue w @ ys" by (auto simp: extends_def)
  have same: "depth_in w' v = depth_in w v" if "v \<in> set (wk_queue w)" for v
    using w'(3) that by (auto simp: extends_def)
  have nth: "wk_queue w' ! j = wk_queue w ! j" if "j < length (wk_queue w)" for j
    using that by (simp add: ys nth_append)
  have upto: "v \<in> set (wk_queue w') \<and> depth_in w' v \<le> depth_in w' (wk_queue w' ! j) + 1"
    if "j < i + 1" "R (wk_queue w' ! j) v" for j v
  proof (cases "j = i")
    case True
    then have "v \<in> set ts" using that(2) nth [OF assms(2)] assms(3) by simp
    with w'(4,5) nth [OF assms(2)] True show ?thesis by auto
  next
    case False
    with that assms(2) have j: "j < i" "wk_queue w' ! j = wk_queue w ! j" by (auto simp: nth)
    with assms(1) that(2) have "v \<in> set (wk_queue w) \<and> depth_in w v \<le> depth_in w (wk_queue w ! j) + 1"
      by (simp add: bfs_ok_def)
    with j same [of v] same [of "wk_queue w ! j"] assms(2) show ?thesis by (simp add: ys)
  qed
  have cyc: "wk_cycles w' \<noteq> []" if "j < i + 1" "R (wk_queue w' ! j) r" for j
  proof (cases "j = i")
    case True
    with that nth [OF assms(2)] assms(3) visit_cycles [OF w'(1)] show ?thesis by simp
  next
    case False
    with that(1) assms(2) have j: "j < i" "wk_queue w' ! j = wk_queue w ! j" by (auto simp: nth)
    with assms(1) that(2) have "wk_cycles w \<noteq> []" by (simp add: bfs_ok_def)
    with visit_cycles [OF w'(1)] show ?thesis by simp
  qed
  have "depth_in w' ?cur \<le> depth_in w' (wk_queue w' ! (i + 1))" if "i + 1 < length (wk_queue w')"
    using w'(2) that sorted_nth_mono [of "map (depth_in w') (wk_queue w')" i "i + 1"] nth [OF assms(2)]
    by (simp add: walk_ok_def)
  then have "bfs_ok R r (i + 1) w'"
    using w'(2,4) assms(2) upto cyc unfolding bfs_ok_def by (fastforce simp: ys)
  with w'(1) show ?thesis by blast
qed

lemma bfs_returns:
  assumes "\<And>u v. v \<in> set (next_ids table edges u) \<longleftrightarrow> R u v"
  shows "bfs_ok R r i w \<Longrightarrow> \<exists>w'. bfs table edges r i w = Some w' \<and> bfs_ok R r (length (wk_queue w')) w'"
proof (induction "card (undiscovered table w) + (length (wk_queue w) - i)" arbitrary: i w rule: less_induct)
  case less
  show ?case
  proof (cases "i < length (wk_queue w)")
    case True
    from bfs_step [OF less.prems True assms] obtain w' where
      w': "visit r (wk_queue w ! i) (next_ids table edges (wk_queue w ! i)) w = Some w'" "bfs_ok R r (i + 1) w'" by blast
    from visit_measure [OF w'(1) next_ids_known] visit_queue [OF w'(1)] True
    have "card (undiscovered table w') + (length (wk_queue w') - (i + 1)) < card (undiscovered table w) + (length (wk_queue w) - i)"
      by auto
    from less.hyps [OF this w'(2)] w'(1) True show ?thesis by (subst bfs.simps) simp
  next
    case False
    then have "length (wk_queue w) = i" using less.prems by (simp add: bfs_ok_def)
    with less.prems False show ?thesis by (subst bfs.simps) simp
  qed
qed

lemma start_ok: "bfs_ok R r 0 (start_walk r)"
  by (simp add: bfs_ok_def walk_ok_def start_walk_def depth_in_def map_get_def map_keys_def)

lemma walked_distance:
  assumes "bfs_ok R r (length (wk_queue w)) w"
  shows "map_get (wk_depths w) v = Some d \<longleftrightarrow> is_distance R r v d"
proof -
  have ok: "walk_ok R r w" using assms by (simp add: bfs_ok_def)
  have closed: "v \<in> set (wk_queue w) \<and> depth_in w v \<le> depth_in w u + 1" if "u \<in> set (wk_queue w)" "R u v" for u v
    using assms that by (auto simp: bfs_ok_def in_set_conv_nth)
  have upper: "v \<in> set (wk_queue w) \<and> depth_in w v \<le> n" if "reaches R r n v" for n v
    using that
  proof induction
    case reaches_root
    then show ?case using ok by (simp add: walk_ok_def)
  next
    case (reaches_edge n u v)
    with closed [of u v] show ?case by simp
  qed
  have path: "reaches R r (depth_in w v) v" if "v \<in> set (wk_queue w)" for v
    using that
  proof (induction "depth_in w v" arbitrary: v rule: less_induct)
    case less
    show ?case
    proof (cases "v = r")
      case True
      then show ?thesis using ok reaches_root by (simp add: walk_ok_def)
    next
      case False
      with ok less.prems obtain p where p: "p \<in> set (wk_queue w)" "R p v" "depth_in w v = depth_in w p + 1"
        by (auto simp: walk_ok_def)
      with less.hyps [of p] reaches_edge [of R r "depth_in w p" p v] show ?thesis by simp
    qed
  qed
  have get: "map_get (wk_depths w) v = Some (depth_in w v)" if "v \<in> set (wk_queue w)" for v
    using depths_queue [OF ok, of v] that by (auto simp: depth_in_def)
  show ?thesis
  proof
    assume "map_get (wk_depths w) v = Some d"
    then have "v \<in> set (wk_queue w)" "d = depth_in w v"
      using depths_queue [OF ok, of v] by (auto simp: depth_in_def)
    with path upper show "is_distance R r v d" unfolding is_distance_def by (meson not_le)
  next
    assume "is_distance R r v d"
    then have d: "reaches R r d v" "\<forall>m < d. \<not> reaches R r m v" by (simp_all add: is_distance_def)
    from upper [OF d(1)] have q: "v \<in> set (wk_queue w)" "depth_in w v \<le> d" by simp_all
    with d(2) path have "depth_in w v = d" by (metis le_neq_implies_less)
    with get [OF q(1)] show "map_get (wk_depths w) v = Some d" by simp
  qed
qed

lemma walked_cycles:
  assumes "bfs_ok R r (length (wk_queue w)) w"
  shows "list_all (cycle_at R r) (wk_cycles w)" "wk_cycles w \<noteq> [] \<longleftrightarrow> (\<exists>n. reaches R r (Suc n) r)"
proof -
  show cycles: "list_all (cycle_at R r) (wk_cycles w)" using assms by (simp add: bfs_ok_def walk_ok_def)
  have along: "reaches R r n (hd c) \<Longrightarrow> path_in R c \<Longrightarrow> c \<noteq> [] \<Longrightarrow> reaches R r (n + (length c - 1)) (last c)" for n c
  proof (induction c arbitrary: n)
    case (Cons x zs)
    show ?case
    proof (cases zs)
      case Nil
      with Cons.prems show ?thesis by simp
    next
      case (Cons y ys)
      with Cons.IH [of "Suc n"] Cons.prems reaches_edge [of R r n x y] show ?thesis by simp
    qed
  qed simp
  show "wk_cycles w \<noteq> [] \<longleftrightarrow> (\<exists>n. reaches R r (Suc n) r)"
  proof
    assume "wk_cycles w \<noteq> []"
    then obtain c where "c \<in> set (wk_cycles w)" by (cases "wk_cycles w") auto
    with cycles have c: "length c > 1" "hd c = r" "last c = r" "path_in R c" by (auto simp: list_all_iff cycle_at_def)
    then have "reaches R r (length c - 1) r" using along [of 0 c] reaches_root [of R r] by fastforce
    moreover obtain n where "length c - 1 = Suc n" using c(1) by (cases "length c - 1") auto
    ultimately show "\<exists>n. reaches R r (Suc n) r" by auto
  next
    assume "\<exists>n. reaches R r (Suc n) r"
    then obtain n u where u: "reaches R r n u" "R u r" by (auto elim: reaches.cases)
    then obtain d where "is_distance R r u d"
      unfolding is_distance_def using exists_least_iff [of "\<lambda>n. reaches R r n u"] by blast
    with walked_distance [OF assms] have "map_get (wk_depths w) u = Some d" by blast
    with depths_queue [of R r w u] assms have "u \<in> set (wk_queue w)" by (auto simp: bfs_ok_def)
    with u(2) assms show "wk_cycles w \<noteq> []" by (auto simp: bfs_ok_def in_set_conv_nth)
  qed
qed

section \<open>Redaction\<close>

definition alias_text :: "string \<Rightarrow> bool" where
  "alias_text s = (\<exists>n. s = REDACTED_KIND @ '':'' @ nat_text n)"

definition shown_as :: "node_table \<Rightarrow> bool \<Rightarrow> string \<Rightarrow> string \<Rightarrow> bool" where
  "shown_as table see i s = (if hidden table see i then alias_text s else s = i)"

definition reveal_ok :: "node_table \<Rightarrow> bool \<Rightarrow> reveal_state \<Rightarrow> bool" where
  "reveal_ok table see st =
     (map_wf (rs_aliases st) \<and> rs_redactedCount st = length (rs_aliases st) \<and>
      (\<forall>i a. map_get (rs_aliases st) i = Some a \<longrightarrow> alias_text a))"

definition hidden_in :: "node_table \<Rightarrow> bool \<Rightarrow> string set \<Rightarrow> string set" where
  "hidden_in table see ids = {i \<in> ids. hidden table see i}"

abbreviation alias_ids :: "reveal_state \<Rightarrow> string set" where
  "alias_ids st \<equiv> set (map_keys (rs_aliases st))"

lemma length_map_set: "length (map_set k v m) = (if map_get m k = None then length m + 1 else length m)"
  using arg_cong [OF map_keys_set [of k v m], of length]
  by (auto simp: map_keys_def map_get_def map_of_eq_None_iff)

lemma reveal_one:
  assumes "reveal table see i st = ((s, k), st')" "reveal_ok table see st"
  shows "reveal_ok table see st'" "shown_as table see i s" "alias_ids st' = alias_ids st \<union> hidden_in table see {i}"
proof -
  have key: "map_get m i = None \<longleftrightarrow> i \<notin> set (map_keys m)" for m :: "(string, string) js_map"
    by (simp add: map_get_def map_keys_def map_of_eq_None_iff)
  show "reveal_ok table see st'"
    using assms by (auto simp: reveal_def Let_def reveal_ok_def length_map_set map_get_set alias_text_def split: if_splits)
  show "shown_as table see i s"
    using assms by (auto simp: reveal_def Let_def reveal_ok_def shown_as_def split: if_splits option.splits)
      (auto simp: alias_text_def)
  show "alias_ids st' = alias_ids st \<union> hidden_in table see {i}"
    using assms by (auto simp: reveal_def Let_def hidden_in_def map_keys_set key split: if_splits)
qed

lemma reveal_entries_ok:
  "reveal_entries table see xs st = (es, st') \<Longrightarrow> reveal_ok table see st \<Longrightarrow>
     reveal_ok table see st' \<and> alias_ids st' = alias_ids st \<union> hidden_in table see (fst ` set xs) \<and>
     list_all2 (\<lambda>(i, d) e. shown_as table see i (ie_id e) \<and> ie_depth e = d) xs es"
proof (induction xs arbitrary: st es st')
  case (Cons x xs)
  obtain i d where x: "x = (i, d)" by (cases x)
  obtain s k st1 where r: "reveal table see i st = ((s, k), st1)" by (metis surj_pair)
  obtain es2 st2 where e: "reveal_entries table see xs st1 = (es2, st2)" by (metis surj_pair)
  from Cons.IH [OF e reveal_one(1) [OF r Cons.prems(2)]] reveal_one [OF r Cons.prems(2)] Cons.prems(1) r e
  show ?case by (auto simp: hidden_in_def x)
qed (auto simp: hidden_in_def)

lemma reveal_missing_ok:
  "reveal_missing table see xs st = (ms, st') \<Longrightarrow> reveal_ok table see st \<Longrightarrow>
     reveal_ok table see st' \<and> alias_ids st' = alias_ids st \<union> hidden_in table see (fst ` set xs) \<and>
     list_all2 (\<lambda>(i, t) m. shown_as table see i (mr_from m) \<and> mr_missingId m = t) xs ms"
proof (induction xs arbitrary: st ms st')
  case (Cons x xs)
  obtain i t where x: "x = (i, t)" by (cases x)
  obtain s k st1 where r: "reveal table see i st = ((s, k), st1)" by (metis surj_pair)
  obtain ms2 st2 where e: "reveal_missing table see xs st1 = (ms2, st2)" by (metis surj_pair)
  from Cons.IH [OF e reveal_one(1) [OF r Cons.prems(2)]] reveal_one [OF r Cons.prems(2)] Cons.prems(1) r e
  show ?case by (auto simp: hidden_in_def x)
qed (auto simp: hidden_in_def)

lemma reveal_path_ok:
  "reveal_path table see xs st = (ss, st') \<Longrightarrow> reveal_ok table see st \<Longrightarrow>
     reveal_ok table see st' \<and> alias_ids st' = alias_ids st \<union> hidden_in table see (set xs) \<and>
     list_all2 (shown_as table see) xs ss"
proof (induction xs arbitrary: st ss st')
  case (Cons x xs)
  obtain s k st1 where r: "reveal table see x st = ((s, k), st1)" by (metis surj_pair)
  obtain ss2 st2 where e: "reveal_path table see xs st1 = (ss2, st2)" by (metis surj_pair)
  from Cons.IH [OF e reveal_one(1) [OF r Cons.prems(2)]] reveal_one [OF r Cons.prems(2)] Cons.prems(1) r e
  show ?case by (auto simp: hidden_in_def)
qed (auto simp: hidden_in_def)

lemma reveal_cycles_ok:
  "reveal_cycles table see ps st = (cs, st') \<Longrightarrow> reveal_ok table see st \<Longrightarrow>
     reveal_ok table see st' \<and> alias_ids st' = alias_ids st \<union> hidden_in table see (\<Union> (set ` set ps)) \<and>
     list_all2 (list_all2 (shown_as table see)) ps cs"
proof (induction ps arbitrary: st cs st')
  case (Cons x xs)
  obtain ss st1 where r: "reveal_path table see x st = (ss, st1)" by (metis surj_pair)
  obtain cs2 st2 where e: "reveal_cycles table see xs st1 = (cs2, st2)" by (metis surj_pair)
  from Cons.IH [OF e] reveal_path_ok [OF r Cons.prems(2)] Cons.prems(1) r e
  show ?case by (auto simp: hidden_in_def)
qed (auto simp: hidden_in_def)

section \<open>The analysis\<close>

lemma walk_returns:
  "\<exists>w. bfs (byId nodes) (add_edges (edge_list direction nodes) []) rootId 0 (start_walk rootId) = Some w \<and>
     bfs_ok (linked nodes direction) rootId (length (wk_queue w)) w"
  by (rule bfs_returns [OF next_linked start_ok])

lemma list_all2_right: "list_all2 P xs ys \<Longrightarrow> y \<in> set ys \<Longrightarrow> \<exists>x. P x y"
  by (induction rule: list_all2_induct) auto

lemma analyze_ok:
  assumes "analyzeImpact nodes rootId auth direction = Some (Ok rep)"
  obtains w root where "bfs_ok (linked nodes direction) rootId (length (wk_queue w)) w"
    "map_get (byId nodes) rootId = Some root"
    "\<not> hidden (byId nodes) (hasPermission (auth_role auth) IMPACT_RESTRICTED_PERMISSION) rootId"
    "rep = impact_of (byId nodes) (hasPermission (auth_role auth) IMPACT_RESTRICTED_PERMISSION) rootId direction w"
  using assms walk_returns [of nodes direction rootId] that
  by (auto simp: analyzeImpact_def Let_def hidden_def split: if_splits option.splits)

lemma reached_iff:
  assumes "bfs_ok R r (length (wk_queue w)) w"
  shows "v \<in> set (wk_queue w) \<longleftrightarrow> (\<exists>n. reaches R r n v)"
proof -
  have "v \<in> set (wk_queue w) \<longleftrightarrow> (\<exists>d. map_get (wk_depths w) v = Some d)"
    using depths_queue [of R r w v] assms by (auto simp: bfs_ok_def)
  also have "\<dots> \<longleftrightarrow> (\<exists>d. is_distance R r v d)" using walked_distance [OF assms] by simp
  also have "\<dots> \<longleftrightarrow> (\<exists>n. reaches R r n v)"
    unfolding is_distance_def using exists_least_iff [of "\<lambda>n. reaches R r n v"] by blast
  finally show ?thesis .
qed

lemma path_reached: "path_in R c \<Longrightarrow> reaches R r n (hd c) \<Longrightarrow> v \<in> set c \<Longrightarrow> \<exists>m. reaches R r m v"
proof (induction c arbitrary: n)
  case (Cons x zs)
  show ?case
  proof (cases "v = x")
    case True
    with Cons.prems show ?thesis by auto
  next
    case False
    then obtain y ys where "zs = y # ys" using Cons.prems by (cases zs) auto
    with False Cons.IH [of "Suc n"] Cons.prems reaches_edge [of R r n x y] show ?thesis by auto
  qed
qed simp

lemma distance_zero: "is_distance R r v 0 \<longleftrightarrow> v = r"
  by (auto simp: is_distance_def intro: reaches_root elim: reaches.cases)

text \<open>What a report shows, in terms of the walk it is made from.\<close>

lemma impact_parts:
  assumes "bfs_ok R rootId (length (wk_queue w)) w" "\<not> hidden table see rootId"
  shows "\<exists>entries. list_all2 (\<lambda>(i, d) e. shown_as table see i (ie_id e) \<and> ie_depth e = d) (sorted_depths rootId w) entries \<and>
      ir_direct (impact_of table see rootId direction w) = filter (\<lambda>e. ie_depth e = 1) entries \<and>
      ir_indirect (impact_of table see rootId direction w) = filter (\<lambda>e. ie_depth e > 1) entries"
    and "list_all2 (\<lambda>(i, t) m. shown_as table see i (mr_from m) \<and> mr_missingId m = t) (dangling table w)
      (ir_missingReferences (impact_of table see rootId direction w))"
    and "list_all2 (list_all2 (shown_as table see)) (wk_cycles w) (ir_cycles (impact_of table see rootId direction w))"
    and "ir_redactedCount (impact_of table see rootId direction w) = card (hidden_in table see (set (wk_queue w)))"
proof -
  let ?st = "\<lparr>rs_aliases = [], rs_redactedCount = 0\<rparr>"
  obtain es st1 where e: "reveal_entries table see (sorted_depths rootId w) ?st = (es, st1)" by (metis surj_pair)
  obtain ms st2 where m: "reveal_missing table see (dangling table w) st1 = (ms, st2)" by (metis surj_pair)
  obtain cs st3 where c: "reveal_cycles table see (wk_cycles w) st2 = (cs, st3)" by (metis surj_pair)
  have "reveal_ok table see ?st" by (simp add: reveal_ok_def)
  note e' = reveal_entries_ok [OF e this]
  note m' = reveal_missing_ok [OF m conjunct1 [OF e']]
  note c' = reveal_cycles_ok [OF c conjunct1 [OF m']]
  have rep: "impact_of table see rootId direction w = \<lparr>ir_rootId = rootId, ir_direction = direction,
      ir_direct = filter (\<lambda>e. ie_depth e = 1) es, ir_indirect = filter (\<lambda>e. ie_depth e > 1) es,
      ir_cycles = cs, ir_missingReferences = ms, ir_redactedCount = rs_redactedCount st3\<rparr>"
    by (simp add: impact_of_def e m c)
  show "\<exists>entries. list_all2 (\<lambda>(i, d) e. shown_as table see i (ie_id e) \<and> ie_depth e = d) (sorted_depths rootId w) entries \<and>
      ir_direct (impact_of table see rootId direction w) = filter (\<lambda>e. ie_depth e = 1) entries \<and>
      ir_indirect (impact_of table see rootId direction w) = filter (\<lambda>e. ie_depth e > 1) entries"
    using e' by (auto simp: rep)
  show "list_all2 (\<lambda>(i, t) m. shown_as table see i (mr_from m) \<and> mr_missingId m = t) (dangling table w)
      (ir_missingReferences (impact_of table see rootId direction w))" using m' by (simp add: rep)
  show "list_all2 (list_all2 (shown_as table see)) (wk_cycles w) (ir_cycles (impact_of table see rootId direction w))"
    using c' by (simp add: rep)
  have keys: "map fst (wk_depths w) = wk_queue w"
    using assms(1) by (simp add: bfs_ok_def walk_ok_def map_keys_def)
  have "set (sorted_depths rootId w) = {(i, d) \<in> set (wk_depths w). i \<noteq> rootId}" by (auto simp: sorted_depths_def)
  then have "fst ` set (sorted_depths rootId w) = set (wk_queue w) - {rootId}"
    unfolding keys [symmetric] by force
  moreover have "fst ` set (dangling table w) \<subseteq> set (wk_queue w)"
    unfolding keys [symmetric] by (auto simp: dangling_def map_keys_def intro: rev_image_eqI)
  moreover have "\<Union> (set ` set (wk_cycles w)) \<subseteq> set (wk_queue w)"
    using walked_cycles(1) [OF assms(1)] path_reached [of R _ rootId 0] reaches_root [of R rootId]
    by (fastforce simp: reached_iff [OF assms(1)] list_all_iff cycle_at_def)
  ultimately have "alias_ids st3 = hidden_in table see (set (wk_queue w))"
    using e' m' c' assms(2) by (auto simp: hidden_in_def map_keys_def)
  moreover have "length (rs_aliases st3) = card (alias_ids st3)"
    using c' distinct_card [of "map fst (rs_aliases st3)"] by (simp add: reveal_ok_def map_wf_def map_keys_def)
  ultimately show "ir_redactedCount (impact_of table see rootId direction w) = card (hidden_in table see (set (wk_queue w)))"
    using c' by (simp add: rep reveal_ok_def)
qed

text \<open>
  C19. The impact analysis always returns: on every graph, with cycles, self-loops,
  dangling and duplicate ids, and for every caller, both loops of \<open>analyzeImpact\<close> end.
\<close>

theorem impact_returns: "analyzeImpact nodes rootId auth direction \<noteq> None"
  using walk_returns [of nodes direction rootId]
  by (auto simp: analyzeImpact_def Let_def split: option.split)

text \<open>
  C18. For a caller who may see everything the report is exact: its direct and indirect
  entries are the resources reachable from the root along declared edges, each at its
  shortest distance, every cycle it lists is a closed walk from the root, and it lists
  one exactly when the root lies on a cycle.
\<close>

theorem impact_is_distance:
  assumes "hasPermission (auth_role auth) IMPACT_READ_PERMISSION"
    "hasPermission (auth_role auth) IMPACT_RESTRICTED_PERMISSION" "rootId \<in> dn_id ` set nodes"
  shows "\<exists>rep. analyzeImpact nodes rootId auth direction = Some (Ok rep) \<and>
    (\<lambda>e. (ie_id e, ie_depth e)) ` set (ir_direct rep @ ir_indirect rep) =
      {(v, d). v \<noteq> rootId \<and> is_distance (linked nodes direction) rootId v d} \<and>
    list_all (cycle_at (linked nodes direction) rootId) (ir_cycles rep) \<and>
    (ir_cycles rep \<noteq> [] \<longleftrightarrow> (\<exists>n. reaches (linked nodes direction) rootId (Suc n) rootId))"
proof -
  let ?R = "linked nodes direction" and ?table = "byId nodes"
  obtain w where w: "bfs ?table (add_edges (edge_list direction nodes) []) rootId 0 (start_walk rootId) = Some w"
    "bfs_ok ?R rootId (length (wk_queue w)) w" using walk_returns by blast
  let ?rep = "impact_of ?table True rootId direction w"
  have "map_get ?table rootId \<noteq> None" using has_node_iff [of nodes rootId] assms(3) by (simp add: has_node_def)
  then have call: "analyzeImpact nodes rootId auth direction = Some (Ok ?rep)"
    using assms(1,2) w(1) by (auto simp: analyzeImpact_def Let_def)
  have vis: "\<not> hidden ?table True i" for i by (simp add: hidden_def split: option.split)
  note parts = impact_parts [OF w(2) vis, of direction]
  from parts(1) obtain es where es: "list_all2 (\<lambda>(i, d) e. shown_as ?table True i (ie_id e) \<and> ie_depth e = d)
      (sorted_depths rootId w) es" "ir_direct ?rep = filter (\<lambda>e. ie_depth e = 1) es"
    "ir_indirect ?rep = filter (\<lambda>e. ie_depth e > 1) es" by blast
  have pairs: "map (\<lambda>e. (ie_id e, ie_depth e)) es = sorted_depths rootId w"
    using es(1) by (induction rule: list_all2_induct) (auto simp: shown_as_def vis)
  have wf: "map_wf (wk_depths w)" using w(2) by (simp add: bfs_ok_def walk_ok_def map_wf_def map_keys_def)
  have dist: "set (sorted_depths rootId w) = {(v, d). v \<noteq> rootId \<and> is_distance ?R rootId v d}"
    using walked_distance [OF w(2)] map_wf_get_iff [OF wf] by (auto simp: sorted_depths_def)
  have "ie_depth e \<noteq> 0" if "e \<in> set es" for e
  proof -
    have "(ie_id e, ie_depth e) \<in> set (sorted_depths rootId w)" using that unfolding pairs [symmetric] by auto
    then have "ie_id e \<noteq> rootId" "is_distance ?R rootId (ie_id e) (ie_depth e)" unfolding dist by simp_all
    then show ?thesis using distance_zero [of ?R rootId "ie_id e"] by metis
  qed
  then have "set (ir_direct ?rep @ ir_indirect ?rep) = set es" by (fastforce simp: es(2,3))
  then have "(\<lambda>e. (ie_id e, ie_depth e)) ` set (ir_direct ?rep @ ir_indirect ?rep) =
      {(v, d). v \<noteq> rootId \<and> is_distance ?R rootId v d}"
    using pairs dist by (metis list.set_map)
  moreover have "ir_cycles ?rep = wk_cycles w"
  proof -
    have "shown_as ?table True = (=)" by (intro ext) (auto simp: shown_as_def vis)
    with parts(3) show ?thesis by (simp add: list.rel_eq)
  qed
  ultimately show ?thesis using call walked_cycles [OF w(2)] by auto
qed

text \<open>
  C20. A caller without \<open>admin:config\<close> learns no restricted id: every id in a report, in
  entries, cycles and dangling references alike, is an alias or the id of a resource that
  is not restricted, and the redacted count is the number of restricted resources reached.
\<close>

theorem impact_redacts:
  assumes "analyzeImpact nodes rootId auth direction = Some (Ok rep)"
  defines "see \<equiv> hasPermission (auth_role auth) IMPACT_RESTRICTED_PERMISSION"
  shows "list_all (\<lambda>i. alias_text i \<or> \<not> hidden (byId nodes) see i)
      (map ie_id (ir_direct rep @ ir_indirect rep) @ map mr_from (ir_missingReferences rep) @ concat (ir_cycles rep)) \<and>
    ir_redactedCount rep =
      card {v. hidden (byId nodes) see v \<and> (\<exists>n. reaches (linked nodes direction) rootId n v)}"
proof -
  from analyze_ok [OF assms(1)] obtain w where w: "bfs_ok (linked nodes direction) rootId (length (wk_queue w)) w"
    "\<not> hidden (byId nodes) see rootId" "rep = impact_of (byId nodes) see rootId direction w"
    unfolding see_def by metis
  note parts = impact_parts [OF w(1,2), of direction, folded w(3)]
  have shown: "alias_text s \<or> \<not> hidden (byId nodes) see s" if "shown_as (byId nodes) see i s" for i s
    using that by (auto simp: shown_as_def split: if_splits)
  from parts(1) obtain es where es: "list_all2 (\<lambda>(i, d) e. shown_as (byId nodes) see i (ie_id e) \<and> ie_depth e = d)
      (sorted_depths rootId w) es" "set (ir_direct rep @ ir_indirect rep) \<subseteq> set es" by fastforce
  have "alias_text (ie_id e) \<or> \<not> hidden (byId nodes) see (ie_id e)" if "e \<in> set (ir_direct rep @ ir_indirect rep)" for e
    using list_all2_right [OF es(1)] es(2) that shown by blast
  moreover have "alias_text (mr_from m) \<or> \<not> hidden (byId nodes) see (mr_from m)" if "m \<in> set (ir_missingReferences rep)" for m
    using list_all2_right [OF parts(2) that] shown by blast
  moreover have "alias_text s \<or> \<not> hidden (byId nodes) see s" if "c \<in> set (ir_cycles rep)" "s \<in> set c" for c s
    using list_all2_right [OF parts(3) that(1)] list_all2_right [OF _ that(2)] shown by blast
  ultimately have "list_all (\<lambda>i. alias_text i \<or> \<not> hidden (byId nodes) see i)
      (map ie_id (ir_direct rep @ ir_indirect rep) @ map mr_from (ir_missingReferences rep) @ concat (ir_cycles rep))"
    unfolding list_all_iff by auto
  moreover have "ir_redactedCount rep =
      card {v. hidden (byId nodes) see v \<and> (\<exists>n. reaches (linked nodes direction) rootId n v)}"
    using parts(4) by (simp add: hidden_in_def reached_iff [OF w(1)] conj_commute)
  ultimately show ?thesis by (rule conjI)
qed

section \<open>A graph with a cycle\<close>

definition w_nodes :: "dependency_node list" where
  "w_nodes =
     [\<lparr>dn_id = ''a'', dn_kind = ''event'', dn_dependsOn = [''c''], dn_restricted = False\<rparr>,
      \<lparr>dn_id = ''b'', dn_kind = ''ticket'', dn_dependsOn = [''a''], dn_restricted = True\<rparr>,
      \<lparr>dn_id = ''c'', dn_kind = ''user'', dn_dependsOn = [''b'', ''gone''], dn_restricted = False\<rparr>]"

definition w_auth :: "string \<Rightarrow> auth_context" where
  "w_auth role = \<lparr>auth_role = role, auth_userId = None\<rparr>"

lemma w_report:
  "analyzeImpact w_nodes ''a'' (w_auth ''viewer'') Dependents = Some (Ok
     \<lparr>ir_rootId = ''a'', ir_direction = Dependents,
      ir_direct = [\<lparr>ie_id = ''redacted:1'', ie_kind = ''redacted'', ie_depth = 1\<rparr>],
      ir_indirect = [\<lparr>ie_id = ''c'', ie_kind = ''user'', ie_depth = 2\<rparr>],
      ir_cycles = [[''a'', ''redacted:1'', ''c'', ''a'']],
      ir_missingReferences = [\<lparr>mr_from = ''c'', mr_missingId = ''gone''\<rparr>], ir_redactedCount = 1\<rparr>)"
  by code_simp

theorem impact_is_distance_witness:
  "\<exists>rep. analyzeImpact w_nodes ''a'' (w_auth ''maintainer'') Dependents = Some (Ok rep) \<and>
     (\<lambda>e. (ie_id e, ie_depth e)) ` set (ir_direct rep @ ir_indirect rep) =
       {(v, d). v \<noteq> ''a'' \<and> is_distance (linked w_nodes Dependents) ''a'' v d}"
proof -
  have "hasPermission (auth_role (w_auth ''maintainer'')) IMPACT_READ_PERMISSION"
    "hasPermission (auth_role (w_auth ''maintainer'')) IMPACT_RESTRICTED_PERMISSION" by code_simp+
  moreover have "''a'' \<in> dn_id ` set w_nodes" by (simp add: w_nodes_def)
  ultimately show ?thesis using impact_is_distance [of "w_auth ''maintainer''" "''a''" w_nodes Dependents] by blast
qed

theorem impact_redacts_witness:
  "card {v. hidden (byId w_nodes) False v \<and> (\<exists>n. reaches (linked w_nodes Dependents) ''a'' n v)} = 1"
proof -
  have "\<not> hasPermission (auth_role (w_auth ''viewer'')) IMPACT_RESTRICTED_PERMISSION" by code_simp
  with impact_redacts [OF w_report] show ?thesis by simp
qed

end
