(* ===== verification/Maintainer_Approval.thy ===== *)
theory Maintainer_Approval
  imports Audit_Trail
begin

text \<open>
  \<open>core/auth/maintainer-approval.ts\<close>: proposals of high-impact actions, their signatures,
  execution and receipts. Intents are objects the maps and the executions in flight share,
  so they live in a store and are referred to by position. \<open>executeIntent\<close> awaits its
  handler: its part before the await and its part after are two operations, and anything
  may happen between them. Key validation and signature checks of the Stellar SDK are the
  fields of \<open>stellar_sdk\<close>; random texts and clock readings are arguments.
\<close>

section \<open>Types and constants\<close>

record stellar_sdk =
  isValidEd25519PublicKey :: "string \<Rightarrow> bool"
  keypair_verify :: "string \<Rightarrow> string \<Rightarrow> string \<Rightarrow> bool"

datatype intent_status =
    Intent_Pending | Intent_Approved | Intent_Executing | Intent_Executed | Intent_Rejected | Intent_Expired
  | Intent_Failed

definition status_text :: "intent_status \<Rightarrow> string" where
  "status_text s =
     (case s of
        Intent_Pending \<Rightarrow> ''pending'' | Intent_Approved \<Rightarrow> ''approved'' | Intent_Executing \<Rightarrow> ''executing''
      | Intent_Executed \<Rightarrow> ''executed'' | Intent_Rejected \<Rightarrow> ''rejected'' | Intent_Expired \<Rightarrow> ''expired''
      | Intent_Failed \<Rightarrow> ''failed'')"

record maintainer_signature =
  sg_signer :: string
  sg_signature :: string
  sg_signedAt :: int

type_synonym parameters = "(string \<times> json) list"

record intent_request =
  it_id :: string
  it_action :: string
  it_target :: string
  it_parameters :: parameters
  it_reason :: string
  it_requestedBy :: string
  it_requestedAt :: int
  it_expiresAt :: int
  it_nonce :: string
  it_requiredSignatures :: int
  it_intentHash :: string
  it_status :: intent_status
  it_signatures :: "maintainer_signature list"

record approval_receipt =
  rc_receiptId :: string
  rc_intentId :: string
  rc_intentHash :: string
  rc_action :: string
  rc_target :: string
  rc_parameters :: parameters
  rc_reason :: string
  rc_requestedBy :: string
  rc_signers :: "string list"
  rc_status :: intent_status
  rc_executedBy :: string
  rc_executedAt :: int
  rc_durationMs :: int
  rc_executionOutput :: "json option"
  rc_error :: "string option"
  rc_receiptDigest :: string
  rc_auditEventId :: "string option"

record propose_params =
  pp_action :: string
  pp_target :: string
  pp_parameters :: "parameters option"
  pp_reason :: string
  pp_requestedBy :: string
  pp_expiresInMs :: "int option"
  pp_requiredSignatures :: "int option"

datatype approval_error =
    Invalid_Public_Key | Reason_Missing | Not_Serializable | Intent_Not_Found | Intent_In_State intent_status
  | Intent_Has_Expired | Signature_Invalid | Already_Signed | Execution_Failed string | Not_In_Flight
  | Protected_Rejected string | Protected_Throws

definition DEFAULT_EXPIRY_MS :: int where
  "DEFAULT_EXPIRY_MS = 30 * 60 * 1000"

definition ACTION_THRESHOLDS :: "(string \<times> int) list" where
  "ACTION_THRESHOLDS =
     [(''emergency_killswitch'', 2), (''protocol_rollback'', 2), (''reconciliation_repair'', 2),
      (''admin_config_override'', 2), (''quota_override'', 1), (''dead_letter_purge'', 1),
      (''event_capacity_override'', 2), (''event_cancellation'', 2), (''fraud_lock_quarantine'', 1),
      (''batch_ticket_burn'', 2), (''organizer_fee_override'', 2)]"

section \<open>Hashes and signatures\<close>

text \<open>The payload's keys in sorted order; what is inside \<open>parameters\<close> keeps its order.\<close>

definition intent_payload ::
  "string \<Rightarrow> string \<Rightarrow> parameters \<Rightarrow> string \<Rightarrow> string \<Rightarrow> string \<Rightarrow> int \<Rightarrow> int \<Rightarrow> json" where
  "intent_payload action target parameters reason requestedBy nonce requestedAt expiresAt =
     JObj [(''action'', JStr action), (''expiresAt'', JNum expiresAt), (''nonce'', JStr nonce),
       (''parameters'', JObj parameters), (''reason'', JStr reason), (''requestedAt'', JNum requestedAt),
       (''requestedBy'', JStr requestedBy), (''target'', JStr target)]"

definition computeCanonicalIntentHash ::
  "string \<Rightarrow> string \<Rightarrow> parameters \<Rightarrow> string \<Rightarrow> string \<Rightarrow> string \<Rightarrow> int \<Rightarrow> int \<Rightarrow> string option" where
  "computeCanonicalIntentHash action target parameters reason requestedBy nonce requestedAt expiresAt =
     map_option sha256Hex
       (stringify (intent_payload action target parameters reason requestedBy nonce requestedAt expiresAt))"

definition verifyMaintainerSignature :: "stellar_sdk \<Rightarrow> string \<Rightarrow> string \<Rightarrow> string \<Rightarrow> bool" where
  "verifyMaintainerSignature sdk signer messageHash signature =
     (isValidEd25519PublicKey sdk signer \<and> keypair_verify sdk signer messageHash signature)"

section \<open>The manager\<close>

text \<open>An execution that waits for its handler.\<close>

record execution =
  ex_ref :: nat
  ex_executor :: string
  ex_startTime :: int
  ex_receiptId :: string

record approvals =
  ap_objects :: "intent_request list"
  ap_intents :: "(string, nat) js_map"
  ap_receipts :: "(string, approval_receipt) js_map"
  ap_receiptsByIntent :: "(string, string) js_map"
  ap_running :: "execution list"
  ap_trail :: audit_trail

definition object :: "approvals \<Rightarrow> nat \<Rightarrow> intent_request" where
  "object s r = ap_objects s ! r"

definition update_object :: "nat \<Rightarrow> (intent_request \<Rightarrow> intent_request) \<Rightarrow> approvals \<Rightarrow> approvals" where
  "update_object r f s = s\<lparr>ap_objects := (ap_objects s)[r := f (object s r)]\<rparr>"

definition set_status :: "nat \<Rightarrow> intent_status \<Rightarrow> approvals \<Rightarrow> approvals" where
  "set_status r st = update_object r (\<lambda>intent. intent\<lparr>it_status := st\<rparr>)"

definition proposeIntent ::
  "stellar_sdk \<Rightarrow> int option \<Rightarrow> approvals \<Rightarrow> int \<Rightarrow> string \<Rightarrow> string \<Rightarrow> propose_params \<Rightarrow>
     (intent_request, approval_error) result \<times> approvals" where
  "proposeIntent sdk defaultExpiryMs s now nonce rnd params =
     (if \<not> isValidEd25519PublicKey sdk (pp_requestedBy params) then (Err Invalid_Public_Key, s)
      else if trim (pp_reason params) = [] then (Err Reason_Missing, s)
      else
        let expiryMs = (case pp_expiresInMs params of Some e \<Rightarrow> e
              | None \<Rightarrow> (case defaultExpiryMs of Some e \<Rightarrow> e | None \<Rightarrow> DEFAULT_EXPIRY_MS));
            expiresAt = now + expiryMs;
            parameters = (case pp_parameters params of Some ps \<Rightarrow> ps | None \<Rightarrow> []);
            required = (case pp_requiredSignatures params of Some n \<Rightarrow> n
              | None \<Rightarrow> (case map_of ACTION_THRESHOLDS (pp_action params) of Some n \<Rightarrow> n | None \<Rightarrow> 1))
        in case computeCanonicalIntentHash (pp_action params) (pp_target params) parameters (pp_reason params)
                  (pp_requestedBy params) nonce now expiresAt of
             None \<Rightarrow> (Err Not_Serializable, s)
           | Some intentHash \<Rightarrow>
               let id = ''intent-'' @ int_text now @ ''-'' @ rnd;
                   intent = \<lparr>it_id = id, it_action = pp_action params, it_target = pp_target params,
                     it_parameters = parameters, it_reason = pp_reason params, it_requestedBy = pp_requestedBy params,
                     it_requestedAt = now, it_expiresAt = expiresAt, it_nonce = nonce,
                     it_requiredSignatures = required, it_intentHash = intentHash, it_status = Intent_Pending,
                     it_signatures = []\<rparr>
               in (Ok intent, s\<lparr>ap_objects := ap_objects s @ [intent],
                     ap_intents := map_set id (length (ap_objects s)) (ap_intents s)\<rparr>))"

text \<open>The clock is read for the expiry and again for \<open>signedAt\<close>.\<close>

definition signIntent ::
  "stellar_sdk \<Rightarrow> approvals \<Rightarrow> int \<Rightarrow> int \<Rightarrow> string \<Rightarrow> string \<Rightarrow> string \<Rightarrow>
     (intent_request, approval_error) result \<times> approvals" where
  "signIntent sdk s now signedAt intentId signer signature =
     (case map_get (ap_intents s) intentId of
        None \<Rightarrow> (Err Intent_Not_Found, s)
      | Some r \<Rightarrow>
          let intent = object s r in
          if it_status intent \<noteq> Intent_Pending then (Err (Intent_In_State (it_status intent)), s)
          else if now > it_expiresAt intent then (Err Intent_Has_Expired, set_status r Intent_Expired s)
          else if \<not> verifyMaintainerSignature sdk signer (it_intentHash intent) signature then (Err Signature_Invalid, s)
          else if list_ex (\<lambda>g. sg_signer g = signer) (it_signatures intent) then (Err Already_Signed, s)
          else
            let signed = intent\<lparr>it_signatures := it_signatures intent @
                  [\<lparr>sg_signer = signer, sg_signature = signature, sg_signedAt = signedAt\<rparr>]\<rparr>;
                result = (if int (length (it_signatures signed)) \<ge> it_requiredSignatures signed
                  then signed\<lparr>it_status := Intent_Approved\<rparr> else signed)
            in (Ok result, update_object r (\<lambda>_. result) s))"

section \<open>Execution\<close>

definition executeIntent_begin ::
  "stellar_sdk \<Rightarrow> approvals \<Rightarrow> int \<Rightarrow> int \<Rightarrow> string \<Rightarrow> string \<Rightarrow> string \<Rightarrow>
     (execution, approval_error) result \<times> approvals" where
  "executeIntent_begin sdk s now startTime rnd intentId executor =
     (case map_get (ap_intents s) intentId of
        None \<Rightarrow> (Err Intent_Not_Found, s)
      | Some r \<Rightarrow>
          let intent = object s r in
          if \<not> isValidEd25519PublicKey sdk executor then (Err Invalid_Public_Key, s)
          else if it_status intent \<noteq> Intent_Approved then (Err (Intent_In_State (it_status intent)), s)
          else if now > it_expiresAt intent then (Err Intent_Has_Expired, set_status r Intent_Expired s)
          else
            let ex = \<lparr>ex_ref = r, ex_executor = executor, ex_startTime = startTime,
                  ex_receiptId = ''receipt-'' @ int_text startTime @ ''-'' @ rnd\<rparr>
            in (Ok ex, (set_status r Intent_Executing s)\<lparr>ap_running := ap_running s @ [ex]\<rparr>))"

datatype action_outcome = Handler_Returned "json option" | Handler_Threw string

definition receipt_payload :: "string \<Rightarrow> intent_request \<Rightarrow> string \<Rightarrow> int \<Rightarrow> bool \<Rightarrow> string option \<Rightarrow> json" where
  "receipt_payload receiptId intent executor executedAt isSuccess error =
     JObj [(''receiptId'', JStr receiptId), (''intentId'', JStr (it_id intent)),
       (''intentHash'', JStr (it_intentHash intent)), (''action'', JStr (it_action intent)),
       (''target'', JStr (it_target intent)), (''status'', JStr (status_text (it_status intent))),
       (''executedBy'', JStr executor), (''executedAt'', JNum executedAt), (''isSuccess'', JBool isSuccess),
       (''error'', opt_str error)]"

definition is_upper :: "char \<Rightarrow> bool" where
  "is_upper c = (65 \<le> code_of c \<and> code_of c \<le> 90)"

text \<open>\<open>reason.slice(0, 64).replace(/[^a-z0-9_.:-]/gi, "_")\<close>: case-insensitive, so capitals stay.\<close>

definition audit_reason_of :: "string \<Rightarrow> string" where
  "audit_reason_of reason =
     map (\<lambda>c. if is_lower c \<or> is_upper c \<or> is_digit c \<or> c \<in> set ''_.:-'' then c else CHR ''_'') (take 64 reason)"

definition execution_audit :: "string \<Rightarrow> intent_request \<Rightarrow> bool \<Rightarrow> string \<Rightarrow> string \<Rightarrow> audit_input" where
  "execution_audit executor intent isSuccess receiptId receiptDigest =
     \<lparr>in_action = ''admin.config_changed'', in_actor = \<lparr>actor_kind = Maintainer, actor_id = Some executor\<rparr>,
      in_scope = Some Maintainer_Scope, in_target_kind = it_action intent, in_target_id = it_target intent,
      in_reason = Some (audit_reason_of (it_reason intent)),
      in_outcome = Some (if isSuccess then Allowed else Denied),
      in_before = Some [(''intentStatus'', SStr ''approved'')],
      in_after = Some [(''intentStatus'', SStr (status_text (it_status intent))), (''receiptId'', SStr receiptId),
        (''receiptDigest'', SStr (take 32 receiptDigest))],
      in_at = None, in_correlationId = None, in_errorCode = None\<rparr>"

text \<open>
  After the await: \<open>endTime\<close> and \<open>executedAt\<close> are two clock readings, \<open>wall\<close> the clock of
  the audit trail. An exception of the digest's \<open>JSON.stringify\<close> cannot arise: the payload
  holds no BigInt.
\<close>

definition executeIntent_settle ::
  "(string \<Rightarrow> bool) \<Rightarrow> (nat \<Rightarrow> string) \<Rightarrow> approvals \<Rightarrow> nat \<Rightarrow> int \<Rightarrow> int \<Rightarrow> int \<Rightarrow> action_outcome \<Rightarrow>
     (json option \<times> approval_receipt, approval_error) result \<times> approvals" where
  "executeIntent_settle dp gen s i endTime executedAt wall outcome =
     (if i \<ge> length (ap_running s) then (Err Not_In_Flight, s)
      else
        let ex = ap_running s ! i;
            r = ex_ref ex;
            (isSuccess, output, error) = (case outcome of
               Handler_Returned v \<Rightarrow> (True, v, None) | Handler_Threw m \<Rightarrow> (False, None, Some m));
            status = (if isSuccess then Intent_Executed else Intent_Failed);
            s1 = (set_status r status s)\<lparr>ap_running := take i (ap_running s) @ drop (i + 1) (ap_running s)\<rparr>;
            intent = object s1 r;
            digest = sha256Hex (plain_text (json_clone
              (receipt_payload (ex_receiptId ex) intent (ex_executor ex) executedAt isSuccess error)));
            (event, trail) = recordAudit dp gen (ap_trail s) wall
              (execution_audit (ex_executor ex) intent isSuccess (ex_receiptId ex) digest);
            receipt = \<lparr>rc_receiptId = ex_receiptId ex, rc_intentId = it_id intent, rc_intentHash = it_intentHash intent,
              rc_action = it_action intent, rc_target = it_target intent, rc_parameters = it_parameters intent,
              rc_reason = it_reason intent, rc_requestedBy = it_requestedBy intent,
              rc_signers = map sg_signer (it_signatures intent), rc_status = status, rc_executedBy = ex_executor ex,
              rc_executedAt = executedAt, rc_durationMs = endTime - ex_startTime ex, rc_executionOutput = output,
              rc_error = error, rc_receiptDigest = digest,
              rc_auditEventId = map_option (\<lambda>e. str_of (field e ''id'')) event\<rparr>;
            s2 = s1\<lparr>ap_trail := trail, ap_receipts := map_set (ex_receiptId ex) receipt (ap_receipts s),
              ap_receiptsByIntent := map_set (it_id intent) (ex_receiptId ex) (ap_receiptsByIntent s)\<rparr>
        in (case error of Some m \<Rightarrow> Err (Execution_Failed m) | None \<Rightarrow> Ok (output, receipt), s2))"

section \<open>Queries\<close>

definition getIntent :: "approvals \<Rightarrow> string \<Rightarrow> intent_request option" where
  "getIntent s i = map_option (object s) (map_get (ap_intents s) i)"

definition getReceipt :: "approvals \<Rightarrow> string \<Rightarrow> approval_receipt option" where
  "getReceipt s i = map_get (ap_receipts s) i"

definition getReceiptByIntent :: "approvals \<Rightarrow> string \<Rightarrow> approval_receipt option" where
  "getReceiptByIntent s i =
     (case map_get (ap_receiptsByIntent s) i of
        Some rid \<Rightarrow> if rid = [] then None else map_get (ap_receipts s) rid
      | None \<Rightarrow> None)"

text \<open>Most recent first; the sort is stable.\<close>

definition listReceipts :: "approvals \<Rightarrow> string option \<Rightarrow> intent_status option \<Rightarrow> approval_receipt list" where
  "listReceipts s action status =
     sort_key (\<lambda>r. - rc_executedAt r)
       (filter (\<lambda>r. status = None \<or> status = Some (rc_status r))
         (filter (\<lambda>r. given action (\<lambda>a. rc_action r = a)) (map_values (ap_receipts s))))"

definition listPendingIntents :: "approvals \<Rightarrow> int \<Rightarrow> intent_request list" where
  "listPendingIntents s now =
     filter (\<lambda>i. it_status i = Intent_Pending \<and> it_expiresAt i > now) (map (object s) (map_values (ap_intents s)))"

definition intent_isExpired :: "int \<Rightarrow> intent_request \<Rightarrow> bool" where
  "intent_isExpired now intent = (it_status intent = Intent_Expired \<or> now > it_expiresAt intent)"

section \<open>Protected actions\<close>

record protected_request =
  pr_action :: string
  pr_target :: string
  pr_parameters :: "parameters option"
  pr_approvalId :: string
  pr_executor :: string

record protected_options =
  po_authorizedMaintainers :: "string list option"
  po_requireSignerAsExecutor :: bool

datatype protected_error =
    Approval_Not_Found | Approval_Not_Ready | Approval_Expired | Already_Executed | Action_Mismatch
  | Target_Mismatch | Parameter_Mismatch | Unauthorized_Actor

datatype param_check = Params_Match | Params_Differ string | Params_Throw

text \<open>\<open>undefined\<close> has no JSON text, which differs from every text.\<close>

definition value_text :: "json \<Rightarrow> string option" where
  "value_text v = (if v = JUndef then None else Some (plain_text (json_clone v)))"

fun check_params :: "parameters \<Rightarrow> parameters \<Rightarrow> param_check" where
  "check_params ps [] = Params_Match"
| "check_params ps ((key, val) # rest) =
     (if \<not> no_big (field (JObj ps) key) \<or> \<not> no_big val then Params_Throw
      else if value_text (field (JObj ps) key) \<noteq> value_text val then Params_Differ key
      else check_params ps rest)"

definition protected_errors :: "protected_error \<Rightarrow> string" where
  "protected_errors e =
     (case e of
        Approval_Not_Found \<Rightarrow> ''approval_not_found'' | Approval_Not_Ready \<Rightarrow> ''approval_not_ready''
      | Approval_Expired \<Rightarrow> ''approval_expired'' | Already_Executed \<Rightarrow> ''already_executed''
      | Action_Mismatch \<Rightarrow> ''action_mismatch'' | Target_Mismatch \<Rightarrow> ''target_mismatch''
      | Parameter_Mismatch \<Rightarrow> ''parameter_mismatch'' | Unauthorized_Actor \<Rightarrow> ''unauthorized_actor'')"

definition verifyProtectedAction ::
  "stellar_sdk \<Rightarrow> approvals \<Rightarrow> int \<Rightarrow> protected_request \<Rightarrow> protected_options \<Rightarrow>
     (intent_request, protected_error) result js_call \<times> approvals" where
  "verifyProtectedAction sdk s now request options =
     (if \<not> isValidEd25519PublicKey sdk (pr_executor request) then (Returns (Err Unauthorized_Actor), s)
      else if (case po_authorizedMaintainers options of Some ms \<Rightarrow> pr_executor request \<notin> set ms | None \<Rightarrow> False)
      then (Returns (Err Unauthorized_Actor), s)
      else case map_get (ap_intents s) (pr_approvalId request) of
        None \<Rightarrow> (Returns (Err Approval_Not_Found), s)
      | Some r \<Rightarrow>
          let intent = object s r in
          if po_requireSignerAsExecutor options \<and>
             \<not> (list_ex (\<lambda>g. sg_signer g = pr_executor request) (it_signatures intent) \<or>
                it_requestedBy intent = pr_executor request)
          then (Returns (Err Unauthorized_Actor), s)
          else if it_status intent = Intent_Executed \<or> it_status intent = Intent_Executing \<or>
             map_get (ap_receiptsByIntent s) (pr_approvalId request) \<noteq> None
          then (Returns (Err Already_Executed), s)
          else if intent_isExpired now intent
          then (Returns (Err Approval_Expired), set_status r Intent_Expired s)
          else if it_status intent \<noteq> Intent_Approved then (Returns (Err Approval_Not_Ready), s)
          else if it_action intent \<noteq> pr_action request then (Returns (Err Action_Mismatch), s)
          else if it_target intent \<noteq> pr_target request then (Returns (Err Target_Mismatch), s)
          else (case check_params (it_parameters intent) (case pr_parameters request of Some ps \<Rightarrow> ps | None \<Rightarrow> []) of
              Params_Match \<Rightarrow> (Returns (Ok intent), s)
            | Params_Differ _ \<Rightarrow> (Returns (Err Parameter_Mismatch), s)
            | Params_Throw \<Rightarrow> (Throws_TypeError, s)))"

definition executeProtectedAction_begin ::
  "stellar_sdk \<Rightarrow> approvals \<Rightarrow> int \<Rightarrow> int \<Rightarrow> int \<Rightarrow> string \<Rightarrow> protected_request \<Rightarrow> protected_options \<Rightarrow>
     (execution, approval_error) result \<times> approvals" where
  "executeProtectedAction_begin sdk s verifyTime now startTime rnd request options =
     (case verifyProtectedAction sdk s verifyTime request options of
        (Throws_TypeError, s') \<Rightarrow> (Err Protected_Throws, s')
      | (Returns (Err e), s') \<Rightarrow> (Err (Protected_Rejected (protected_errors e)), s')
      | (Returns (Ok _), s') \<Rightarrow>
          executeIntent_begin sdk s' now startTime rnd (pr_approvalId request) (pr_executor request))"

definition approvals_reset :: "approvals \<Rightarrow> approvals" where
  "approvals_reset s = s\<lparr>ap_intents := [], ap_receipts := [], ap_receiptsByIntent := []\<rparr>"

end
