(* ===== verification/Approval_Runs.thy ===== *)
theory Approval_Runs
  imports Maintainer_Approval
begin

text \<open>
  Runs of the approval manager: proposals, signatures, executions and their handlers in
  any interleaving, resets and colliding random ids included.
\<close>

section \<open>Runs\<close>

datatype approval_event =
    Propose int string string propose_params
  | Sign int int string string string
  | Begin int int string string string
  | Settle nat int int int action_outcome
  | Verify int protected_request protected_options
  | Begin_Protected int int int string protected_request protected_options
  | Reset_Approvals

fun begun ::
  "stellar_sdk \<Rightarrow> approvals \<Rightarrow> approval_event \<Rightarrow> ((execution, approval_error) result \<times> approvals) option" where
  "begun sdk s (Begin now start rnd i pk) = Some (executeIntent_begin sdk s now start rnd i pk)"
| "begun sdk s (Begin_Protected vt now start rnd req opts) =
     Some (executeProtectedAction_begin sdk s vt now start rnd req opts)"
| "begun sdk s _ = None"

fun approval_step ::
  "stellar_sdk \<Rightarrow> int option \<Rightarrow> (string \<Rightarrow> bool) \<Rightarrow> (nat \<Rightarrow> string) \<Rightarrow> approvals \<Rightarrow> approval_event \<Rightarrow> approvals" where
  "approval_step sdk expiry dp gen s (Propose now nonce rnd params) = snd (proposeIntent sdk expiry s now nonce rnd params)"
| "approval_step sdk expiry dp gen s (Sign now at i pk sig) = snd (signIntent sdk s now at i pk sig)"
| "approval_step sdk expiry dp gen s (Begin now start rnd i pk) = snd (executeIntent_begin sdk s now start rnd i pk)"
| "approval_step sdk expiry dp gen s (Settle i t1 t2 wall out) = snd (executeIntent_settle dp gen s i t1 t2 wall out)"
| "approval_step sdk expiry dp gen s (Verify now req opts) = snd (verifyProtectedAction sdk s now req opts)"
| "approval_step sdk expiry dp gen s (Begin_Protected vt now start rnd req opts) =
     snd (executeProtectedAction_begin sdk s vt now start rnd req opts)"
| "approval_step sdk expiry dp gen s Reset_Approvals = approvals_reset s"

definition fresh_approvals :: "audit_trail \<Rightarrow> approvals" where
  "fresh_approvals t = \<lparr>ap_objects = [], ap_intents = [], ap_receipts = [], ap_receiptsByIntent = [],
     ap_running = [], ap_trail = t\<rparr>"

section \<open>The invariant\<close>

definition spent_status :: "intent_status \<Rightarrow> bool" where
  "spent_status st = (st \<in> {Intent_Executing, Intent_Executed, Intent_Failed})"

definition intent_hash_of :: "intent_request \<Rightarrow> string option" where
  "intent_hash_of i = computeCanonicalIntentHash (it_action i) (it_target i) (it_parameters i) (it_reason i)
     (it_requestedBy i) (it_nonce i) (it_requestedAt i) (it_expiresAt i)"

text \<open>An intent commits to its content, and leaves the pending state only with enough signatures.\<close>

definition endorsed :: "stellar_sdk \<Rightarrow> intent_request \<Rightarrow> bool" where
  "endorsed sdk i =
     (distinct (map sg_signer (it_signatures i)) \<and>
      list_all (\<lambda>g. verifyMaintainerSignature sdk (sg_signer g) (it_intentHash i) (sg_signature g)) (it_signatures i) \<and>
      it_signatures i \<noteq> [] \<and> int (length (it_signatures i)) \<ge> it_requiredSignatures i)"

definition intent_ok :: "stellar_sdk \<Rightarrow> intent_request \<Rightarrow> bool" where
  "intent_ok sdk i =
     (intent_hash_of i = Some (it_intentHash i) \<and> distinct (map sg_signer (it_signatures i)) \<and>
      list_all (\<lambda>g. verifyMaintainerSignature sdk (sg_signer g) (it_intentHash i) (sg_signature g)) (it_signatures i) \<and>
      (it_status i = Intent_Approved \<or> spent_status (it_status i) \<longrightarrow> endorsed sdk i))"

text \<open>A receipt and the intent it is for.\<close>

definition receipt_for :: "approval_receipt \<Rightarrow> intent_request \<Rightarrow> bool" where
  "receipt_for rc i =
     (rc_intentId rc = it_id i \<and> rc_intentHash rc = it_intentHash i \<and> rc_action rc = it_action i \<and>
      rc_target rc = it_target i \<and> rc_parameters rc = it_parameters i \<and> rc_reason rc = it_reason i \<and>
      rc_requestedBy rc = it_requestedBy i \<and> rc_signers rc = map sg_signer (it_signatures i) \<and>
      rc_status rc = it_status i \<and> it_status i \<in> {Intent_Executed, Intent_Failed})"

definition refs_ok :: "approvals \<Rightarrow> bool" where
  "refs_ok s =
     ((\<forall>k r. map_get (ap_intents s) k = Some r \<longrightarrow>
         r < length (ap_objects s) \<and> it_id (object s r) = k \<and>
         (it_status (object s r) \<in> {Intent_Executed, Intent_Failed} \<longrightarrow> map_get (ap_receiptsByIntent s) k \<noteq> None)) \<and>
      distinct (map ex_ref (ap_running s)) \<and>
      list_all (\<lambda>x. ex_ref x < length (ap_objects s) \<and> it_status (object s (ex_ref x)) = Intent_Executing) (ap_running s))"

definition approvals_ok :: "stellar_sdk \<Rightarrow> approvals \<Rightarrow> bool" where
  "approvals_ok sdk s =
     (list_all (intent_ok sdk) (ap_objects s) \<and> refs_ok s \<and>
      (\<forall>k rc. map_get (ap_receipts s) k = Some rc \<longrightarrow> (\<exists>i \<in> set (ap_objects s). receipt_for rc i)))"

lemma object_update: "r < length (ap_objects s) \<Longrightarrow> object (update_object r f s) r' = (if r' = r then f (object s r) else object s r')"
  by (simp add: object_def update_object_def nth_list_update)

lemma update_fields [simp]:
  "ap_intents (update_object r f s) = ap_intents s" "ap_receipts (update_object r f s) = ap_receipts s"
  "ap_receiptsByIntent (update_object r f s) = ap_receiptsByIntent s" "ap_running (update_object r f s) = ap_running s"
  "length (ap_objects (update_object r f s)) = length (ap_objects s)" "ap_trail (update_object r f s) = ap_trail s"
  by (simp_all add: update_object_def)

lemma refsD:
  "refs_ok s \<Longrightarrow> map_get (ap_intents s) k = Some r \<Longrightarrow> r < length (ap_objects s)"
  "refs_ok s \<Longrightarrow> map_get (ap_intents s) k = Some r \<Longrightarrow> it_id (object s r) = k"
  "refs_ok s \<Longrightarrow> map_get (ap_intents s) k = Some r \<Longrightarrow> it_status (object s r) \<in> {Intent_Executed, Intent_Failed} \<Longrightarrow>
     map_get (ap_receiptsByIntent s) k \<noteq> None"
  unfolding refs_ok_def by blast+

lemma objectD: "list_all P (ap_objects s) \<Longrightarrow> r < length (ap_objects s) \<Longrightarrow> P (object s r)"
  by (simp add: list_all_length object_def)

lemma objects_update: "list_all P (ap_objects s) \<Longrightarrow> P (f (object s r)) \<Longrightarrow> list_all P (ap_objects (update_object r f s))"
  by (auto simp: update_object_def list_all_iff dest: set_update_subset_insert [THEN subsetD])

text \<open>Receipts survive a change to an object that has none.\<close>

lemma receipts_update:
  assumes "\<exists>i \<in> set (ap_objects s). receipt_for rc i" "it_status (object s r) \<notin> {Intent_Executed, Intent_Failed}"
  shows "\<exists>i \<in> set (ap_objects (update_object r f s)). receipt_for rc i"
proof -
  from assms(1) obtain n where n: "n < length (ap_objects s)" "receipt_for rc (ap_objects s ! n)"
    by (auto simp: in_set_conv_nth)
  with assms(2) have "n \<noteq> r" by (auto simp: receipt_for_def object_def)
  then have "ap_objects (update_object r f s) ! n = ap_objects s ! n" by (simp add: update_object_def)
  with n show ?thesis by (metis nth_mem update_fields(5))
qed

lemma update_ok:
  assumes "approvals_ok sdk s" "r < length (ap_objects s)" "intent_ok sdk (f (object s r))"
    "it_id (f (object s r)) = it_id (object s r)" "\<not> spent_status (it_status (object s r))"
    "\<not> spent_status (it_status (f (object s r)))"
  shows "approvals_ok sdk (update_object r f s)"
proof -
  from assms(1) have s: "list_all (intent_ok sdk) (ap_objects s)" "refs_ok s"
    and rc: "\<And>k rc. map_get (ap_receipts s) k = Some rc \<Longrightarrow> \<exists>i \<in> set (ap_objects s). receipt_for rc i"
    by (auto simp: approvals_ok_def)
  have "refs_ok (update_object r f s)"
    using s(2) assms(4-6) unfolding refs_ok_def list_all_iff
    by (auto simp: object_update [OF assms(2)] spent_status_def)
  moreover have "\<exists>i \<in> set (ap_objects (update_object r f s)). receipt_for rc i"
    if "map_get (ap_receipts s) k = Some rc" for k rc
    using receipts_update [OF rc [OF that], of r] assms(5) by (auto simp: spent_status_def)
  ultimately show ?thesis using objects_update [OF s(1), of f r] assms(3) by (simp add: approvals_ok_def)
qed

lemma expire_ok:
  "approvals_ok sdk s \<Longrightarrow> r < length (ap_objects s) \<Longrightarrow> \<not> spent_status (it_status (object s r)) \<Longrightarrow>
     approvals_ok sdk (set_status r Intent_Expired s)"
  unfolding set_status_def
  by (rule update_ok) (auto simp: approvals_ok_def intent_ok_def intent_hash_of_def spent_status_def dest: objectD [where r = r])

section \<open>Every operation keeps it\<close>

lemma propose_result:
  assumes "proposeIntent sdk expiry s now nonce rnd params = (Ok i, s')"
  shows "s' = s\<lparr>ap_objects := ap_objects s @ [i], ap_intents := map_set (it_id i) (length (ap_objects s)) (ap_intents s)\<rparr> \<and>
    it_status i = Intent_Pending \<and> it_signatures i = [] \<and> intent_hash_of i = Some (it_intentHash i)"
  using assms
  by (auto simp: proposeIntent_def Let_def intent_hash_of_def split: if_splits option.splits)

lemma propose_error: "proposeIntent sdk expiry s now nonce rnd params = (Err e, s') \<Longrightarrow> s' = s"
  by (auto simp: proposeIntent_def Let_def split: if_splits option.splits)

lemma propose_ok:
  assumes "approvals_ok sdk s"
  shows "approvals_ok sdk (snd (proposeIntent sdk expiry s now nonce rnd params))"
proof (cases "proposeIntent sdk expiry s now nonce rnd params")
  case (Pair res s')
  show ?thesis
  proof (cases res)
    case (Ok i)
    from propose_result [OF Pair [unfolded Ok]]
    have new: "it_status i = Intent_Pending" "it_signatures i = []" "intent_hash_of i = Some (it_intentHash i)"
      and s': "ap_objects s' = ap_objects s @ [i]" "ap_running s' = ap_running s" "ap_receipts s' = ap_receipts s"
      "ap_receiptsByIntent s' = ap_receiptsByIntent s"
      "ap_intents s' = map_set (it_id i) (length (ap_objects s)) (ap_intents s)" by simp_all
    have old: "object s' r = object s r" if "r < length (ap_objects s)" for r
      using that by (simp add: object_def s' nth_append)
    have last: "object s' (length (ap_objects s)) = i" by (simp add: object_def s')
    have "refs_ok s'"
      using assms new unfolding approvals_ok_def refs_ok_def list_all_iff s'
      by (auto simp: map_get_set old last less_Suc_eq)
    moreover have "intent_ok sdk i" using new by (simp add: intent_ok_def spent_status_def)
    ultimately show ?thesis using assms Pair by (auto simp: approvals_ok_def s')
  next
    case (Err e)
    then show ?thesis using assms propose_error [OF Pair [unfolded Err]] Pair by simp
  qed
qed

lemma sign_ok:
  assumes "approvals_ok sdk s"
  shows "approvals_ok sdk (snd (signIntent sdk s now at k pk sig))"
proof (cases "map_get (ap_intents s) k")
  case None
  with assms show ?thesis by (simp add: signIntent_def)
next
  case (Some r)
  let ?i = "object s r"
  let ?g = "\<lparr>sg_signer = pk, sg_signature = sig, sg_signedAt = at\<rparr>"
  let ?signed = "?i\<lparr>it_signatures := it_signatures ?i @ [?g]\<rparr>"
  let ?new = "if int (length (it_signatures ?signed)) \<ge> it_requiredSignatures ?signed
    then ?signed\<lparr>it_status := Intent_Approved\<rparr> else ?signed"
  have r: "r < length (ap_objects s)" using assms Some refsD(1) by (auto simp: approvals_ok_def)
  have ok: "intent_ok sdk ?i" using assms r objectD by (auto simp: approvals_ok_def)
  consider "it_status ?i \<noteq> Intent_Pending \<or> now \<le> it_expiresAt ?i \<and>
      (\<not> verifyMaintainerSignature sdk pk (it_intentHash ?i) sig \<or> list_ex (\<lambda>g. sg_signer g = pk) (it_signatures ?i))"
    | "it_status ?i = Intent_Pending" "now > it_expiresAt ?i"
    | "it_status ?i = Intent_Pending" "\<not> now > it_expiresAt ?i" "verifyMaintainerSignature sdk pk (it_intentHash ?i) sig"
      "\<not> list_ex (\<lambda>g. sg_signer g = pk) (it_signatures ?i)"
    by fastforce
  then show ?thesis
  proof cases
    case 1
    then have "snd (signIntent sdk s now at k pk sig) = s" using Some by (auto simp: signIntent_def Let_def)
    with assms show ?thesis by simp
  next
    case 2
    then have "snd (signIntent sdk s now at k pk sig) = set_status r Intent_Expired s"
      using Some by (simp add: signIntent_def Let_def)
    with 2 expire_ok [OF assms r] show ?thesis by (simp add: spent_status_def)
  next
    case 3
    have "snd (signIntent sdk s now at k pk sig) = update_object r (\<lambda>_. ?new) s"
      unfolding signIntent_def Some option.case Let_def using 3 by (simp only: if_False if_True simp_thms snd_conv)
    moreover have "pk \<notin> set (map sg_signer (it_signatures ?i))" using 3(4) by (auto simp: list_ex_iff)
    then have "intent_ok sdk ?new" using ok 3 by (auto simp: intent_ok_def endorsed_def intent_hash_of_def spent_status_def)
    ultimately show ?thesis
      using 3(1) update_ok [OF assms r, of "\<lambda>_. ?new"] by (simp add: spent_status_def)
  qed
qed

text \<open>The state in which an execution starts.\<close>

lemma begin_result:
  assumes "executeIntent_begin sdk s now start rnd k pk = (Ok ex, s')"
  shows "map_get (ap_intents s) k = Some (ex_ref ex) \<and> it_status (object s (ex_ref ex)) = Intent_Approved \<and>
    now \<le> it_expiresAt (object s (ex_ref ex)) \<and> isValidEd25519PublicKey sdk pk \<and>
    s' = (set_status (ex_ref ex) Intent_Executing s)\<lparr>ap_running := ap_running s @ [ex]\<rparr>"
  using assms by (auto simp: executeIntent_begin_def Let_def split: if_splits option.splits)

lemma begin_error:
  assumes "executeIntent_begin sdk s now start rnd k pk = (Err e, s')"
  shows "s' = s \<or> (\<exists>r. map_get (ap_intents s) k = Some r \<and> it_status (object s r) = Intent_Approved \<and>
    s' = set_status r Intent_Expired s)"
  using assms by (auto simp: executeIntent_begin_def Let_def split: if_splits option.splits)

lemma begin_ok:
  assumes "approvals_ok sdk s"
  shows "approvals_ok sdk (snd (executeIntent_begin sdk s now start rnd k pk))"
proof (cases "executeIntent_begin sdk s now start rnd k pk")
  case (Pair res s')
  show ?thesis
  proof (cases res)
    case (Ok ex)
    note b = begin_result [OF Pair [unfolded Ok]]
    let ?r = "ex_ref ex" and ?u = "set_status (ex_ref ex) Intent_Executing s"
    have r: "?r < length (ap_objects s)" using assms b refsD(1) by (auto simp: approvals_ok_def)
    have "intent_ok sdk (object s ?r)" using assms r objectD by (auto simp: approvals_ok_def)
    then have "intent_ok sdk ((object s ?r)\<lparr>it_status := Intent_Executing\<rparr>)"
      using b by (simp add: intent_ok_def endorsed_def intent_hash_of_def)
    then have objs: "list_all (intent_ok sdk) (ap_objects ?u)"
      using assms objects_update unfolding set_status_def by (auto simp: approvals_ok_def)
    have idle: "?r \<notin> set (map ex_ref (ap_running s))"
      using assms b by (auto simp: approvals_ok_def refs_ok_def list_all_iff)
    have refs: "refs_ok (?u\<lparr>ap_running := ap_running s @ [ex]\<rparr>)"
      using assms b r idle unfolding approvals_ok_def refs_ok_def list_all_iff set_status_def
      by (auto simp: object_update [OF r] object_def [of "_\<lparr>ap_running := _\<rparr>"] object_def [symmetric])
    have "\<exists>i \<in> set (ap_objects ?u). receipt_for rc i" if "map_get (ap_receipts s) n = Some rc" for n rc
      using receipts_update [of s rc ?r] that assms b unfolding set_status_def by (auto simp: approvals_ok_def)
    then show ?thesis using Pair b objs refs by (simp add: approvals_ok_def set_status_def)
  next
    case (Err e)
    from begin_error [OF Pair [unfolded Err]] show ?thesis
      using assms Pair expire_ok [OF assms] refsD(1) by (auto simp: approvals_ok_def spent_status_def)
  qed
qed

lemma verify_state:
  assumes "verifyProtectedAction sdk s now req opts = (res, s')" "refs_ok s"
  shows "s' = s \<or> (\<exists>r. map_get (ap_intents s) (pr_approvalId req) = Some r \<and> \<not> spent_status (it_status (object s r)) \<and>
    s' = set_status r Intent_Expired s)"
proof (cases "s' = s")
  case False
  with assms(1) obtain r where r: "map_get (ap_intents s) (pr_approvalId req) = Some r"
    "it_status (object s r) \<noteq> Intent_Executed" "it_status (object s r) \<noteq> Intent_Executing"
    "map_get (ap_receiptsByIntent s) (pr_approvalId req) = None" "s' = set_status r Intent_Expired s"
    by (auto simp: verifyProtectedAction_def Let_def split: if_splits option.splits param_check.splits)
  moreover have "it_status (object s r) \<noteq> Intent_Failed"
    using refsD(3) [OF assms(2) r(1)] r(4) by auto
  ultimately show ?thesis by (auto simp: spent_status_def)
qed simp

lemma verify_ok:
  assumes "approvals_ok sdk s"
  shows "approvals_ok sdk (snd (verifyProtectedAction sdk s now req opts))"
proof -
  have "refs_ok s" using assms by (simp add: approvals_ok_def)
  from verify_state [OF prod.collapse [symmetric] this] refsD(1) [OF this] expire_ok [OF assms] assms
  show ?thesis by metis
qed

lemma protected_cases:
  obtains "snd (executeProtectedAction_begin sdk s vt now start rnd req opts) = snd (verifyProtectedAction sdk s vt req opts)"
      "\<nexists>ex. fst (executeProtectedAction_begin sdk s vt now start rnd req opts) = Ok ex"
    | i where "fst (verifyProtectedAction sdk s vt req opts) = Returns (Ok i)"
      "executeProtectedAction_begin sdk s vt now start rnd req opts =
        executeIntent_begin sdk (snd (verifyProtectedAction sdk s vt req opts)) now start rnd (pr_approvalId req) (pr_executor req)"
proof (cases "verifyProtectedAction sdk s vt req opts")
  case (Pair res s')
  note call = executeProtectedAction_begin_def [of sdk s vt now start rnd req opts, unfolded Pair prod.case]
  show ?thesis
  proof (cases "\<exists>i. res = Returns (Ok i)")
    case True
    then show ?thesis using that(2) Pair call by auto
  next
    case False
    then show ?thesis using that(1) Pair call by (cases res) (auto split: result.splits)
  qed
qed

lemma protected_ok:
  "approvals_ok sdk s \<Longrightarrow> approvals_ok sdk (snd (executeProtectedAction_begin sdk s vt now start rnd req opts))"
  by (rule protected_cases [of sdk s vt now start rnd req opts]) (simp_all add: verify_ok begin_ok)

lemma reset_approvals_ok: "approvals_ok sdk s \<Longrightarrow> approvals_ok sdk (approvals_reset s)"
  by (simp add: approvals_ok_def approvals_reset_def refs_ok_def list_all_iff object_def)

definition settled_status :: "action_outcome \<Rightarrow> intent_status" where
  "settled_status out = (case out of Handler_Returned _ \<Rightarrow> Intent_Executed | Handler_Threw _ \<Rightarrow> Intent_Failed)"

lemma settle_result:
  assumes "i < length (ap_running s)" "ex_ref (ap_running s ! i) < length (ap_objects s)"
  defines "ex \<equiv> ap_running s ! i"
  shows "\<exists>rc trail. snd (executeIntent_settle dp gen s i t1 t2 wall out) =
      (set_status (ex_ref ex) (settled_status out) s)
        \<lparr>ap_running := take i (ap_running s) @ drop (i + 1) (ap_running s), ap_trail := trail,
         ap_receipts := map_set (ex_receiptId ex) rc (ap_receipts s),
         ap_receiptsByIntent := map_set (it_id (object s (ex_ref ex))) (ex_receiptId ex) (ap_receiptsByIntent s)\<rparr> \<and>
    receipt_for rc ((object s (ex_ref ex))\<lparr>it_status := settled_status out\<rparr>)"
proof -
  have obj: "object ((set_status (ex_ref ex) st s)\<lparr>ap_running := x\<rparr>) (ex_ref ex) = (object s (ex_ref ex))\<lparr>it_status := st\<rparr>" for st x
    using assms(2) by (simp add: set_status_def object_def update_object_def ex_def)
  show ?thesis
    using assms(1)
    by (cases out) (auto simp: executeIntent_settle_def Let_def split_beta settled_status_def obj [unfolded ex_def] ex_def receipt_for_def)
qed

lemma settle_ok:
  assumes "approvals_ok sdk s"
  shows "approvals_ok sdk (snd (executeIntent_settle dp gen s i t1 t2 wall out))"
proof (cases "i < length (ap_running s)")
  case False
  with assms show ?thesis by (simp add: executeIntent_settle_def)
next
  case True
  define ex r where "ex = ap_running s ! i" and "r = ex_ref ex"
  from assms have s: "list_all (intent_ok sdk) (ap_objects s)" "refs_ok s"
    and rcs: "\<And>k rc. map_get (ap_receipts s) k = Some rc \<Longrightarrow> \<exists>i \<in> set (ap_objects s). receipt_for rc i"
    by (auto simp: approvals_ok_def)
  have "ex \<in> set (ap_running s)" using True by (simp add: ex_def)
  with s(2) have r: "r < length (ap_objects s)" "it_status (object s r) = Intent_Executing"
    by (auto simp: refs_ok_def list_all_iff r_def)
  let ?new = "(object s r)\<lparr>it_status := settled_status out\<rparr>" and ?u = "set_status r (settled_status out) s"
  let ?rest = "take i (ap_running s) @ drop (i + 1) (ap_running s)"
  from settle_result [OF True r(1) [unfolded r_def ex_def]] obtain rc trail where
    st: "snd (executeIntent_settle dp gen s i t1 t2 wall out) =
      ?u\<lparr>ap_running := ?rest, ap_trail := trail, ap_receipts := map_set (ex_receiptId ex) rc (ap_receipts s),
         ap_receiptsByIntent := map_set (it_id (object s r)) (ex_receiptId ex) (ap_receiptsByIntent s)\<rparr>"
    and rc: "receipt_for rc ?new" unfolding r_def ex_def by blast
  have spent: "settled_status out \<in> {Intent_Executed, Intent_Failed}" by (cases out) (simp_all add: settled_status_def)
  have new: "?new \<in> set (ap_objects ?u)"
    using r(1) by (simp add: set_status_def update_object_def set_update_memI)
  have "intent_ok sdk (object s r)" using s(1) r(1) objectD by blast
  then have "intent_ok sdk ?new" using r(2) by (auto simp: intent_ok_def endorsed_def intent_hash_of_def spent_status_def)
  then have objs: "list_all (intent_ok sdk) (ap_objects ?u)"
    using objects_update [OF s(1)] by (simp add: set_status_def)
  have split: "ap_running s = take i (ap_running s) @ ex # drop (i + 1) (ap_running s)"
    using True id_take_nth_drop [of i "ap_running s"] by (simp add: ex_def)
  have "distinct (map ex_ref (take i (ap_running s) @ ex # drop (i + 1) (ap_running s)))"
    using s(2) split by (simp add: refs_ok_def)
  then have rest: "distinct (map ex_ref ?rest)" "r \<notin> ex_ref ` set ?rest" "set ?rest \<subseteq> set (ap_running s)"
    by (auto simp: r_def dest: in_set_takeD in_set_dropD)
  have refs: "refs_ok t" if t: "ap_intents t = ap_intents s" "ap_running t = ?rest" "ap_objects t = ap_objects ?u"
      "ap_receiptsByIntent t = map_set (it_id (object s r)) (ex_receiptId ex) (ap_receiptsByIntent s)" for t
  proof -
    have obj: "object t r' = (if r' = r then ?new else object s r')" for r'
      using r(1) by (simp add: object_def t set_status_def update_object_def nth_list_update)
    have len: "length (ap_objects t) = length (ap_objects s)" by (simp add: t set_status_def)
    have ids: "it_id (object t r') = it_id (object s r')" for r' by (simp add: obj)
    have keyed: "map_get (ap_receiptsByIntent t) k \<noteq> None"
      if "map_get (ap_intents s) k = Some r'" "it_status (object t r') \<in> {Intent_Executed, Intent_Failed}" for k r'
      using that refsD(2,3) [OF s(2) that(1)] by (cases "r' = r") (auto simp: t(4) map_get_set obj)
    have "ex_ref x < length (ap_objects s) \<and> it_status (object t (ex_ref x)) = Intent_Executing" if "x \<in> set ?rest" for x
    proof -
      have "x \<in> set (ap_running s)" "ex_ref x \<noteq> r" using that rest(2,3) by blast+
      then show ?thesis using s(2) by (simp add: refs_ok_def list_all_iff obj)
    qed
    then show ?thesis
      unfolding refs_ok_def t(1,2) len ids list_all_iff using refsD(1,2) [OF s(2)] keyed rest(1) by blast
  qed
  have "\<exists>i \<in> set (ap_objects ?u). receipt_for x i"
    if "map_get (map_set (ex_receiptId ex) rc (ap_receipts s)) k = Some x" for k x
  proof (cases "k = ex_receiptId ex")
    case True
    with that rc new show ?thesis by auto
  next
    case False
    with that rcs receipts_update [of s x r] r(2) show ?thesis by (auto simp: set_status_def)
  qed
  then show ?thesis unfolding st approvals_ok_def using objs by (auto intro!: refs) (simp_all add: set_status_def)
qed

lemma approval_step_ok: "approvals_ok sdk s \<Longrightarrow> approvals_ok sdk (approval_step sdk expiry dp gen s e)"
  by (cases e) (simp_all add: propose_ok sign_ok begin_ok settle_ok verify_ok protected_ok reset_approvals_ok)

lemma fresh_approvals_ok: "approvals_ok sdk (fresh_approvals t)"
  by (simp add: approvals_ok_def fresh_approvals_def refs_ok_def)

section \<open>Spent intents\<close>

definition spent :: "approvals \<Rightarrow> nat set" where
  "spent s = {r. r < length (ap_objects s) \<and> spent_status (it_status (ap_objects s ! r))}"

lemma spent_iff: "r \<in> spent s \<longleftrightarrow> r < length (ap_objects s) \<and> spent_status (it_status (object s r))"
  by (simp add: spent_def object_def)

lemma spent_cong [simp]:
  "spent (s\<lparr>ap_running := x\<rparr>) = spent s" "spent (s\<lparr>ap_trail := t\<rparr>) = spent s"
  "spent (s\<lparr>ap_receipts := y\<rparr>) = spent s" "spent (s\<lparr>ap_receiptsByIntent := z\<rparr>) = spent s"
  "spent (s\<lparr>ap_intents := w\<rparr>) = spent s"
  by (simp_all add: spent_def)

lemma spent_update:
  "(spent_status (it_status (object s r)) \<longrightarrow> spent_status (it_status (f (object s r)))) \<Longrightarrow>
     spent s \<subseteq> spent (update_object r f s)"
proof
  fix x
  assume "spent_status (it_status (object s r)) \<longrightarrow> spent_status (it_status (f (object s r)))" "x \<in> spent s"
  then show "x \<in> spent (update_object r f s)"
    by (cases "x = r") (auto simp: spent_def update_object_def object_def)
qed

lemma spent_begin:
  "executeIntent_begin sdk s now start rnd k pk = (res, s') \<Longrightarrow> refs_ok s \<Longrightarrow>
     spent s \<subseteq> spent s' \<and> (\<forall>ex. res = Ok ex \<longrightarrow> ex_ref ex \<notin> spent s \<and> ex_ref ex \<in> spent s')"
proof (cases res)
  case (Ok ex)
  assume call: "executeIntent_begin sdk s now start rnd k pk = (res, s')" and refs: "refs_ok s"
  note b = begin_result [OF call [unfolded Ok]]
  then have r: "ex_ref ex < length (ap_objects s)" using refsD(1) [OF refs] by blast
  then show ?thesis
    using b spent_update [of s "ex_ref ex" "\<lambda>i. i\<lparr>it_status := Intent_Executing\<rparr>"] Ok
    by (auto simp: set_status_def spent_iff object_update [OF r] spent_status_def)
next
  case (Err e)
  assume call: "executeIntent_begin sdk s now start rnd k pk = (res, s')" and refs: "refs_ok s"
  have "spent s \<subseteq> spent (set_status r Intent_Expired s)" if "it_status (object s r) = Intent_Approved" for r
    unfolding set_status_def using that by (intro spent_update) (simp add: spent_status_def)
  with begin_error [OF call [unfolded Err]] Err show ?thesis by auto
qed

lemma spent_verify:
  assumes "refs_ok s"
  shows "spent s \<subseteq> spent (snd (verifyProtectedAction sdk s now req opts))"
  using verify_state [OF prod.collapse [symmetric] assms, of sdk now req opts]
    spent_update [of s _ "\<lambda>i. i\<lparr>it_status := Intent_Expired\<rparr>"] unfolding set_status_def by (metis order_refl)

definition started :: "stellar_sdk \<Rightarrow> approvals \<Rightarrow> approval_event \<Rightarrow> nat option" where
  "started sdk s e =
     (case begun sdk s e of Some (Ok ex, _) \<Rightarrow> Some (ex_ref ex) | _ \<Rightarrow> None)"

lemma spent_protected:
  assumes "approvals_ok sdk s" "executeProtectedAction_begin sdk s vt now start rnd req opts = (res, s')"
  shows "spent s \<subseteq> spent s' \<and> (\<forall>ex. res = Ok ex \<longrightarrow> ex_ref ex \<notin> spent s \<and> ex_ref ex \<in> spent s')"
proof -
  let ?v = "snd (verifyProtectedAction sdk s vt req opts)"
  have refs: "refs_ok s" "refs_ok ?v" using assms(1) verify_ok by (auto simp: approvals_ok_def)
  note v = spent_verify [OF refs(1), of sdk vt req opts]
  show ?thesis
  proof (rule protected_cases [of sdk s vt now start rnd req opts])
    assume "snd (executeProtectedAction_begin sdk s vt now start rnd req opts) = ?v"
      "\<nexists>ex. fst (executeProtectedAction_begin sdk s vt now start rnd req opts) = Ok ex"
    with assms(2) v show ?thesis by auto
  next
    fix i
    assume "executeProtectedAction_begin sdk s vt now start rnd req opts =
        executeIntent_begin sdk ?v now start rnd (pr_approvalId req) (pr_executor req)"
    with spent_begin [OF _ refs(2)] assms(2) v show ?thesis by fastforce
  qed
qed

lemma spent_sign: "spent s \<subseteq> spent (snd (signIntent sdk s now at k pk sig))"
  by (auto simp: signIntent_def Let_def set_status_def spent_status_def spent_update [THEN subsetD] split: option.split)

lemma spent_propose: "spent s \<subseteq> spent (snd (proposeIntent sdk expiry s now nonce rnd params))"
  by (auto simp: proposeIntent_def Let_def spent_def nth_append split: option.split)

lemma spent_settle:
  assumes "approvals_ok sdk s"
  shows "spent s \<subseteq> spent (snd (executeIntent_settle dp gen s i t1 t2 wall out))"
proof (cases "i < length (ap_running s)")
  case True
  then have "ap_running s ! i \<in> set (ap_running s)" by simp
  with assms have "ex_ref (ap_running s ! i) < length (ap_objects s)"
    by (auto simp: approvals_ok_def refs_ok_def list_all_iff)
  from settle_result [OF True this, of dp gen t1 t2 wall out] show ?thesis
    using spent_update [of s "ex_ref (ap_running s ! i)" "\<lambda>i. i\<lparr>it_status := settled_status out\<rparr>"]
    by (cases out) (auto simp: set_status_def settled_status_def spent_status_def)
qed (simp add: executeIntent_settle_def)

lemma step_spent: "approvals_ok sdk s \<Longrightarrow> spent s \<subseteq> spent (approval_step sdk expiry dp gen s e)"
proof (cases e)
  case (Begin now start rnd k pk)
  assume "approvals_ok sdk s"
  then have "refs_ok s" by (simp add: approvals_ok_def)
  from spent_begin [OF prod.collapse [symmetric] this, of sdk now start rnd k pk] Begin show ?thesis by simp
next
  case (Verify now req opts)
  assume "approvals_ok sdk s"
  with Verify spent_verify show ?thesis by (simp add: approvals_ok_def)
next
  case (Begin_Protected vt now start rnd req opts)
  assume "approvals_ok sdk s"
  from spent_protected [OF this prod.collapse [symmetric], of vt now start rnd req opts] Begin_Protected
  show ?thesis by simp
next
  case Reset_Approvals
  then show ?thesis by (simp add: approvals_reset_def)
qed (simp_all add: spent_sign spent_propose spent_settle)

interpretation approval_runs: monotone_system "approval_step sdk expiry dp gen" "approvals_ok sdk" "\<lambda>s t. spent s \<subseteq> spent t"
  for sdk expiry dp gen
  by unfold_locales (auto intro: approval_step_ok dest: step_spent [THEN subsetD])

fun starts ::
  "stellar_sdk \<Rightarrow> int option \<Rightarrow> (string \<Rightarrow> bool) \<Rightarrow> (nat \<Rightarrow> string) \<Rightarrow> approvals \<Rightarrow> approval_event list \<Rightarrow> nat list" where
  "starts sdk expiry dp gen s [] = []"
| "starts sdk expiry dp gen s (e # es) =
     (case started sdk s e of Some r \<Rightarrow> [r] | None \<Rightarrow> []) @ starts sdk expiry dp gen (approval_step sdk expiry dp gen s e) es"

lemma started_spent:
  assumes "approvals_ok sdk s" "started sdk s e = Some r"
  shows "r \<notin> spent s" "r \<in> spent (approval_step sdk expiry dp gen s e)"
proof -
  have refs: "refs_ok s" using assms(1) by (simp add: approvals_ok_def)
  have "r \<notin> spent s \<and> r \<in> spent (approval_step sdk expiry dp gen s e)"
  proof (cases e)
    case (Begin now start rnd k pk)
    with assms(2) spent_begin [OF prod.collapse [symmetric] refs, of sdk now start rnd k pk] show ?thesis
      by (auto simp: started_def split: prod.splits result.splits)
  next
    case (Begin_Protected vt now start rnd req opts)
    with assms(2) spent_protected [OF assms(1) prod.collapse [symmetric], of vt now start rnd req opts] show ?thesis
      by (auto simp: started_def split: prod.splits result.splits)
  qed (use assms(2) in \<open>simp_all add: started_def\<close>)
  then show "r \<notin> spent s" "r \<in> spent (approval_step sdk expiry dp gen s e)" by simp_all
qed

lemma starts_fresh:
  "approvals_ok sdk s \<Longrightarrow> distinct (starts sdk expiry dp gen s es) \<and> set (starts sdk expiry dp gen s es) \<inter> spent s = {}"
proof (induction es arbitrary: s)
  case (Cons e es)
  let ?t = "approval_step sdk expiry dp gen s e"
  note IH = Cons.IH [OF approval_step_ok [OF Cons.prems, where expiry = expiry and dp = dp and gen = gen and e = e]]
  note sub = step_spent [OF Cons.prems, where expiry = expiry and dp = dp and gen = gen and e = e]
  show ?case
  proof (cases "started sdk s e")
    case None
    with IH sub show ?thesis by auto
  next
    case (Some r)
    note started_spent(1) [OF Cons.prems Some]
      started_spent(2) [OF Cons.prems Some, where expiry = expiry and dp = dp and gen = gen]
    with IH sub Some show ?thesis by auto
  qed
qed simp

section \<open>Properties\<close>

lemma run_ok: "approvals_ok sdk (foldl (approval_step sdk expiry dp gen) (fresh_approvals t) es)"
  by (rule approval_runs.run_keeps [OF fresh_approvals_ok])

text \<open>
  C5. No intent is executed twice: in every run, with any interleaving of proposals,
  signatures, executions in flight, their handlers' outcomes, verifications and resets,
  and whatever random ids collide, the executions that start are of distinct intents.
\<close>

theorem approval_executes_once: "distinct (starts sdk expiry dp gen (fresh_approvals t) es)"
  using starts_fresh [OF fresh_approvals_ok] by blast

text \<open>
  C6. Every receipt is backed: in every run each stored receipt names an intent of the
  run and agrees with it on action, target, parameters, reason and hash; the hash is the
  digest of that content, and the signers are distinct, at least one and at least as many
  as required, and each of their signatures over the hash verifies.
\<close>

theorem approval_receipts_backed:
  assumes "map_get (ap_receipts (foldl (approval_step sdk expiry dp gen) (fresh_approvals t) es)) k = Some rc"
  shows "\<exists>i \<in> set (ap_objects (foldl (approval_step sdk expiry dp gen) (fresh_approvals t) es)).
    receipt_for rc i \<and> endorsed sdk i \<and> intent_hash_of i = Some (rc_intentHash rc)"
proof -
  from run_ok assms obtain i where "i \<in> set (ap_objects (foldl (approval_step sdk expiry dp gen) (fresh_approvals t) es))"
    "intent_ok sdk i" "receipt_for rc i" unfolding approvals_ok_def list_all_iff by blast
  then show ?thesis by (intro bexI [of _ i]) (auto simp: intent_ok_def receipt_for_def spent_status_def)
qed

lemma verify_valid:
  assumes "fst (verifyProtectedAction sdk s now req opts) = Returns (Ok i)"
  shows "snd (verifyProtectedAction sdk s now req opts) = s \<and> getIntent s (pr_approvalId req) = Some i \<and>
    it_status i = Intent_Approved \<and> now \<le> it_expiresAt i \<and> it_action i = pr_action req \<and> it_target i = pr_target req \<and>
    map_get (ap_receiptsByIntent s) (pr_approvalId req) = None \<and>
    check_params (it_parameters i) (case pr_parameters req of Some ps \<Rightarrow> ps | None \<Rightarrow> []) = Params_Match \<and>
    (case po_authorizedMaintainers opts of Some ms \<Rightarrow> pr_executor req \<in> set ms | None \<Rightarrow> True)"
  using assms
  by (auto simp: verifyProtectedAction_def Let_def getIntent_def intent_isExpired_def
      split: if_splits option.splits param_check.splits)

lemma check_params_match:
  "check_params ps qs = Params_Match \<Longrightarrow> list_all (\<lambda>(k, v). value_text (field (JObj ps) k) = value_text v) qs"
  by (induction ps qs rule: check_params.induct) (auto split: if_splits)

text \<open>
  C21. A protected action runs only under a matching approval: when the guarded execution
  starts in a state of any run, the intent it executes is the one the request names, was
  approved by enough distinct verified signatures, is not expired and has no receipt, its
  action, target and every requested parameter are the request's, and the executor is on
  the allow list when one is given.
\<close>

theorem protected_action_sound:
  assumes "s = foldl (approval_step sdk expiry dp gen) (fresh_approvals t) es"
    "executeProtectedAction_begin sdk s vt now start rnd req opts = (Ok ex, s')"
  shows "getIntent s (pr_approvalId req) = Some (object s (ex_ref ex)) \<and> endorsed sdk (object s (ex_ref ex)) \<and>
    now \<le> it_expiresAt (object s (ex_ref ex)) \<and>
    it_action (object s (ex_ref ex)) = pr_action req \<and> it_target (object s (ex_ref ex)) = pr_target req \<and>
    map_get (ap_receiptsByIntent s) (pr_approvalId req) = None \<and>
    list_all (\<lambda>(k, v). value_text (field (JObj (it_parameters (object s (ex_ref ex)))) k) = value_text v)
      (case pr_parameters req of Some ps \<Rightarrow> ps | None \<Rightarrow> []) \<and>
    (case po_authorizedMaintainers opts of Some ms \<Rightarrow> pr_executor req \<in> set ms | None \<Rightarrow> True)"
proof -
  have ok: "approvals_ok sdk s" using run_ok assms(1) by simp
  show ?thesis
  proof (rule protected_cases [of sdk s vt now start rnd req opts])
    assume "\<nexists>ex. fst (executeProtectedAction_begin sdk s vt now start rnd req opts) = Ok ex"
    with assms(2) show ?thesis by simp
  next
    fix i
    assume i: "fst (verifyProtectedAction sdk s vt req opts) = Returns (Ok i)"
      "executeProtectedAction_begin sdk s vt now start rnd req opts =
        executeIntent_begin sdk (snd (verifyProtectedAction sdk s vt req opts)) now start rnd (pr_approvalId req) (pr_executor req)"
    note v = verify_valid [OF i(1)]
    then have "executeIntent_begin sdk s now start rnd (pr_approvalId req) (pr_executor req) = (Ok ex, s')"
      using i(2) assms(2) by simp
    note b = begin_result [OF this]
    have obj: "object s (ex_ref ex) = i" using v b by (simp add: getIntent_def)
    have "intent_ok sdk i"
      using ok b obj refsD(1) objectD by (metis approvals_ok_def)
    then have "endorsed sdk i" using v by (simp add: intent_ok_def)
    then show ?thesis using v b obj check_params_match by auto
  qed
qed

lemma capital_rejected:
  assumes "c \<in> set (take 64 reason)" "is_upper c"
  shows "\<not> audit_reason_pattern (audit_reason_of reason)"
proof -
  have "c \<in> set (audit_reason_of reason)"
    unfolding audit_reason_of_def set_map using assms by (intro rev_image_eqI [of c]) simp_all
  moreover have "\<not> (is_lower c \<or> is_digit c \<or> c \<in> set ''_.:-'')"
    using assms(2) by (auto simp: is_upper_def is_lower_def is_digit_def code_of_def)
  ultimately show ?thesis by (auto simp: audit_reason_pattern_def list_all_iff)
qed

text \<open>
  An execution whose reason has a capital letter among its first 64 characters is
  not audited: the sanitised reason keeps capitals, the trail rejects it, so the trail
  stays as it was and the receipt names no audit event.
\<close>

lemma capital_reason_unaudited:
  assumes "i < length (ap_running s)" "ex_ref (ap_running s ! i) < length (ap_objects s)"
    "list_ex is_upper (take 64 (it_reason (object s (ex_ref (ap_running s ! i)))))"
  shows "ap_trail (snd (executeIntent_settle dp gen s i t1 t2 wall out)) = ap_trail s \<and>
    map_option rc_auditEventId (map_get (ap_receipts (snd (executeIntent_settle dp gen s i t1 t2 wall out)))
      (ex_receiptId (ap_running s ! i))) = Some None"
proof -
  let ?r = "ex_ref (ap_running s ! i)"
  have obj: "it_reason (object ((set_status ?r st s)\<lparr>ap_running := x\<rparr>) ?r) = it_reason (object s ?r)" for st x
    using assms(2) by (simp add: set_status_def object_def update_object_def)
  have "\<not> audit_reason_pattern (audit_reason_of (it_reason (object s ?r)))"
    using capital_rejected assms(3) by (auto simp: list_ex_iff)
  then have "\<not> record_valid (execution_audit pk intent ok rid digest)" if "it_reason intent = it_reason (object s ?r)" for pk intent ok rid digest
    using that by (simp add: record_valid_def execution_audit_def)
  then have "recordAudit dp gen t wall (execution_audit pk intent ok rid digest) = (None, t)"
    if "it_reason intent = it_reason (object s ?r)" for t pk intent ok rid digest
    using that by (simp add: recordAudit_def audit_record_def)
  with assms(1) obj show ?thesis
    by (cases out) (simp_all add: executeIntent_settle_def Let_def split_beta)
qed

section \<open>A run\<close>

definition w_sdk :: stellar_sdk where
  "w_sdk = \<lparr>isValidEd25519PublicKey = (\<lambda>k. k \<in> {''GA'', ''GB''}), keypair_verify = (\<lambda>k h g. g = k)\<rparr>"

definition w_propose :: propose_params where
  "w_propose = \<lparr>pp_action = ''emergency_killswitch'', pp_target = ''network'', pp_parameters = Some [(''n'', JNum 1)],
     pp_reason = ''Stop'', pp_requestedBy = ''GA'', pp_expiresInMs = None, pp_requiredSignatures = None\<rparr>"

definition w_approved :: "approval_event list" where
  "w_approved = [Propose 5 ''nonce'' ''x'' w_propose, Sign 6 6 ''intent-5-x'' ''GA'' ''GA'', Sign 7 7 ''intent-5-x'' ''GB'' ''GB'']"

definition w_request :: protected_request where
  "w_request = \<lparr>pr_action = ''emergency_killswitch'', pr_target = ''network'', pr_parameters = Some [(''n'', JNum 1)],
     pr_approvalId = ''intent-5-x'', pr_executor = ''GB''\<rparr>"

definition w_options :: protected_options where
  "w_options = \<lparr>po_authorizedMaintainers = Some [''GA'', ''GB''], po_requireSignerAsExecutor = True\<rparr>"

abbreviation w_step :: "approvals \<Rightarrow> approval_event \<Rightarrow> approvals" where
  "w_step \<equiv> approval_step w_sdk None (\<lambda>_. True) (\<lambda>n. replicate n CHR ''i'')"

definition w_intent :: intent_request where
  "w_intent = \<lparr>it_id = ''intent-5-x'', it_action = ''emergency_killswitch'', it_target = ''network'',
     it_parameters = [(''n'', JNum 1)], it_reason = ''Stop'', it_requestedBy = ''GA'', it_requestedAt = 5,
     it_expiresAt = 1800005, it_nonce = ''nonce'', it_requiredSignatures = 2,
     it_intentHash = sha256Hex (plain_text (intent_payload ''emergency_killswitch'' ''network'' [(''n'', JNum 1)] ''Stop'' ''GA''
       ''nonce'' 5 1800005)),
     it_status = Intent_Approved,
     it_signatures = [\<lparr>sg_signer = ''GA'', sg_signature = ''GA'', sg_signedAt = 6\<rparr>,
       \<lparr>sg_signer = ''GB'', sg_signature = ''GB'', sg_signedAt = 7\<rparr>]\<rparr>"

lemma w_state:
  "foldl w_step (fresh_approvals t) w_approved =
     \<lparr>ap_objects = [w_intent], ap_intents = [(''intent-5-x'', 0)], ap_receipts = [], ap_receiptsByIntent = [],
      ap_running = [], ap_trail = t\<rparr>"
proof -
  have hash: "computeCanonicalIntentHash ''emergency_killswitch'' ''network'' [(''n'', JNum 1)] ''Stop'' ''GA'' ''nonce'' 5 1800005 =
      Some (it_intentHash w_intent)"
    by (simp add: computeCanonicalIntentHash_def stringify_def intent_payload_def w_intent_def defined_def)
  have "proposeIntent w_sdk None (fresh_approvals t) 5 ''nonce'' ''x'' w_propose =
      (Ok (w_intent\<lparr>it_status := Intent_Pending, it_signatures := []\<rparr>),
       (fresh_approvals t)\<lparr>ap_objects := [w_intent\<lparr>it_status := Intent_Pending, it_signatures := []\<rparr>],
         ap_intents := [(''intent-5-x'', 0)]\<rparr>)" (is "_ = (Ok ?i, ?s)")
  proof -
    have "trim ''Stop'' \<noteq> []" "int_text 5 = ''5''" by code_simp+
    then show ?thesis
      using hash
      by (simp add: proposeIntent_def Let_def w_sdk_def w_propose_def ACTION_THRESHOLDS_def DEFAULT_EXPIRY_MS_def
          fresh_approvals_def map_set_def) (simp add: w_intent_def)
  qed
  moreover have "approval_step w_sdk None dp gen ?s (Sign 6 6 ''intent-5-x'' ''GA'' ''GA'') =
      ?s\<lparr>ap_objects := [?i\<lparr>it_signatures := [\<lparr>sg_signer = ''GA'', sg_signature = ''GA'', sg_signedAt = 6\<rparr>]\<rparr>]\<rparr>" (is "_ = ?t") for dp gen
    by (simp add: signIntent_def Let_def map_get_def object_def update_object_def verifyMaintainerSignature_def w_sdk_def)
      (simp add: w_intent_def)
  moreover have "approval_step w_sdk None dp gen ?t (Sign 7 7 ''intent-5-x'' ''GB'' ''GB'') = ?s\<lparr>ap_objects := [w_intent]\<rparr>" for dp gen
    by (simp add: signIntent_def Let_def map_get_def object_def update_object_def verifyMaintainerSignature_def w_sdk_def)
      (simp add: w_intent_def)
  ultimately show ?thesis by (simp add: w_approved_def) (simp add: fresh_approvals_def)
qed

lemma w_begun:
  "executeProtectedAction_begin w_sdk (foldl w_step (fresh_approvals t) w_approved) 8 8 9 ''y'' w_request w_options =
     (Ok \<lparr>ex_ref = 0, ex_executor = ''GB'', ex_startTime = 9, ex_receiptId = ''receipt-9-y''\<rparr>,
      \<lparr>ap_objects = [w_intent\<lparr>it_status := Intent_Executing\<rparr>], ap_intents = [(''intent-5-x'', 0)], ap_receipts = [],
       ap_receiptsByIntent = [], ap_running = [\<lparr>ex_ref = 0, ex_executor = ''GB'', ex_startTime = 9, ex_receiptId = ''receipt-9-y''\<rparr>],
       ap_trail = t\<rparr>)"
proof -
  have "int_text 9 = ''9''" by code_simp
  then show ?thesis
    unfolding w_state
    by (simp add: executeProtectedAction_begin_def verifyProtectedAction_def Let_def w_sdk_def w_request_def w_options_def
        map_get_def object_def intent_isExpired_def executeIntent_begin_def set_status_def update_object_def field_def)
      (simp add: w_intent_def field_def)
qed

theorem protected_action_sound_witness:
  "endorsed w_sdk w_intent \<and> it_action w_intent = pr_action w_request \<and> it_target w_intent = pr_target w_request"
proof -
  from protected_action_sound [OF refl w_begun] show ?thesis unfolding w_state by (simp add: object_def)
qed

definition w_executed :: "approval_event list" where
  "w_executed = w_approved @ [Begin_Protected 8 8 9 ''y'' w_request w_options, Settle 0 10 10 11 (Handler_Returned None)]"

text \<open>The two remaining properties on the state in which the handler settles.\<close>

definition w_running :: "audit_trail \<Rightarrow> approvals" where
  "w_running t = foldl w_step (fresh_approvals t) (w_approved @ [Begin_Protected 8 8 9 ''y'' w_request w_options])"

lemma w_running:
  "w_running t =
     \<lparr>ap_objects = [w_intent\<lparr>it_status := Intent_Executing\<rparr>], ap_intents = [(''intent-5-x'', 0)], ap_receipts = [],
       ap_receiptsByIntent = [], ap_running = [\<lparr>ex_ref = 0, ex_executor = ''GB'', ex_startTime = 9, ex_receiptId = ''receipt-9-y''\<rparr>],
       ap_trail = t\<rparr>"
  by (simp add: w_running_def w_begun)

definition w_audit :: audit_trail where
  "w_audit = \<lparr>tr_cell = None, tr_ledger = None, tr_nextId = 0\<rparr>"

lemma capital_reason_unaudited_witness:
  "ap_trail (snd (executeIntent_settle (\<lambda>_. True) (\<lambda>n. replicate n CHR ''i'') (w_running w_audit) 0 10 10 11
     (Handler_Returned None))) = w_audit"
proof -
  have "list_ex is_upper (take 64 ''Stop'')" by code_simp
  then have "list_ex is_upper (take 64 (it_reason (object (w_running w_audit) (ex_ref (ap_running (w_running w_audit) ! 0)))))"
    by (simp add: w_running object_def w_intent_def)
  from capital_reason_unaudited [OF _ _ this] show ?thesis by (simp add: w_running)
qed

theorem approval_receipts_backed_witness:
  "\<exists>rc. map_get (ap_receipts (foldl w_step (fresh_approvals w_audit) w_executed)) ''receipt-9-y'' = Some rc \<and>
     (\<exists>i. receipt_for rc i \<and> endorsed w_sdk i \<and> intent_hash_of i = Some (rc_intentHash rc))"
proof -
  let ?s = "w_running w_audit"
  have run: "foldl w_step (fresh_approvals w_audit) w_executed =
      snd (executeIntent_settle (\<lambda>_. True) (\<lambda>n. replicate n CHR ''i'') ?s 0 10 10 11 (Handler_Returned None))"
    by (simp add: w_executed_def w_running_def)
  have ex: "0 < length (ap_running ?s)" "ex_ref (ap_running ?s ! 0) < length (ap_objects ?s)"
    "ex_receiptId (ap_running ?s ! 0) = ''receipt-9-y''" by (simp_all add: w_running)
  from settle_result [OF ex(1,2), of "\<lambda>_. True" "\<lambda>n. replicate n CHR ''i''" 10 10 11 "Handler_Returned None"]
  obtain rc where rc: "map_get (ap_receipts (foldl w_step (fresh_approvals w_audit) w_executed)) ''receipt-9-y'' = Some rc"
    unfolding run ex(3) by (elim exE conjE) (simp del: replicate.simps)
  from approval_receipts_backed [OF rc] rc show ?thesis by blast
qed

text \<open>The order of the entries inside \<open>parameters\<close> reaches the hashed text.\<close>

lemma parameter_order_hashed:
  "stringify (intent_payload ''quota_override'' ''t'' [(''a'', JNum 1), (''b'', JNum 2)] ''r'' ''GA'' ''n'' 1 2) \<noteq>
   stringify (intent_payload ''quota_override'' ''t'' [(''b'', JNum 2), (''a'', JNum 1)] ''r'' ''GA'' ''n'' 1 2)"
  by code_simp

text \<open>A proposer may ask for fewer signatures than the action's threshold.\<close>

lemma threshold_lowered:
  "\<exists>i s. proposeIntent w_sdk None (fresh_approvals w_audit) 5 ''nonce'' ''x'' (w_propose\<lparr>pp_requiredSignatures := Some 1\<rparr>) = (Ok i, s) \<and>
     it_requiredSignatures i = 1 \<and> map_of ACTION_THRESHOLDS (it_action i) = Some 2"
proof -
  have "trim ''Stop'' \<noteq> []" by code_simp
  moreover obtain h where
    "computeCanonicalIntentHash ''emergency_killswitch'' ''network'' [(''n'', JNum 1)] ''Stop'' ''GA'' ''nonce'' 5 1800005 = Some h"
    by (simp add: computeCanonicalIntentHash_def stringify_def intent_payload_def del: plain_text.simps json_clone.simps)
  ultimately show ?thesis
    by (simp add: proposeIntent_def Let_def w_sdk_def w_propose_def ACTION_THRESHOLDS_def DEFAULT_EXPIRY_MS_def)
qed

end
