(* ===== verification/Spec2Isabelle.thy ===== *)
theory Spec2Isabelle
  imports Amounts Change_History Ownership_Runs Stale_Detector Backpressure Audit_Anchoring Audit_Csv Graph_Walk Approval_Runs
begin

text \<open>
  Utix is a dashboard for Stellar accounts. Its features are independent panels; the services
  they share are under \<open>src/core\<close>, and this development verifies those of the services that
  keep state, spend a budget or promise evidence.

  \<^bold>\<open>Parts and how they interact.\<close> A job is submitted to the worker framework
  (\<open>workers/queue.ts\<close>), which asks the backpressure gate (\<open>workers/backpressure.ts\<close>), claims an
  idempotency key (\<open>idempotency/idempotency.ts\<close>) and charges a quota (\<open>quota/quota.ts\<close>) before it
  enqueues; its states are those of a lifecycle table (\<open>lifecycle/lifecycle.ts\<close>,
  \<open>lifecycle/records.ts\<close>). Privileged actions need the signatures of maintainers
  (\<open>auth/maintainer-approval.ts\<close>) or a role (\<open>auth/types.ts\<close>, \<open>auth/middleware.ts\<close>). What
  happens is recorded in the audit trail (\<open>audit/audit.ts\<close>), whose events are committed to a
  hash-chained ledger (\<open>ledger/ledger.ts\<close>, \<open>ledger/sha256.ts\<close>), and everything stored or emitted
  passes the redaction (\<open>telemetry/telemetry.ts\<close>). Beside them stand the history of critical
  records (\<open>audit/tamper-evident-history.ts\<close>), the two-step ownership transfers
  (\<open>ownership/ownership.ts\<close>), which use the idempotency store and a lifecycle table, the cache of
  ledger projections with its detector (\<open>cache/bounded-cache.ts\<close>, \<open>cache/stale-detector.ts\<close>), the
  impact analysis (\<open>dependencies/graph.ts\<close>) and the amounts (\<open>format/amount.ts\<close>).

  \<^bold>\<open>Theories.\<close>

  \<^item> \<open>Utix_Prelude\<close>: the result type of \<open>result/result.ts\<close>, JavaScript numbers, maps with
  insertion order and object lookups, and the interfaces: \<open>keyed_store\<close> (a storage adapter),
  \<open>step_system\<close>, \<open>guarded_system\<close> and \<open>monotone_system\<close> (a component with state, its invariant and
  what its runs keep).
  \<^item> \<open>Json\<close>, \<open>Redaction\<close>, \<open>Effects\<close>, \<open>Iso_Time\<close>: JSON trees with \<open>canonicalize\<close>, \<open>canonicalJson\<close> and
  \<open>JSON.stringify\<close>; the scanners and \<open>redact\<close>; audit inputs and telemetry records as the effects an
  operation returns; instants and \<open>toISOString\<close>.
  \<^item> \<open>Lifecycle\<close>, \<open>Lifecycle_Records\<close>: \<open>createLifecycle\<close> with its rule index, \<open>applyTransition\<close>, the
  five tables and the registry; the locale \<open>lifecycle_table\<close> is interpreted on every table.
  \<^item> \<open>Idempotency\<close>, \<open>Quota\<close>: the two stores, every operation, and \<open>withIdempotency\<close> split at its await.
  \<^item> \<open>Workers\<close>, \<open>Worker_Runs\<close>, \<open>Worker_Submit\<close>, \<open>Backpressure\<close>: the framework as a state with every
  call and every settlement of a handler's promise as a step, its runs, \<open>submit\<close> and the gate.
  \<^item> \<open>Auth\<close>, \<open>Maintainer_Approval\<close>, \<open>Approval_Runs\<close>: roles; proposals, signatures, executions split
  at their await, receipts, and all interleavings of them. Intents live in a list of objects and
  maps hold references to it, because running executions share them.
  \<^item> \<open>Sha256\<close>, \<open>Hash_Chain\<close>, \<open>Ledger\<close>, \<open>Ledger_Integrity\<close>, \<open>Ledger_Recovery\<close>, \<open>Change_History\<close>: the
  digest on 32-bit words, the locale \<open>hash_chain\<close> and its two interpretations, the ledger and the
  change history.
  \<^item> \<open>Audit_Context\<close>, \<open>Audit_Trail\<close>, \<open>Audit_Anchoring\<close>, \<open>Audit_Csv\<close>: before/after contexts, the
  trail and its cross check with the ledger, and the CSV export.
  \<^item> \<open>Ownership\<close>, \<open>Ownership_Runs\<close>: the transfer store and its runs.
  \<^item> \<open>Bounded_Cache\<close>, \<open>Cache_Runs\<close>, \<open>Stale_Detector\<close>: the cache with its loads split at their
  callbacks, its runs with a history, the inspection and the repairs.
  \<^item> \<open>Dependency_Graph\<close>, \<open>Graph_Walk\<close>: \<open>analyzeImpact\<close> and the distances it computes.
  \<^item> \<open>Amounts\<close>: parsing, printing and formatting of amounts.

  A theory named after a component holds its records, datatypes and one definition per
  function, under the name of the source where that name is free and with a prefix
  otherwise; the theories of runs hold the events, the step function and the invariant. An
  operation takes the state and the readings of the clock it makes and returns its result,
  the new state and its effects. A raise, a rejection and an early return are values.

  \<^bold>\<open>What is shown.\<close>

  \<^item> Work happens once: a repeated \<open>submit\<close> enqueues and charges nothing, a claimed key is not
  claimed again before it expires, wrapped calls replay their outcome, an intent is executed
  once and a key proposes one transfer.
  \<^item> Runs keep their promises: settled jobs and transfers stay settled, retries stay within their
  budget, a cancelled framework produces no success, a resource has one pending transfer,
  and status changes are the ones the lifecycle table declares.
  \<^item> Limits hold: the quota of a window, the capacity of the gate, the size of the cache, the
  size of audit contexts and the range of amounts.
  \<^item> Authority is needed: receipts are backed by distinct verified signatures, guarded actions
  match their approval, transfers need both sides, readers see their own audit events, and
  reports hide restricted resources.
  \<^item> Evidence is reliable: recorded chains verify, a checkpoint or a head pins the past unless
  SHA-256 collides, edits of the trail are reported, a broken ledger can be resealed, and
  exports read back.
  \<^item> Computations are right: canonical texts are injective up to the normal form, redaction
  leaves no secret, the impact report is the shortest distance, the cache serves the last
  write and evicts the least recently used entry, the detector agrees with it and its
  repairs clear what it found.

  Lemmas beside the properties show where the code does less than its comments say, among
  them \<open>replay_drifts\<close>, \<open>check_receipt_refundable\<close>, \<open>waiters_stay\<close>, \<open>capital_reason_unaudited\<close>,
  \<open>redacted_label_breaks_ledger\<close>, \<open>repair_never_audited\<close>, \<open>truncation_undetected\<close>,
  \<open>failed_key_stuck\<close> and \<open>self_transfer_accepted\<close>.

  \<^bold>\<open>Bounds and termination.\<close> Nothing runs on fuel. The walk of the impact analysis and the
  readers of CSV and text terminate by a measure; the chain of parents, a loop that need not
  end on an arbitrary map, is a partial function, and the analysis is proved to return on
  every graph. Runs are lists of events of any length.

  \<^bold>\<open>Parameters.\<close> Random ids are \<open>gen\<close> of a counter, assumed injective where a collision
  matters; elsewhere the random text is an argument and may collide. \<open>dp\<close> tells which texts
  \<open>Date.parse\<close> accepts, \<open>date_ms\<close> what \<open>Date\<close> reads; the key and signature checks of the Stellar
  SDK and the number formats of \<open>Intl\<close> are the records \<open>stellar_sdk\<close> and \<open>intl\<close>. Strings are
  sequences of code units below 256. Counts and instants are unbounded integers, which
  agree with the numbers of the code as long as those stay in their exact integer range.

  \<^bold>\<open>Not modelled.\<close> The panels under \<open>src/features\<close>, the user interface and the application
  shell render data of the Stellar SDK and Horizon, which are not among the sources. The
  network clients only call remote services. Scripts, test support, seed data and generated
  registries are not part of the running program. Scores, rates and statistics (policy,
  analytics, health, feature flags) compute with floating-point numbers, which the model does
  not have. Sessions, impersonation, delegated authorizations, notifications, operation
  records, reconciliation, migration, replay, exports, archives and retention are further
  clients of the components above and are left out of this version; the lifecycle tables
  some of them use are modelled. Of telemetry, the latency, timestamp and payload of a record
  and the sinks are left out, because no modelled component reads them back; \<open>redact\<close> is
  modelled on trees, so shared objects and cycles are not. Storage adapters are maps of
  parsed cells, and a handler or predicate that calls its component back while it runs is
  not interleaved.
\<close>

end
